(* ===== verification/Prelude.thy ===== *)
theory Prelude
  imports Main "HOL-Library.Word"
begin

text \<open>
  What every component of the development shares: the machine types, the results of code
  that can fail or not return, the collections of simplification rules that the component
  proofs use, and generic lemmas on lists and words.
\<close>

unbundle bit_operations_syntax

section \<open>Machine types\<close>

text \<open>
  \<^verbatim>\<open>uint32_t\<close>, \<^verbatim>\<open>size_t\<close> and \<^verbatim>\<open>unsigned long\<close> of the LP64 ABI the program is built for.
\<close>

type_synonym u32 = "32 word"
type_synonym u64 = "64 word"

section \<open>Collections of rules\<close>

named_theorems mask_simps "evaluation of epoll event masks"
named_theorems run_simps "one step of a loop or of a handler"

section \<open>Results\<close>

text \<open>
  Ways in which the code leaves its defined behaviour: a failed \<^verbatim>\<open>assert\<close>, an index or a
  pointer outside its object, a call through a null function pointer.
\<close>

datatype fault = AssertFailed | OutOfBounds | NullCall

text \<open>
  Straight-line code returns \<open>fault + 'a\<close>. Code with a loop that need not stop returns
  \<open>(fault + 'a) option\<close>, where \<open>None\<close> says that it never returns. \<open>and_then\<close> runs a
  continuation on the value of a call that came back without a fault.
\<close>

type_synonym 'a result = "(fault + 'a) option"

definition and_then :: "'a result \<Rightarrow> ('a \<Rightarrow> 'b result) \<Rightarrow> 'b result" where
  "and_then m f =
     (case m of
        None \<Rightarrow> None
      | Some (Inl e) \<Rightarrow> Some (Inl e)
      | Some (Inr a) \<Rightarrow> f a)"

abbreviation returns :: "'a \<Rightarrow> 'a result" where
  "returns a \<equiv> Some (Inr a)"

abbreviation faults :: "fault \<Rightarrow> 'a result" where
  "faults e \<equiv> Some (Inl e)"

lemma and_then_simps [simp, run_simps]:
  "and_then None f = None"
  "and_then (faults e) f = faults e"
  "and_then (returns a) f = f a"
  by (simp_all add: and_then_def)

lemma and_then_returnsE [elim!]:
  assumes "and_then m f = returns b"
  obtains a where "m = returns a" and "f a = returns b"
  using assms by (auto simp: and_then_def split: option.splits sum.splits)

end
