(* ===== verification/EpollEvents.thy ===== *)
theory EpollEvents
  imports Prelude
begin

text \<open>
  The event masks of \<^verbatim>\<open>epoll\<close> and how \<^verbatim>\<open>src/epoll_states.cxx\<close> prints them:
  \<^verbatim>\<open>epoll_event_str\<close> and the shifting loop of \<^verbatim>\<open>events_to_str\<close>. The loop is shown to
  stop, to agree with the list of the set bits, and to print masks of known events in a form
  from which the mask can be read back.
\<close>

section \<open>Event bits\<close>

text \<open>The values of \<^verbatim>\<open><sys/epoll.h>\<close>.\<close>

definition EPOLLIN :: u32 where "EPOLLIN = 0x001"
definition EPOLLPRI :: u32 where "EPOLLPRI = 0x002"
definition EPOLLOUT :: u32 where "EPOLLOUT = 0x004"
definition EPOLLERR :: u32 where "EPOLLERR = 0x008"
definition EPOLLHUP :: u32 where "EPOLLHUP = 0x010"
definition EPOLLRDHUP :: u32 where "EPOLLRDHUP = 0x2000"
definition EPOLLEXCLUSIVE :: u32 where "EPOLLEXCLUSIVE = 0x10000000"
definition EPOLLWAKEUP :: u32 where "EPOLLWAKEUP = 0x20000000"
definition EPOLLONESHOT :: u32 where "EPOLLONESHOT = 0x40000000"
definition EPOLLET :: u32 where "EPOLLET = 0x80000000"

lemmas event_bit_defs [mask_simps] =
  EPOLLIN_def EPOLLPRI_def EPOLLOUT_def EPOLLERR_def EPOLLHUP_def EPOLLRDHUP_def
  EPOLLEXCLUSIVE_def EPOLLWAKEUP_def EPOLLONESHOT_def EPOLLET_def

section \<open>Printing\<close>

text \<open>The \<^verbatim>\<open>switch\<close> of \<^verbatim>\<open>epoll_event_str\<close>, in its order.\<close>

definition epoll_event_str :: "u32 \<Rightarrow> string" where
  "epoll_event_str event =
     (if event = EPOLLIN then ''EPOLLIN''
      else if event = EPOLLOUT then ''EPOLLOUT''
      else if event = EPOLLRDHUP then ''EPOLLRDHUP''
      else if event = EPOLLPRI then ''EPOLLPRI''
      else if event = EPOLLERR then ''EPOLLERR''
      else if event = EPOLLHUP then ''EPOLLHUP''
      else if event = EPOLLET then ''EPOLLET''
      else if event = EPOLLONESHOT then ''EPOLLONESHOT''
      else if event = EPOLLWAKEUP then ''EPOLLWAKEUP''
      else if event = EPOLLEXCLUSIVE then ''EPOLLEXCLUSIVE''
      else ''Unknown epoll event'')"

text \<open>How often a 32-bit value can be shifted left until it is 0: at most 32 times.\<close>

definition shifts_left :: "u32 \<Rightarrow> nat" where
  "shifts_left event = (LEAST n. push_bit n event = 0)"

lemma push_bit_32_zero: "push_bit 32 (w :: u32) = 0"
  by (rule bit_word_eqI) (simp add: bit_simps)

lemma shifts_left_less:
  assumes "event \<noteq> 0"
  shows "shifts_left (push_bit 1 event) < shifts_left event"
proof -
  let ?z = "\<lambda>n. push_bit n event = 0"
  have "shifts_left event = Suc (LEAST n. ?z (Suc n))"
    unfolding shifts_left_def
    by (rule Least_Suc [of ?z 32]) (use assms in \<open>simp_all add: push_bit_32_zero\<close>)
  also have "(LEAST n. ?z (Suc n)) = shifts_left (push_bit 1 event)"
    by (simp add: shifts_left_def push_bit_push_bit)
  finally show ?thesis by simp
qed

lemma shifts_left_double: "event \<noteq> 0 \<Longrightarrow> shifts_left (event * 2) < shifts_left event"
  using shifts_left_less [of event] by simp

text \<open>
  The loop of \<^verbatim>\<open>events_to_str\<close>: \<open>event\<close> starts at 1 and is shifted left until it is 0.
  It stops because a 32-bit value shifted 32 times is 0.
\<close>

function events_loop :: "u32 \<Rightarrow> u32 \<Rightarrow> string \<Rightarrow> string \<Rightarrow> string" where
  "events_loop events event result separator =
     (if event = 0 then result
      else if events AND event \<noteq> 0
      then events_loop events (push_bit 1 event)
             (result @ separator @ epoll_event_str event) ''|''
      else events_loop events (push_bit 1 event) result separator)"
  by pat_completeness auto

termination
  by (relation "measure (\<lambda>(_, event, _, _). shifts_left event)")
    (simp_all add: shifts_left_double)

declare events_loop.simps [simp del]

definition events_to_str :: "u32 \<Rightarrow> string" where
  "events_to_str events = events_loop events 1 '''' ''''"

section \<open>The loop against the list of set bits\<close>

text \<open>\<open>join\<close> puts a separator between the strings of a list.\<close>

fun join :: "string \<Rightarrow> string list \<Rightarrow> string" where
  "join sep [] = ''''"
| "join sep [x] = x"
| "join sep (x # xs) = x @ sep @ join sep xs"

definition bit_names :: "u32 \<Rightarrow> nat \<Rightarrow> string list" where
  "bit_names events k = map (\<lambda>i. epoll_event_str (push_bit i 1)) (filter (bit events) [k..<32])"

lemma join_Cons: "join sep (x # xs) = x @ (if xs = [] then '''' else sep @ join sep xs)"
  by (cases xs) simp_all

lemma bit_names_32 [simp]: "bit_names events 32 = []"
  by (simp add: bit_names_def)

lemma bit_names_step:
  "k < 32 \<Longrightarrow> bit_names events k =
     (if bit events k then [epoll_event_str (push_bit k 1)] else []) @ bit_names events (Suc k)"
  by (simp add: bit_names_def upt_conv_Cons)

lemma events_loop_bit_names:
  assumes "k \<le> 32"
  shows "events_loop events (push_bit k 1) result sep =
    result @ (if bit_names events k = [] then '''' else sep @ join ''|'' (bit_names events k))"
  using assms
proof (induction "32 - k" arbitrary: k result sep)
  case 0
  then have "k = 32" by simp
  then show ?case by (simp add: events_loop.simps push_bit_32_zero)
next
  case (Suc n)
  then have k: "k < 32" "n = 32 - Suc k" "Suc k \<le> 32" by simp_all
  have next_bit: "push_bit 1 (push_bit k 1) = (push_bit (Suc k) 1 :: u32)"
    by (simp only: push_bit_push_bit plus_1_eq_Suc)
  have "bit (push_bit k (1 :: u32)) k"
    using k(1) by (simp add: bit_simps)
  then have nonzero: "push_bit k (1 :: u32) \<noteq> 0"
    by (metis bit_0_eq bot_apply bot_bool_def)
  have tested: "events AND push_bit k 1 \<noteq> 0 \<longleftrightarrow> bit events k"
    by (simp add: bit_iff_and_push_bit_not_eq_0)
  note IH = Suc.hyps(1) [OF k(2,3)]
  have "events_loop events (push_bit k 1) result sep =
    (if bit events k
     then events_loop events (push_bit (Suc k) 1)
            (result @ sep @ epoll_event_str (push_bit k 1)) ''|''
     else events_loop events (push_bit (Suc k) 1) result sep)"
    by (subst events_loop.simps) (simp only: nonzero tested next_bit if_False)
  then show ?case
    by (simp only: IH bit_names_step [OF k(1)]) (simp add: join_Cons)
qed

section \<open>Reading a printed mask back\<close>

text \<open>The inverse of the switch, and the inverse of \<open>join\<close> for a one-character separator.\<close>

definition event_of_str :: "string \<Rightarrow> u32 option" where
  "event_of_str =
     map_of [(epoll_event_str e, e).
       e \<leftarrow> [EPOLLIN, EPOLLOUT, EPOLLRDHUP, EPOLLPRI, EPOLLERR, EPOLLHUP, EPOLLET,
            EPOLLONESHOT, EPOLLWAKEUP, EPOLLEXCLUSIVE]]"

fun split_at :: "char \<Rightarrow> string \<Rightarrow> string list" where
  "split_at c [] = [[]]"
| "split_at c (x # xs) =
     (if x = c then [] # split_at c xs
      else case split_at c xs of [] \<Rightarrow> [[x]] | y # ys \<Rightarrow> (x # y) # ys)"

fun or_all :: "u32 option list \<Rightarrow> u32 option" where
  "or_all [] = Some 0"
| "or_all (None # es) = None"
| "or_all (Some e # es) = map_option ((OR) e) (or_all es)"

definition str_to_events :: "string \<Rightarrow> u32 option" where
  "str_to_events s = (if s = '''' then Some 0 else or_all (map event_of_str (split_at (CHR ''|'') s)))"

definition known_events :: u32 where
  "known_events = EPOLLIN OR EPOLLPRI OR EPOLLOUT OR EPOLLERR OR EPOLLHUP OR EPOLLRDHUP OR
     EPOLLEXCLUSIVE OR EPOLLWAKEUP OR EPOLLONESHOT OR EPOLLET"

lemma split_at_no_sep: "c \<notin> set xs \<Longrightarrow> split_at c xs = [xs]"
  by (induction xs) auto

lemma split_at_append: "c \<notin> set xs \<Longrightarrow> split_at c (xs @ c # ys) = xs # split_at c ys"
  by (induction xs) auto

lemma split_at_join:
  "xs \<noteq> [] \<Longrightarrow> \<forall>x \<in> set xs. c \<notin> set x \<Longrightarrow> split_at c (join [c] xs) = xs"
  by (induction "[c]" xs rule: join.induct) (simp_all add: split_at_no_sep split_at_append)

definition known_bits :: "nat list" where
  "known_bits = [0, 1, 2, 3, 4, 13, 28, 29, 30, 31]"

lemma known_events_value: "known_events = 0xF000201F"
  by (simp add: known_events_def event_bit_defs)

lemma known_bit:
  assumes "events AND NOT known_events = 0" and "bit events i"
  shows "i \<in> set known_bits"
proof -
  have "i < 32" using assms(2) bit_imp_le_length by fastforce
  have "bit known_events i"
    using assms by (metis bit_and_iff bit_not_iff bit_0_eq bot_apply bot_bool_def
        bit_imp_possible_bit)
  then have "bit (0xF000201F :: u32) i" by (simp add: known_events_value)
  moreover have "\<forall>i \<in> set [0..<32]. bit (0xF000201F :: u32) i \<longrightarrow> i \<in> set known_bits"
    by (simp add: known_bits_def upt_rec)
  ultimately show ?thesis using \<open>i < 32\<close> by simp
qed

lemma known_bit_names:
  "\<forall>i \<in> set known_bits. CHR ''|'' \<notin> set (epoll_event_str (push_bit i 1)) \<and>
     event_of_str (epoll_event_str (push_bit i 1)) = Some (push_bit i 1)"
  by (simp add: known_bits_def event_of_str_def epoll_event_str_def event_bit_defs)

lemma or_all_bits:
  assumes "\<forall>i \<in> set is. f i = Some (push_bit i 1)"
  shows "or_all (map f is) = Some (foldr (\<lambda>i m. push_bit i 1 OR m) is 0)"
  using assms by (induction "is") simp_all

lemma bit_foldr_or:
  "bit (foldr (\<lambda>i m. push_bit i 1 OR m) is 0 :: u32) n \<longleftrightarrow> n \<in> set is \<and> n < 32"
  by (induction "is") (auto simp: bit_simps)

lemma events_to_str_bits:
  "events_to_str events =
     join ''|'' (map (\<lambda>i. epoll_event_str (push_bit i 1)) (filter (bit events) [0..<32]))"
  using events_loop_bit_names [of 0 events "''''" "''''"]
  by (simp add: events_to_str_def bit_names_def)

text \<open>
  The loop of \<^verbatim>\<open>events_to_str\<close> ends and prints the names of the set bits, lowest bit
  first, separated by a vertical bar; a bit without a name is printed as unknown.
\<close>

lemma events_to_str_join:
  "events_to_str events =
     join ''|'' (map (\<lambda>i. if bit known_events i then epoll_event_str (push_bit i 1)
                          else ''Unknown epoll event'') (filter (bit events) [0..<32]))"
proof -
  have "\<forall>i \<in> set [0..<32]. \<not> bit (0xF000201F :: u32) i \<longrightarrow>
      epoll_event_str (push_bit i 1) = ''Unknown epoll event''"
    by (simp add: upt_rec epoll_event_str_def event_bit_defs)
  then show ?thesis
    by (auto simp: events_to_str_bits known_events_value intro!: arg_cong [where f = "join ''|''"])
qed

text \<open>
  \<^bold>\<open>C36\<close>. A printed mask of known events can be read back: no two such masks print alike.
\<close>

theorem events_to_str_roundtrip:
  assumes "events AND NOT known_events = 0"
  shows "str_to_events (events_to_str events) = Some events"
proof -
  let ?is = "filter (bit events) [0..<32]"
  let ?name = "\<lambda>i. epoll_event_str (push_bit i 1)"
  have known: "\<forall>i \<in> set ?is. i \<in> set known_bits"
    using known_bit [OF assms] by simp
  have mask: "foldr (\<lambda>i m. push_bit i 1 OR m) ?is 0 = events"
    by (rule bit_word_eqI) (simp only: bit_foldr_or, auto)
  show ?thesis
  proof (cases "?is = []")
    case True
    with mask show ?thesis by (simp add: events_to_str_bits str_to_events_def)
  next
    case False
    have "split_at (CHR ''|'') (join ''|'' (map ?name ?is)) = map ?name ?is"
      using known known_bit_names False by (intro split_at_join) auto
    moreover have "or_all (map (event_of_str \<circ> ?name) ?is) = Some events"
      using known known_bit_names mask by (subst or_all_bits) auto
    moreover have "join ''|'' (map ?name ?is) \<noteq> ''''"
      using False by (cases ?is) (auto simp: join_Cons epoll_event_str_def)
    ultimately show ?thesis
      by (simp add: events_to_str_bits str_to_events_def)
  qed
qed

theorem events_to_str_roundtrip_witness:
  "str_to_events ''EPOLLIN|EPOLLOUT|EPOLLET'' = Some (EPOLLIN OR EPOLLOUT OR EPOLLET)"
proof -
  have "(EPOLLIN OR EPOLLOUT OR EPOLLET) AND NOT known_events = 0"
    by (simp add: known_events_value event_bit_defs)
  moreover have "events_to_str (EPOLLIN OR EPOLLOUT OR EPOLLET) = ''EPOLLIN|EPOLLOUT|EPOLLET''"
    by (simp add: events_to_str_bits epoll_event_str_def event_bit_defs upt_rec)
  ultimately show ?thesis
    using events_to_str_roundtrip [of "EPOLLIN OR EPOLLOUT OR EPOLLET"] by simp
qed

end
