(* ===== verification/EpollClient.thy ===== *)
theory EpollClient
  imports EpollEvents
begin

text \<open>
  The interface between the kernel's interest list and the code that maintains it. Both
  \<^verbatim>\<open>struct Epoll\<close> of \<^verbatim>\<open>src/epoll_states.cxx\<close> and the pair \<^verbatim>\<open>Epoll_add\<close>/\<^verbatim>\<open>Epoll_remove\<close> of
  \<^verbatim>\<open>src/epoll_bug.c\<close> mirror the interest list in their own fields and ignore the return value
  of \<^verbatim>\<open>epoll_ctl\<close>. What makes this right is that no call can fail and that mirror and list
  agree afterwards; the locale states this once for both.
\<close>

section \<open>The interest of the kernel in one file descriptor\<close>

datatype ctl = CTL_ADD u32 | CTL_MOD u32 | CTL_DEL

text \<open>
  What \<^verbatim>\<open>epoll_ctl(2)\<close> documents for a descriptor with the given interest: \<open>None\<close> is the
  error return, \<^verbatim>\<open>EEXIST\<close> for an \<^verbatim>\<open>ADD\<close> of a descriptor that is in the list and \<^verbatim>\<open>ENOENT\<close>
  for a \<^verbatim>\<open>MOD\<close> or \<^verbatim>\<open>DEL\<close> of one that is not.
\<close>

fun ctl_step :: "u32 option \<Rightarrow> ctl \<Rightarrow> u32 option option" where
  "ctl_step None (CTL_ADD m) = Some (Some m)"
| "ctl_step (Some _) (CTL_MOD m) = Some (Some m)"
| "ctl_step (Some _) CTL_DEL = Some None"
| "ctl_step _ _ = None"

fun ctl_run :: "u32 option \<Rightarrow> ctl list \<Rightarrow> u32 option option" where
  "ctl_run i [] = Some i"
| "ctl_run i (c # cs) = (case ctl_step i c of None \<Rightarrow> None | Some i' \<Rightarrow> ctl_run i' cs)"

lemma ctl_run_append:
  "ctl_run i (cs @ ds) = (case ctl_run i cs of None \<Rightarrow> None | Some i' \<Rightarrow> ctl_run i' ds)"
  by (induction cs arbitrary: i) (auto split: option.splits)

text \<open>In a run without errors every \<^verbatim>\<open>DEL\<close> undoes one \<^verbatim>\<open>ADD\<close>.\<close>

definition is_add :: "ctl \<Rightarrow> bool" where
  "is_add c = (case c of CTL_ADD _ \<Rightarrow> True | _ \<Rightarrow> False)"

definition listed :: "u32 option \<Rightarrow> nat" where
  "listed i = (case i of None \<Rightarrow> 0 | Some _ \<Rightarrow> 1)"

lemma ctl_step_balance:
  "ctl_step i c = Some i' \<Longrightarrow>
     listed i + of_bool (is_add c) = listed i' + of_bool (c = CTL_DEL)"
  by (cases i; cases c) (auto simp: is_add_def listed_def)

lemma ctl_run_balance:
  "ctl_run i cs = Some i' \<Longrightarrow>
     listed i + length (filter is_add cs) = listed i' + count_list cs CTL_DEL"
proof (induction cs arbitrary: i)
  case (Cons c cs)
  then obtain j where "ctl_step i c = Some j" and "ctl_run j cs = Some i'"
    by (auto split: option.splits)
  from Cons.IH [OF this(2)] ctl_step_balance [OF this(1)] show ?case
    by auto
qed simp

section \<open>Clients\<close>

text \<open>Running a list of operations, stopping at the first fault and keeping all the calls.\<close>

fun exec_all :: "('op \<Rightarrow> 's \<Rightarrow> fault + ctl list \<times> 's) \<Rightarrow> 'op list \<Rightarrow> 's \<Rightarrow> fault + ctl list \<times> 's" where
  "exec_all exec [] s = Inr ([], s)"
| "exec_all exec (op # ops) s =
     (case exec op s of
        Inl e \<Rightarrow> Inl e
      | Inr (cs, s') \<Rightarrow>
          (case exec_all exec ops s' of Inl e \<Rightarrow> Inl e | Inr (ds, s'') \<Rightarrow> Inr (cs @ ds, s'')))"

locale ctl_client =
  fixes exec :: "'op \<Rightarrow> 's \<Rightarrow> fault + ctl list \<times> 's"
    and wf :: "'s \<Rightarrow> bool"
    and interest :: "'s \<Rightarrow> u32 option"
  assumes exec_wf: "wf s \<Longrightarrow> exec op s = Inr (cs, s') \<Longrightarrow> wf s'"
    and exec_ctl: "wf s \<Longrightarrow> exec op s = Inr (cs, s') \<Longrightarrow>
      ctl_run (interest s) cs = Some (interest s')"
begin

lemma exec_all_agrees:
  "wf s \<Longrightarrow> exec_all exec ops s = Inr (cs, s') \<Longrightarrow>
     wf s' \<and> ctl_run (interest s) cs = Some (interest s')"
proof (induction ops arbitrary: s cs)
  case (Cons op ops)
  then obtain as t bs where op: "exec op s = Inr (as, t)"
    and rest: "exec_all exec ops t = Inr (bs, s')" and cs: "cs = as @ bs"
    by (auto split: sum.splits)
  from Cons.IH [OF exec_wf [OF Cons.prems(1) op] rest] exec_ctl [OF Cons.prems(1) op] cs
  show ?case by (simp add: ctl_run_append)
qed simp

lemma exec_all_balance:
  "wf s \<Longrightarrow> exec_all exec ops s = Inr (cs, s') \<Longrightarrow>
     listed (interest s) + length (filter is_add cs) =
     listed (interest s') + count_list cs CTL_DEL"
  using exec_all_agrees ctl_run_balance by blast

end

end
