(* ===== verification/EpollBug.thy ===== *)
theory EpollBug
  imports EpollClient
begin

text \<open>
  The program \<^verbatim>\<open>src/epoll_bug.c\<close>: a listen socket, a client socket and the accepted socket,
  driven by a level-triggered event loop. The accepted socket writes a burst to the client,
  which echoes every byte back. This theory holds its data and every function; the system
  calls are arguments. Printing and the contents of the (zeroed) buffer are left out, its
  size is kept.
\<close>

section \<open>Data\<close>

definition burst_size :: int where "burst_size = 10000000"
definition read_length :: int where "read_length = 100000"

text \<open>The size of the buffer that \<^verbatim>\<open>Epoll_init\<close> allocates.\<close>

definition buf_size :: int where "buf_size = 10000000"

text \<open>
  The functions whose address is stored in an \<^verbatim>\<open>EventObj\<close>, and the addresses of the event
  objects: the two on the stack of \<^verbatim>\<open>main\<close> and those allocated for accepted sockets.
\<close>

datatype handler =
    ListenRead | AcceptRead | AcceptWrite | ClientRead | ClientWrite

datatype obj = OListen | OClient | OAccept nat

record event_obj =
  ev_fd :: int
  watched_events :: u32
  read_event :: "handler option"
  write_event :: "handler option"

record bug_epoll =
  ep_fd :: int
  watched_count :: int
  twlen1 :: u64
  twlen2 :: u64
  trlen1 :: u64
  trlen2 :: u64

text \<open>
  The state of the program: the \<^verbatim>\<open>Epoll\<close>, the store of event objects, the number of
  \<^verbatim>\<open>AcceptSocket\<close>s allocated, the pointer \<^verbatim>\<open>accept_socket\<close> of the \<^verbatim>\<open>ListenSocket\<close>, and the
  state of the kernel, of an arbitrary type.
\<close>

record 'k world =
  ep :: bug_epoll
  objs :: "obj \<Rightarrow> event_obj option"
  allocated :: nat
  accept_socket :: "obj option"
  kern :: 'k

text \<open>
  The system calls. \<open>k_read\<close> and \<open>k_write\<close> take the descriptor and the length and return
  what the call returned; the other results are not used by the code, but for the
  descriptor of \<^verbatim>\<open>accept4\<close>.
\<close>

record 'k kernel =
  k_read :: "int \<Rightarrow> nat \<Rightarrow> 'k \<Rightarrow> int \<times> 'k"
  k_write :: "int \<Rightarrow> nat \<Rightarrow> 'k \<Rightarrow> int \<times> 'k"
  k_accept :: "int \<Rightarrow> 'k \<Rightarrow> int \<times> 'k"
  k_ctl :: "int \<Rightarrow> ctl \<Rightarrow> 'k \<Rightarrow> 'k"
  k_close :: "int \<Rightarrow> 'k \<Rightarrow> 'k"

text \<open>
  \<^verbatim>\<open>read\<close> and \<^verbatim>\<open>write\<close> are only ever called on the buffer. A length that is negative (and
  so becomes a huge \<^verbatim>\<open>size_t\<close>) or larger than the buffer is a fault.
\<close>

definition sys_read :: "'k kernel \<Rightarrow> int \<Rightarrow> int \<Rightarrow> 'k \<Rightarrow> fault + int \<times> 'k" where
  "sys_read K fd len k =
     (if 0 \<le> len \<and> len \<le> buf_size then Inr (k_read K fd (nat len) k) else Inl OutOfBounds)"

definition sys_write :: "'k kernel \<Rightarrow> int \<Rightarrow> int \<Rightarrow> 'k \<Rightarrow> fault + int \<times> 'k" where
  "sys_write K fd len k =
     (if 0 \<le> len \<and> len \<le> buf_size then Inr (k_write K fd (nat len) k) else Inl OutOfBounds)"

section \<open>Watching and unwatching events\<close>

text \<open>The loop over \<^verbatim>\<open>EPOLLIN\<close> and \<^verbatim>\<open>EPOLLOUT\<close> that both functions share.\<close>

definition count_events :: "u32 \<Rightarrow> int" where
  "count_events events =
     (if events AND EPOLLIN \<noteq> 0 then 1 else 0) + (if events AND EPOLLOUT \<noteq> 0 then 1 else 0)"

text \<open>
  \<^verbatim>\<open>Epoll_add\<close> and \<^verbatim>\<open>Epoll_remove\<close> on the two structures they get a pointer to; the calls
  of \<^verbatim>\<open>epoll_ctl\<close> are returned.
\<close>

definition add_events ::
  "u32 \<Rightarrow> bug_epoll \<times> event_obj \<Rightarrow> fault + ctl list \<times> (bug_epoll \<times> event_obj)" where
  "add_events events s =
     (case s of (self, event_obj) \<Rightarrow>
       if watched_events event_obj AND events \<noteq> 0 then Inl AssertFailed
       else
         let event_events = watched_events event_obj OR events;
             call = (if event_events \<noteq> events then CTL_MOD event_events else CTL_ADD event_events)
         in Inr ([call],
              (self\<lparr>watched_count := watched_count self + count_events events\<rparr>,
               event_obj\<lparr>watched_events := event_events\<rparr>)))"

definition remove_events ::
  "u32 \<Rightarrow> bug_epoll \<times> event_obj \<Rightarrow> fault + ctl list \<times> (bug_epoll \<times> event_obj)" where
  "remove_events events s =
     (case s of (self, event_obj) \<Rightarrow>
       if watched_events event_obj AND events \<noteq> events then Inl AssertFailed
       else
         let event_events = watched_events event_obj AND NOT events;
             call = (if event_events \<noteq> 0 then CTL_MOD event_events else CTL_DEL)
         in Inr ([call],
              (self\<lparr>watched_count := watched_count self - count_events events\<rparr>,
               event_obj\<lparr>watched_events := event_events\<rparr>)))"

text \<open>
  The same on the whole state. \<^verbatim>\<open>Epoll_remove\<close> closes the descriptor when nothing is left
  to watch, and returns whether anything at all is watched.
\<close>

definition Epoll_add :: "'k kernel \<Rightarrow> obj \<Rightarrow> u32 \<Rightarrow> 'k world \<Rightarrow> 'k world result" where
  "Epoll_add K ob events w =
     (case objs w ob of
        None \<Rightarrow> faults OutOfBounds
      | Some event_obj \<Rightarrow>
          (case add_events events (ep w, event_obj) of
             Inl e \<Rightarrow> faults e
           | Inr (calls, self, event_obj') \<Rightarrow>
               returns (w\<lparr>ep := self, objs := (objs w)(ob \<mapsto> event_obj'),
                          kern := fold (k_ctl K (ev_fd event_obj)) calls (kern w)\<rparr>)))"

definition Epoll_remove :: "'k kernel \<Rightarrow> obj \<Rightarrow> u32 \<Rightarrow> 'k world \<Rightarrow> (bool \<times> 'k world) result" where
  "Epoll_remove K ob events w =
     (case objs w ob of
        None \<Rightarrow> faults OutOfBounds
      | Some event_obj \<Rightarrow>
          (case remove_events events (ep w, event_obj) of
             Inl e \<Rightarrow> faults e
           | Inr (calls, self, event_obj') \<Rightarrow>
               let k = fold (k_ctl K (ev_fd event_obj)) calls (kern w);
                   k' = (if watched_events event_obj' = 0 then k_close K (ev_fd event_obj') k else k)
               in returns (watched_count self \<noteq> 0,
                    w\<lparr>ep := self, objs := (objs w)(ob \<mapsto> event_obj'), kern := k'\<rparr>)))"

section \<open>The handlers\<close>

definition alen :: "int list" where
  "alen = [2016, 2016, 4064, 8160, 16384, 32832, 65728, 131520, 263104, 526272, 1052608]"

text \<open>
  The \<^verbatim>\<open>do\<close> loop of \<^verbatim>\<open>AcceptSocket_write_event\<close>: one write per entry of \<open>alen\<close> for as
  long as the kernel takes everything. Reading the array outside its bounds is a fault.
\<close>

function accept_write_loop ::
  "'k kernel \<Rightarrow> int \<Rightarrow> nat \<Rightarrow> int \<Rightarrow> u64 \<Rightarrow> 'k \<Rightarrow> fault + u64 \<times> 'k" where
  "accept_write_loop K fd i mx tot k =
     (if i \<ge> length alen then Inl OutOfBounds
      else
        let len = (if alen ! i > mx then mx else alen ! i)
        in case sys_write K fd len k of
             Inl e \<Rightarrow> Inl e
           | Inr (wlen, k') \<Rightarrow>
               let tot' = (if wlen > 0 then tot + word_of_int wlen else tot);
                   mx' = (if wlen > 0 then mx - wlen else mx)
               in if wlen = len \<and> Suc i < length alen \<and> mx' > 0
                  then accept_write_loop K fd (Suc i) mx' tot' k'
                  else Inr (tot', k'))"
  by pat_completeness auto
termination
  by (relation "measure (\<lambda>(_, _, i, _, _, _). length alen - i)") auto

declare accept_write_loop.simps [simp del]

text \<open>The 64-bit difference is stored in an \<^verbatim>\<open>int\<close>, which keeps its low 32 bits.\<close>

definition AcceptSocket_write_event :: "'k kernel \<Rightarrow> obj \<Rightarrow> 'k world \<Rightarrow> (bool \<times> 'k world) result" where
  "AcceptSocket_write_event K ob w =
     (case objs w ob of
        None \<Rightarrow> faults OutOfBounds
      | Some self_event \<Rightarrow>
          let mx = sint (ucast (word_of_int burst_size - twlen1 (ep w)) :: u32)
          in case accept_write_loop K (ev_fd self_event) 0 mx (twlen1 (ep w)) (kern w) of
               Inl e \<Rightarrow> faults e
             | Inr (tot, k) \<Rightarrow>
                 returns (tot < word_of_int burst_size,
                   w\<lparr>ep := (ep w)\<lparr>twlen1 := tot\<rparr>, kern := k\<rparr>))"

text \<open>
  The \<^verbatim>\<open>do\<close> loop of both read handlers: read until nothing comes, adding up. It ends only
  when \<^verbatim>\<open>read\<close> returns 0 or an error.
\<close>

partial_function (option) read_loop ::
  "'k kernel \<Rightarrow> int \<Rightarrow> u64 \<Rightarrow> 'k \<Rightarrow> (fault + int \<times> u64 \<times> 'k) option" where
  "read_loop K fd tot k =
     (case sys_read K fd read_length k of
        Inl e \<Rightarrow> Some (Inl e)
      | Inr (rlen, k') \<Rightarrow>
          if rlen > 0 then read_loop K fd (tot + word_of_int rlen) k'
          else Some (Inr (rlen, tot, k')))"

definition AcceptSocket_read_event :: "'k kernel \<Rightarrow> obj \<Rightarrow> 'k world \<Rightarrow> (bool \<times> 'k world) result" where
  "AcceptSocket_read_event K ob w =
     (case objs w ob of
        None \<Rightarrow> faults OutOfBounds
      | Some self_event \<Rightarrow>
          and_then (read_loop K (ev_fd self_event) (trlen2 (ep w)) (kern w))
            (\<lambda>(rlen, tot, k).
               returns (rlen \<noteq> 0, w\<lparr>ep := (ep w)\<lparr>trlen2 := tot\<rparr>, kern := k\<rparr>)))"

definition ClientSocket_read_event :: "'k kernel \<Rightarrow> obj \<Rightarrow> 'k world \<Rightarrow> (bool \<times> 'k world) result" where
  "ClientSocket_read_event K ob w =
     (case objs w ob of
        None \<Rightarrow> faults OutOfBounds
      | Some self_event \<Rightarrow>
          let buffer_empty = (trlen1 (ep w) - twlen2 (ep w) = 0)
          in and_then (read_loop K (ev_fd self_event) (trlen1 (ep w)) (kern w))
               (\<lambda>(rlen, tot, k).
                  let w' = w\<lparr>ep := (ep w)\<lparr>trlen1 := tot\<rparr>, kern := k\<rparr>
                  in if buffer_empty \<and> trlen1 (ep w') > twlen2 (ep w')
                     then and_then (Epoll_add K ob EPOLLOUT w') (\<lambda>w''. returns (True, w''))
                     else returns (True, w')))"

definition ClientSocket_write_event :: "'k kernel \<Rightarrow> obj \<Rightarrow> 'k world \<Rightarrow> (bool \<times> 'k world) result" where
  "ClientSocket_write_event K ob w =
     (case objs w ob of
        None \<Rightarrow> faults OutOfBounds
      | Some event_obj \<Rightarrow>
          if \<not> trlen1 (ep w) - twlen2 (ep w) > 0 then faults AssertFailed
          else
            (case sys_write K (ev_fd event_obj) (uint (trlen1 (ep w) - twlen2 (ep w))) (kern w) of
               Inl e \<Rightarrow> faults e
             | Inr (wlen, k) \<Rightarrow>
                 if wlen \<le> 0 then returns (False, w\<lparr>kern := k\<rparr>)
                 else
                   let w' = w\<lparr>ep := (ep w)\<lparr>twlen2 := twlen2 (ep w) + word_of_int wlen\<rparr>, kern := k\<rparr>
                   in and_then
                        (if twlen2 (ep w') \<ge> word_of_int burst_size \<and> twlen2 (ep w') = twlen1 (ep w')
                         then Epoll_remove K ob EPOLLIN w' else returns (True, w'))
                        (\<lambda>(_, w''). returns (trlen1 (ep w'') - twlen2 (ep w'') > 0, w''))))"

text \<open>
  The three functions that set the handlers of an event object and watch it, and the
  zeroed object that \<^verbatim>\<open>memset\<close> leaves.
\<close>

definition zero_event :: event_obj where
  "zero_event = \<lparr>ev_fd = 0, watched_events = 0, read_event = None, write_event = None\<rparr>"

definition add_with_handlers ::
  "'k kernel \<Rightarrow> handler option \<Rightarrow> handler option \<Rightarrow> u32 \<Rightarrow> obj \<Rightarrow> 'k world \<Rightarrow> 'k world result" where
  "add_with_handlers K rd wr events ob w =
     (case objs w ob of
        None \<Rightarrow> faults OutOfBounds
      | Some event_obj \<Rightarrow>
          Epoll_add K ob events
            (w\<lparr>objs := (objs w)(ob \<mapsto> event_obj\<lparr>read_event := rd, write_event := wr\<rparr>)\<rparr>))"

definition Epoll_add_listen_socket :: "'k kernel \<Rightarrow> obj \<Rightarrow> 'k world \<Rightarrow> 'k world result" where
  "Epoll_add_listen_socket K = add_with_handlers K (Some ListenRead) None EPOLLIN"

definition Epoll_add_client_socket :: "'k kernel \<Rightarrow> obj \<Rightarrow> 'k world \<Rightarrow> 'k world result" where
  "Epoll_add_client_socket K = add_with_handlers K (Some ClientRead) (Some ClientWrite) EPOLLIN"

definition Epoll_add_accept_socket :: "'k kernel \<Rightarrow> obj \<Rightarrow> 'k world \<Rightarrow> 'k world result" where
  "Epoll_add_accept_socket K =
     add_with_handlers K (Some AcceptRead) (Some AcceptWrite) (EPOLLIN OR EPOLLOUT)"

text \<open>
  \<^verbatim>\<open>ListenSocket_read_event\<close> with \<^verbatim>\<open>AcceptSocket_init\<close>: a new, zeroed \<^verbatim>\<open>AcceptSocket\<close> for
  the accepted connection.
\<close>

definition AcceptSocket_init :: "'k kernel \<Rightarrow> obj \<Rightarrow> int \<Rightarrow> 'k world \<Rightarrow> 'k world result" where
  "AcceptSocket_init K ob listen_fd w =
     (case k_accept K listen_fd (kern w) of
        (fd, k) \<Rightarrow>
          Epoll_add_accept_socket K ob
            (w\<lparr>objs := (objs w)(ob \<mapsto> zero_event\<lparr>ev_fd := fd\<rparr>), kern := k\<rparr>))"

definition ListenSocket_read_event :: "'k kernel \<Rightarrow> obj \<Rightarrow> 'k world \<Rightarrow> (bool \<times> 'k world) result" where
  "ListenSocket_read_event K ob w =
     (case objs w ob of
        None \<Rightarrow> faults OutOfBounds
      | Some self_event \<Rightarrow>
          let sock = OAccept (allocated w);
              w' = w\<lparr>allocated := Suc (allocated w), accept_socket := Some sock\<rparr>
          in and_then (AcceptSocket_init K sock (ev_fd self_event) w')
               (\<lambda>w''. returns (False, w'')))"

fun call_handler :: "'k kernel \<Rightarrow> handler \<Rightarrow> obj \<Rightarrow> 'k world \<Rightarrow> (bool \<times> 'k world) result" where
  "call_handler K ListenRead ob w = ListenSocket_read_event K ob w"
| "call_handler K AcceptRead ob w = AcceptSocket_read_event K ob w"
| "call_handler K AcceptWrite ob w = AcceptSocket_write_event K ob w"
| "call_handler K ClientRead ob w = ClientSocket_read_event K ob w"
| "call_handler K ClientWrite ob w = ClientSocket_write_event K ob w"

section \<open>The main loop\<close>

text \<open>
  One half of the body of \<^verbatim>\<open>while (n--)\<close>: call the handler of the event bit \<open>ev\<close> if it is
  reported, and unwatch the bit when the handler returns false. The flag says that
  \<^verbatim>\<open>Epoll_mainloop\<close> returns.
\<close>

definition dispatch ::
  "'k kernel \<Rightarrow> (event_obj \<Rightarrow> handler option) \<Rightarrow> u32 \<Rightarrow> obj \<times> u32 \<Rightarrow> 'k world
     \<Rightarrow> (bool \<times> 'k world) result" where
  "dispatch K member ev event w =
     (case event of (ob, events) \<Rightarrow>
       if events AND ev = 0 then returns (False, w)
       else
         (case objs w ob of
            None \<Rightarrow> faults OutOfBounds
          | Some event_obj \<Rightarrow>
              (case member event_obj of
                 None \<Rightarrow> faults NullCall
               | Some h \<Rightarrow>
                   and_then (call_handler K h ob w)
                     (\<lambda>(keep, w').
                        if keep then returns (False, w')
                        else and_then (Epoll_remove K ob ev w')
                               (\<lambda>(more, w''). returns (\<not> more, w''))))))"

definition handle_event :: "'k kernel \<Rightarrow> obj \<times> u32 \<Rightarrow> 'k world \<Rightarrow> (bool \<times> 'k world) result" where
  "handle_event K event w =
     and_then (dispatch K read_event EPOLLIN event w)
       (\<lambda>(ret, w'). if ret then returns (True, w')
          else and_then (dispatch K write_event EPOLLOUT event w')
            (\<lambda>(ret, w''). if ret then returns (True, w'')
               else if snd event AND NOT (EPOLLIN OR EPOLLOUT) \<noteq> 0 then faults AssertFailed
               else returns (False, w'')))"

text \<open>
  \<^verbatim>\<open>while (n--)\<close> over the array that \<^verbatim>\<open>epoll_wait\<close> filled: the test is \<open>n \<noteq> 0\<close>, also for a
  negative \<open>n\<close>, and the index is then \<open>n - 1\<close>. An index outside the array is a fault.
\<close>

function handle_events ::
  "'k kernel \<Rightarrow> (obj \<times> u32) list \<Rightarrow> int \<Rightarrow> 'k world \<Rightarrow> (bool \<times> 'k world) result" where
  "handle_events K events n w =
     (if n = 0 then returns (False, w)
      else if n - 1 < 0 \<or> n - 1 \<ge> int (length events) then faults OutOfBounds
      else and_then (handle_event K (events ! nat (n - 1)) w)
             (\<lambda>(ret, w'). if ret then returns (True, w') else handle_events K events (n - 1) w'))"
  by pat_completeness auto
termination
  by (relation "measure (\<lambda>(_, _, n, _). nat n)") auto

declare handle_events.simps [simp del]

text \<open>The time that \<^verbatim>\<open>epoll_wait\<close> took, in place in \<^verbatim>\<open>tv2\<close>, and what the loop makes of it.\<close>

record timeval =
  tv_sec :: int
  tv_usec :: int

definition timeval_diff :: "timeval \<Rightarrow> timeval \<Rightarrow> timeval" where
  "timeval_diff tv1 tv2 =
     (let sec = tv_sec tv2 - tv_sec tv1;
          usec = tv_usec tv2 - tv_usec tv1
      in if usec < 0 then \<lparr>tv_sec = sec - 1, tv_usec = usec + 1000000\<rparr>
         else \<lparr>tv_sec = sec, tv_usec = usec\<rparr>)"

datatype stall = NoStall | Stalled int | BlockedPermanently

definition classify_stall :: "timeval \<Rightarrow> stall" where
  "classify_stall tv =
     (if tv_usec tv > 10000
      then (if tv_sec tv = 0 then Stalled (tv_usec tv div 1000) else BlockedPermanently)
      else NoStall)"

text \<open>
  One round of \<^verbatim>\<open>Epoll_mainloop\<close>. What \<^verbatim>\<open>gettimeofday\<close> and \<^verbatim>\<open>epoll_wait\<close> gave is an
  argument; the flag says that the function returns.
\<close>

record wait_result =
  wait_tv1 :: timeval
  wait_tv2 :: timeval
  wait_n :: int
  wait_events :: "(obj \<times> u32) list"

definition mainloop_round :: "'k kernel \<Rightarrow> wait_result \<Rightarrow> 'k world \<Rightarrow> (bool \<times> 'k world) result" where
  "mainloop_round K r w =
     (if classify_stall (timeval_diff (wait_tv1 r) (wait_tv2 r)) = BlockedPermanently
      then returns (True, w)
      else handle_events K (wait_events r) (wait_n r) w)"

text \<open>The rounds of \<^verbatim>\<open>Epoll_mainloop\<close> for a list of results, until it returns.\<close>

fun mainloop_rounds :: "'k kernel \<Rightarrow> wait_result list \<Rightarrow> 'k world \<Rightarrow> (bool \<times> 'k world) result" where
  "mainloop_rounds K [] w = returns (False, w)"
| "mainloop_rounds K (r # rs) w =
     and_then (mainloop_round K r w)
       (\<lambda>(ret, w'). if ret then returns (True, w') else mainloop_rounds K rs w')"

section \<open>Start\<close>

definition Epoll_init :: "int \<Rightarrow> bug_epoll" where
  "Epoll_init created =
     \<lparr>ep_fd = created, watched_count = 0, twlen1 = 0, twlen2 = 0, trlen1 = 0, trlen2 = 0\<rparr>"

definition ListenSocket_init :: "'k kernel \<Rightarrow> int \<Rightarrow> 'k world \<Rightarrow> 'k world result" where
  "ListenSocket_init K fd w =
     Epoll_add_listen_socket K OListen
       (w\<lparr>objs := (objs w)(OListen \<mapsto> zero_event\<lparr>ev_fd := fd\<rparr>)\<rparr>)"

definition ClientSocket_init :: "'k kernel \<Rightarrow> int \<Rightarrow> 'k world \<Rightarrow> 'k world result" where
  "ClientSocket_init K fd w =
     Epoll_add_client_socket K OClient
       (w\<lparr>objs := (objs w)(OClient \<mapsto> zero_event\<lparr>ev_fd := fd\<rparr>)\<rparr>)"

lemmas add_socket_defs =
  Epoll_add_listen_socket_def Epoll_add_client_socket_def Epoll_add_accept_socket_def
  add_with_handlers_def zero_event_def

text \<open>
  \<^verbatim>\<open>main\<close> up to the call of \<^verbatim>\<open>Epoll_mainloop\<close>. The descriptors come from \<^verbatim>\<open>epoll_create1\<close>
  and \<^verbatim>\<open>socket\<close>; \<open>k\<close> is the kernel once the sockets are bound, listening and connecting.
\<close>

definition main_init :: "'k kernel \<Rightarrow> int \<Rightarrow> int \<Rightarrow> int \<Rightarrow> 'k \<Rightarrow> 'k world result" where
  "main_init K epfd lfd cfd k =
     and_then
       (ListenSocket_init K lfd
          \<lparr>ep = Epoll_init epfd, objs = (\<lambda>_. None), allocated = 0, accept_socket = None, kern = k\<rparr>)
       (ClientSocket_init K cfd)"

end
