(* ===== verification/EpollBugKernel.thy ===== *)
theory EpollBugKernel
  imports EpollBug
begin

text \<open>
  What \<^verbatim>\<open>src/epoll_bug.c\<close> relies on: how \<^verbatim>\<open>Epoll_add\<close> and \<^verbatim>\<open>Epoll_remove\<close> keep the kernel's
  interest list (an interpretation of the client locale), the documented behaviour of stream
  sockets as a predicate on the kernel, and the two transfer loops over such a kernel: they
  stop, stay inside the buffer and the array, and account for every byte.
\<close>

section \<open>Masks of the two events the program watches\<close>

definition mk_mask :: "bool \<Rightarrow> bool \<Rightarrow> u32" where
  "mk_mask i out = (if i then EPOLLIN else 0) OR (if out then EPOLLOUT else 0)"

lemma mk_mask_simps [simp]:
  "mk_mask i out AND EPOLLIN = (if i then EPOLLIN else 0)"
  "mk_mask i out AND EPOLLOUT = (if out then EPOLLOUT else 0)"
  "mk_mask i out AND NOT EPOLLIN = mk_mask False out"
  "mk_mask i out AND NOT EPOLLOUT = mk_mask i False"
  "mk_mask i out AND (EPOLLIN OR EPOLLOUT) = mk_mask i out"
  "mk_mask i out AND NOT (EPOLLIN OR EPOLLOUT) = 0"
  "mk_mask i out OR EPOLLIN = mk_mask True out"
  "mk_mask i out OR EPOLLOUT = mk_mask i True"
  "mk_mask i out = 0 \<longleftrightarrow> \<not> i \<and> \<not> out"
  "EPOLLIN \<noteq> 0" "EPOLLOUT \<noteq> 0"
  by (simp_all add: mk_mask_def event_bit_defs)

lemma mk_mask_consts:
  "mk_mask False False = 0" "mk_mask True False = EPOLLIN" "mk_mask False True = EPOLLOUT"
  "mk_mask True True = EPOLLIN OR EPOLLOUT"
  by (simp_all add: mk_mask_def)

lemma mk_mask_inj [simp]: "mk_mask a b = mk_mask c d \<longleftrightarrow> a = c \<and> b = d"
  by (cases a; cases b; cases c; cases d) (simp_all add: mk_mask_def event_bit_defs)

lemma count_events_mask [simp]: "count_events (mk_mask i out) = of_bool i + of_bool out"
  by (simp add: count_events_def)

lemma count_events_consts [simp]:
  "count_events EPOLLIN = 1" "count_events EPOLLOUT = 1" "count_events (EPOLLIN OR EPOLLOUT) = 2"
  by (simp_all add: count_events_def event_bit_defs)

section \<open>The interest list\<close>

text \<open>The program adds and removes these three masks only.\<close>

datatype io_events = In | Out | InOut

fun io_mask :: "io_events \<Rightarrow> u32" where
  "io_mask In = EPOLLIN"
| "io_mask Out = EPOLLOUT"
| "io_mask InOut = EPOLLIN OR EPOLLOUT"

datatype watch_op = Watch io_events | Unwatch io_events

fun watch_exec ::
  "watch_op \<Rightarrow> bug_epoll \<times> event_obj \<Rightarrow> fault + ctl list \<times> (bug_epoll \<times> event_obj)" where
  "watch_exec (Watch es) s = add_events (io_mask es) s"
| "watch_exec (Unwatch es) s = remove_events (io_mask es) s"

definition watch_wf :: "bug_epoll \<times> event_obj \<Rightarrow> bool" where
  "watch_wf s \<longleftrightarrow> (\<exists>i out. watched_events (snd s) = mk_mask i out)"

definition watch_interest :: "bug_epoll \<times> event_obj \<Rightarrow> u32 option" where
  "watch_interest s = (if watched_events (snd s) = 0 then None else Some (watched_events (snd s)))"

lemma io_mask_cases: "\<exists>i out. io_mask es = mk_mask i out \<and> (i \<or> out)"
proof (cases es)
  case In
  then show ?thesis by (intro exI [of _ True] exI [of _ False]) (simp add: mk_mask_def)
next
  case Out
  then show ?thesis by (intro exI [of _ False] exI [of _ True]) (simp add: mk_mask_def)
next
  case InOut
  then show ?thesis by (intro exI [of _ True]) (simp add: mk_mask_def)
qed

lemma mask_and_mask: "mk_mask a b AND mk_mask c d = mk_mask (a \<and> c) (b \<and> d)"
  by (cases a; cases b; cases c; cases d) (simp_all add: mk_mask_def event_bit_defs)

lemma mask_or_mask: "mk_mask a b OR mk_mask c d = mk_mask (a \<or> c) (b \<or> d)"
  by (cases a; cases b; cases c; cases d) (simp_all add: mk_mask_def event_bit_defs)

lemma mask_minus_mask: "mk_mask a b AND NOT (mk_mask c d) = mk_mask (a \<and> \<not> c) (b \<and> \<not> d)"
  by (cases a; cases b; cases c; cases d) (simp_all add: mk_mask_def event_bit_defs)

lemmas mask_algebra [mask_simps] = mask_and_mask mask_or_mask mask_minus_mask

interpretation watch: ctl_client watch_exec watch_wf watch_interest
proof
  fix s op calls s'
  assume wf: "watch_wf s" and run: "watch_exec op s = Inr (calls, s')"
  obtain self eo where s: "s = (self, eo)" by (cases s)
  obtain i out where eo: "watched_events eo = mk_mask i out"
    using wf by (auto simp: watch_wf_def s)
  obtain a b where es: "io_mask (case op of Watch es \<Rightarrow> es | Unwatch es \<Rightarrow> es) = mk_mask a b"
    and ab: "a \<or> b" using io_mask_cases by metis
  show "watch_wf s'"
    using run eo es
    by (cases op) (auto simp: s watch_wf_def add_events_def remove_events_def mask_algebra
        Let_def split: if_splits)
  show "ctl_run (watch_interest s) calls = Some (watch_interest s')"
    using run eo es ab
    by (cases op) (auto simp: s watch_interest_def add_events_def remove_events_def mask_algebra
        Let_def split: if_splits)
qed

section \<open>Stream sockets\<close>

text \<open>
  The connection between the client descriptor \<open>cfd\<close> and the accepted one \<open>afd\<close>. \<open>rx k fd\<close>
  counts the bytes written to the peer of \<open>fd\<close> and not yet read from \<open>fd\<close>, on the way or
  received; \<open>shut k\<close> are the closed descriptors.
\<close>

definition tcp_read_law ::
  "'k kernel \<Rightarrow> int \<Rightarrow> int \<Rightarrow> ('k \<Rightarrow> int \<Rightarrow> nat) \<Rightarrow> ('k \<Rightarrow> int set) \<Rightarrow> bool" where
  "tcp_read_law K cfd afd rx shut \<longleftrightarrow>
     (\<forall>fd len k r k'. k_read K fd len k = (r, k') \<longrightarrow>
        -1 \<le> r \<and> r \<le> int len \<and> nat r \<le> rx k fd \<and>
        rx k' = (rx k)(fd := rx k fd - nat r) \<and> shut k' = shut k \<and>
        (fd = afd \<longrightarrow> r = 0 \<longrightarrow> 0 < len \<longrightarrow> rx k afd = 0 \<and> cfd \<in> shut k))"

definition tcp_write_law ::
  "'k kernel \<Rightarrow> int \<Rightarrow> int \<Rightarrow> ('k \<Rightarrow> int \<Rightarrow> nat) \<Rightarrow> ('k \<Rightarrow> int set) \<Rightarrow> bool" where
  "tcp_write_law K fd peer rx shut \<longleftrightarrow>
     (\<forall>len k r k'. k_write K fd len k = (r, k') \<longrightarrow>
        -1 \<le> r \<and> r \<le> int len \<and>
        rx k' = (rx k)(peer := rx k peer + nat r) \<and> shut k' = shut k)"

definition tcp_kernel ::
  "'k kernel \<Rightarrow> int \<Rightarrow> int \<Rightarrow> ('k \<Rightarrow> int \<Rightarrow> nat) \<Rightarrow> ('k \<Rightarrow> int set) \<Rightarrow> bool" where
  "tcp_kernel K cfd afd rx shut \<longleftrightarrow>
     cfd \<noteq> afd \<and>
     tcp_read_law K cfd afd rx shut \<and>
     tcp_write_law K cfd afd rx shut \<and>
     tcp_write_law K afd cfd rx shut \<and>
     (\<forall>fd k r k'. k_accept K fd k = (r, k') \<longrightarrow> r = afd \<and> rx k' = rx k \<and> shut k' = shut k) \<and>
     (\<forall>fd c k. rx (k_ctl K fd c k) = rx k \<and> shut (k_ctl K fd c k) = shut k) \<and>
     (\<forall>fd k. rx (k_close K fd k) = rx k \<and> shut (k_close K fd k) = insert fd (shut k))"

lemma tcp_kernelD:
  assumes "tcp_kernel K cfd afd rx shut"
  shows "cfd \<noteq> afd" "tcp_read_law K cfd afd rx shut"
    "tcp_write_law K cfd afd rx shut" "tcp_write_law K afd cfd rx shut"
    "k_accept K fd k = (r, k') \<Longrightarrow> r = afd \<and> rx k' = rx k \<and> shut k' = shut k"
    "rx (k_ctl K fd c k) = rx k" "shut (k_ctl K fd c k) = shut k"
    "rx (k_close K fd k) = rx k" "shut (k_close K fd k) = insert fd (shut k)"
  using assms by (simp_all add: tcp_kernel_def)

lemma tcp_readD:
  assumes "tcp_read_law K cfd afd rx shut" and "k_read K fd len k = (r, k')"
  shows "-1 \<le> r" "r \<le> int len" "nat r \<le> rx k fd"
    "rx k' = (rx k)(fd := rx k fd - nat r)" "shut k' = shut k"
    "fd = afd \<Longrightarrow> r = 0 \<Longrightarrow> 0 < len \<Longrightarrow> rx k afd = 0 \<and> cfd \<in> shut k"
  using assms(1) [unfolded tcp_read_law_def, rule_format, OF assms(2)] by simp_all

lemma tcp_writeD:
  assumes "tcp_write_law K fd peer rx shut" and "k_write K fd len k = (r, k')"
  shows "-1 \<le> r" "r \<le> int len" "rx k' = (rx k)(peer := rx k peer + nat r)" "shut k' = shut k"
  using assms(1) [unfolded tcp_write_law_def, rule_format, OF assms(2)] by simp_all

section \<open>The two transfer loops\<close>

lemma unat_add_int:
  fixes x :: u64
  assumes "0 \<le> r" and "unat x + nat r < 2 ^ 64"
  shows "unat (x + word_of_int r) = unat x + nat r"
proof -
  have "unat (word_of_nat (nat r) :: u64) = nat r"
    using assms(2) by (simp add: unat_of_nat)
  then have r: "unat (word_of_int r :: u64) = nat r"
    using assms(1) by simp
  have "unat (x + word_of_int r) = unat x + unat (word_of_int r :: u64)"
    using assms(2) r by (intro unat_add_lem [THEN iffD1]) simp
  with r show ?thesis by simp
qed

text \<open>Reading empties what is there or stops at an error; at the end of the stream it returns 0.\<close>

lemma read_loop_returns:
  assumes "tcp_kernel K cfd afd rx shut" and "unat tot + rx k fd < 2 ^ 64"
  shows "\<exists>rlen tot' k'. read_loop K fd tot k = Some (Inr (rlen, tot', k')) \<and>
    unat tot' + rx k' fd = unat tot + rx k fd \<and> unat tot \<le> unat tot' \<and>
    rx k' = (rx k)(fd := rx k' fd) \<and> shut k' = shut k \<and>
    (fd = afd \<and> rlen = 0 \<longrightarrow> rx k' afd = 0 \<and> cfd \<in> shut k)"
  using assms(2)
proof (induction "rx k fd" arbitrary: tot k rule: less_induct)
  case less
  obtain r k1 where rd: "k_read K fd (nat read_length) k = (r, k1)"
    by (cases "k_read K fd (nat read_length) k")
  note law = tcp_readD [OF tcp_kernelD(2) [OF assms(1)] rd]
  have sys: "sys_read K fd read_length k = Inr (r, k1)"
    using rd by (simp add: sys_read_def read_length_def buf_size_def)
  show ?case
  proof (cases "r > 0")
    case True
    have add: "unat (tot + word_of_int r) = unat tot + nat r"
      using True law(3) less.prems by (intro unat_add_int) auto
    have small: "rx k1 fd < rx k fd" and sum: "unat (tot + word_of_int r) + rx k1 fd = unat tot + rx k fd"
      using True law(3,4) add by auto
    from less.hyps [OF small, of "tot + word_of_int r"] sum less.prems
    obtain rlen tot' k' where
      "read_loop K fd (tot + word_of_int r) k1 = Some (Inr (rlen, tot', k'))"
      "unat tot' + rx k' fd = unat tot + rx k fd" "unat (tot + word_of_int r) \<le> unat tot'"
      "rx k' = (rx k1)(fd := rx k' fd)" "shut k' = shut k1"
      "fd = afd \<and> rlen = 0 \<longrightarrow> rx k' afd = 0 \<and> cfd \<in> shut k1"
      by auto
    then show ?thesis
      using True law(4,5) add sys by (subst read_loop.simps) auto
  next
    case False
    then have "read_loop K fd tot k = Some (Inr (r, tot, k1))"
      using sys by (subst read_loop.simps) simp
    then show ?thesis
      using False law(4-6) by (auto simp: read_length_def)
  qed
qed

text \<open>
  Writing the burst: at most 11 writes, never past the end of \<open>alen\<close> or of the buffer, and
  never more than what was left of the burst.
\<close>

lemma accept_write_loop_returns:
  assumes T: "tcp_kernel K cfd afd rx shut"
    and "i < length alen" "0 \<le> mx" "unat tot + nat mx \<le> nat burst_size"
  shows "\<exists>tot' k'. accept_write_loop K afd i mx tot k = Inr (tot', k') \<and>
    unat tot \<le> unat tot' \<and> unat tot' \<le> unat tot + nat mx \<and>
    rx k' = (rx k)(cfd := rx k cfd + (unat tot' - unat tot)) \<and> shut k' = shut k"
  using assms(2-4)
proof (induction "length alen - i" arbitrary: i mx tot k)
  case 0
  then show ?case by simp
next
  case (Suc n)
  let ?len = "if alen ! i > mx then mx else alen ! i"
  have "\<forall>x \<in> set alen. 0 \<le> x" by (simp add: alen_def)
  then have "0 \<le> alen ! i" using Suc.prems(1) by simp
  then have len: "0 \<le> ?len" "?len \<le> mx" using Suc.prems(2) by auto
  obtain r k1 where wr: "k_write K afd (nat ?len) k = (r, k1)"
    by (cases "k_write K afd (nat ?len) k")
  note law = tcp_writeD [OF tcp_kernelD(4) [OF T] wr]
  have sys: "sys_write K afd ?len k = Inr (r, k1)"
    using len wr Suc.prems by (simp add: sys_write_def buf_size_def burst_size_def)
  let ?tot = "if r > 0 then tot + word_of_int r else tot"
  let ?mx = "if r > 0 then mx - r else mx"
  have small: "unat tot + nat mx < 2 ^ 64"
    using Suc.prems(3) by (simp add: burst_size_def)
  have r: "r \<le> mx" using law(2) len by simp
  have tot: "unat ?tot = unat tot + nat r"
    using small r by (simp add: unat_add_int)
  have step: "accept_write_loop K afd i mx tot k =
    (if r = ?len \<and> Suc i < length alen \<and> ?mx > 0
     then accept_write_loop K afd (Suc i) ?mx ?tot k1 else Inr (?tot, k1))"
    using Suc.prems(1) sys by (subst accept_write_loop.simps) (simp add: Let_def)
  show ?case
  proof (cases "r = ?len \<and> Suc i < length alen \<and> ?mx > 0")
    case True
    have n: "n = length alen - Suc i" using Suc.hyps(2) by simp
    have mx: "0 \<le> ?mx" "unat ?tot + nat ?mx = unat tot + nat mx"
      using True r tot by auto
    obtain tot' k' where
      "accept_write_loop K afd (Suc i) ?mx ?tot k1 = Inr (tot', k')"
      "unat ?tot \<le> unat tot'" "unat tot' \<le> unat ?tot + nat ?mx"
      "rx k' = (rx k1)(cfd := rx k1 cfd + (unat tot' - unat ?tot))" "shut k' = shut k1"
      using Suc.hyps(1) [OF n, of ?mx ?tot k1] True mx Suc.prems(3) by auto
    then show ?thesis
      using True step tot mx law(3,4) by (auto simp: fun_eq_iff)
  next
    case False
    then show ?thesis
      using step tot r law(3,4) by (auto simp: fun_eq_iff)
  qed
qed

end
