(* ===== verification/EpollBugInv.thy ===== *)
theory EpollBugInv
  imports EpollBugKernel
begin

text \<open>
  The invariant of \<^verbatim>\<open>src/epoll_bug.c\<close> over conforming stream sockets. Each dispatch of a
  handler keeps it, with the masks, the counters and \<^verbatim>\<open>watched_count\<close> changed as the code
  changes them; so no round of the main loop faults or hangs, and the loop ends only when
  the whole burst went there and back.
\<close>

section \<open>The states between two handler calls\<close>

definition listen_obj :: "int \<Rightarrow> bool \<Rightarrow> event_obj" where
  "listen_obj fd i =
     \<lparr>ev_fd = fd, watched_events = mk_mask i False, read_event = Some ListenRead, write_event = None\<rparr>"

definition client_obj :: "int \<Rightarrow> bool \<Rightarrow> bool \<Rightarrow> event_obj" where
  "client_obj fd i out =
     \<lparr>ev_fd = fd, watched_events = mk_mask i out,
      read_event = Some ClientRead, write_event = Some ClientWrite\<rparr>"

definition accept_obj :: "int \<Rightarrow> bool \<Rightarrow> bool \<Rightarrow> event_obj" where
  "accept_obj fd i out =
     \<lparr>ev_fd = fd, watched_events = mk_mask i out,
      read_event = Some AcceptRead, write_event = Some AcceptWrite\<rparr>"

lemmas obj_defs = listen_obj_def client_obj_def accept_obj_def

text \<open>
  The store, with one flag per watched event: \<open>l\<close> for the listen socket, \<open>ci\<close> and \<open>co\<close> for
  reading and writing of the client, \<open>ai\<close> and \<open>ao\<close> of the accepted socket, which exists once
  the listen socket is no longer watched.
\<close>

definition store :: "int \<Rightarrow> int \<Rightarrow> int \<Rightarrow> bool \<Rightarrow> bool \<Rightarrow> bool \<Rightarrow> bool \<Rightarrow> bool \<Rightarrow> obj \<Rightarrow> event_obj option" where
  "store lfd cfd afd l ci co ai ao ob =
     (case ob of
        OListen \<Rightarrow> Some (listen_obj lfd l)
      | OClient \<Rightarrow> Some (client_obj cfd ci co)
      | OAccept n \<Rightarrow> (if n = 0 \<and> \<not> l then Some (accept_obj afd ai ao) else None))"

definition byte_inv ::
  "int \<Rightarrow> int \<Rightarrow> ('k \<Rightarrow> int \<Rightarrow> nat) \<Rightarrow> ('k \<Rightarrow> int set) \<Rightarrow> bool \<Rightarrow> bool \<Rightarrow> bool \<Rightarrow> bool
     \<Rightarrow> bug_epoll \<Rightarrow> 'k \<Rightarrow> bool" where
  "byte_inv cfd afd rx shut l ci co ai e k \<longleftrightarrow>
     unat (trlen1 e) + rx k cfd = unat (twlen1 e) \<and>
     unat (trlen2 e) + rx k afd = unat (twlen2 e) \<and>
     unat (twlen2 e) \<le> unat (trlen1 e) \<and>
     unat (twlen1 e) \<le> 10000000 \<and>
     (co \<longrightarrow> unat (twlen2 e) \<noteq> unat (trlen1 e)) \<and>
     (\<not> ci \<longrightarrow> unat (twlen2 e) = 10000000 \<and> unat (twlen1 e) = 10000000) \<and>
     (cfd \<in> shut k \<longrightarrow> \<not> ci) \<and>
     (\<not> l \<and> \<not> ai \<longrightarrow> rx k afd = 0 \<and> \<not> ci)"

definition mask_inv ::
  "int \<Rightarrow> int \<Rightarrow> int \<Rightarrow> bool \<Rightarrow> bool \<Rightarrow> bool \<Rightarrow> bool \<Rightarrow> bool \<Rightarrow> 'k world \<Rightarrow> bool" where
  "mask_inv lfd cfd afd l ci co ai ao w \<longleftrightarrow>
     objs w = store lfd cfd afd l ci co ai ao \<and>
     allocated w = (if l then 0 else 1) \<and>
     (l \<longrightarrow> \<not> ai \<and> \<not> ao) \<and>
     watched_count (ep w) =
       of_bool l + of_bool ci + of_bool co + of_bool ai + of_bool ao"

definition flags_inv ::
  "int \<Rightarrow> int \<Rightarrow> int \<Rightarrow> ('k \<Rightarrow> int \<Rightarrow> nat) \<Rightarrow> ('k \<Rightarrow> int set) \<Rightarrow>
   bool \<Rightarrow> bool \<Rightarrow> bool \<Rightarrow> bool \<Rightarrow> bool \<Rightarrow> 'k world \<Rightarrow> bool" where
  "flags_inv lfd cfd afd rx shut l ci co ai ao w \<longleftrightarrow>
     mask_inv lfd cfd afd l ci co ai ao w \<and>
     byte_inv cfd afd rx shut l ci co ai (ep w) (kern w)"

text \<open>A mask that \<^verbatim>\<open>epoll_wait\<close> reports for an object: watched events of it only.\<close>

definition reported :: "'k world \<Rightarrow> obj \<times> u32 \<Rightarrow> bool" where
  "reported w event \<longleftrightarrow>
     (case objs w (fst event) of
        None \<Rightarrow> False
      | Some e \<Rightarrow> snd event AND NOT (watched_events e) = 0)"

lemma store_simps [simp]:
  "store lfd cfd afd l ci co ai ao OListen = Some (listen_obj lfd l)"
  "store lfd cfd afd l ci co ai ao OClient = Some (client_obj cfd ci co)"
  "store lfd cfd afd l ci co ai ao (OAccept 0) = (if l then None else Some (accept_obj afd ai ao))"
  by (simp_all add: store_def)

lemma store_update [simp]:
  "(store lfd cfd afd l ci co ai ao)(OListen \<mapsto> listen_obj lfd l') =
     (if l' = l then store lfd cfd afd l ci co ai ao
      else (store lfd cfd afd l ci co ai ao)(OListen \<mapsto> listen_obj lfd l'))"
  "(store lfd cfd afd l ci co ai ao)(OClient \<mapsto> client_obj cfd ci' co') =
     store lfd cfd afd l ci' co' ai ao"
  "(store lfd cfd afd False ci co ai ao)(OAccept 0 \<mapsto> accept_obj afd ai' ao') =
     store lfd cfd afd False ci co ai' ao'"
  "(store lfd cfd afd True ci co a b)(OAccept 0 \<mapsto> accept_obj afd ai ao,
      OListen \<mapsto> listen_obj lfd False) = store lfd cfd afd False ci co ai ao"
  by (auto simp: store_def fun_eq_iff split: obj.splits)

section \<open>Watching and unwatching on these states\<close>

lemma mk_mask_out: "EPOLLOUT = mk_mask False True" and mk_mask_in: "EPOLLIN = mk_mask True False"
  by (simp_all add: mk_mask_def)

lemma add_events_mask:
  assumes "watched_events eo = mk_mask i out" and "\<not> (i \<and> a)" and "\<not> (out \<and> b)"
  shows "\<exists>call. add_events (mk_mask a b) (e, eo) = Inr ([call],
    e\<lparr>watched_count := watched_count e + (of_bool a + of_bool b)\<rparr>,
    eo\<lparr>watched_events := mk_mask (i \<or> a) (out \<or> b)\<rparr>)"
  using assms by (simp add: add_events_def Let_def mask_algebra del: of_bool_eq_iff)

lemma remove_events_mask:
  assumes "watched_events eo = mk_mask i out" and "a \<longrightarrow> i" and "b \<longrightarrow> out"
  shows "\<exists>call. remove_events (mk_mask a b) (e, eo) = Inr ([call],
    e\<lparr>watched_count := watched_count e - (of_bool a + of_bool b)\<rparr>,
    eo\<lparr>watched_events := mk_mask (i \<and> \<not> a) (out \<and> \<not> b)\<rparr>)"
  using assms by (auto simp add: remove_events_def Let_def mask_algebra)

lemma Epoll_add_obj:
  assumes T: "tcp_kernel K cfd afd rx shut"
    and ob: "objs w ob = Some eo" and mask: "watched_events eo = mk_mask i out"
    and E: "E = mk_mask a b" and new: "\<not> (i \<and> a)" "\<not> (out \<and> b)"
  shows "\<exists>k. Epoll_add K ob E w =
      returns (w\<lparr>ep := (ep w)\<lparr>watched_count := watched_count (ep w) + (of_bool a + of_bool b)\<rparr>,
        objs := (objs w)(ob \<mapsto> eo\<lparr>watched_events := mk_mask (i \<or> a) (out \<or> b)\<rparr>), kern := k\<rparr>) \<and>
    rx k = rx (kern w) \<and> shut k = shut (kern w)"
proof -
  obtain call where add: "add_events (mk_mask a b) (ep w, eo) = Inr ([call],
    (ep w)\<lparr>watched_count := watched_count (ep w) + (of_bool a + of_bool b)\<rparr>,
    eo\<lparr>watched_events := mk_mask (i \<or> a) (out \<or> b)\<rparr>)"
    using add_events_mask [OF mask new] by blast
  show ?thesis
    by (rule exI [of _ "k_ctl K (ev_fd eo) call (kern w)"])
      (simp add: Epoll_add_def E ob add tcp_kernelD [OF T])
qed

lemma Epoll_remove_obj:
  assumes T: "tcp_kernel K cfd afd rx shut"
    and ob: "objs w ob = Some eo" and mask: "watched_events eo = mk_mask i out"
    and E: "E = mk_mask a b" and old: "a \<longrightarrow> i" "b \<longrightarrow> out"
  shows "\<exists>k. Epoll_remove K ob E w =
      returns (watched_count (ep w) \<noteq> of_bool a + of_bool b,
        w\<lparr>ep := (ep w)\<lparr>watched_count := watched_count (ep w) - (of_bool a + of_bool b)\<rparr>,
        objs := (objs w)(ob \<mapsto> eo\<lparr>watched_events := mk_mask (i \<and> \<not> a) (out \<and> \<not> b)\<rparr>), kern := k\<rparr>) \<and>
    rx k = rx (kern w) \<and>
    shut k = (if (i \<and> \<not> a) \<or> (out \<and> \<not> b) then shut (kern w)
              else insert (ev_fd eo) (shut (kern w)))"
proof -
  obtain call where remove: "remove_events (mk_mask a b) (ep w, eo) = Inr ([call],
    (ep w)\<lparr>watched_count := watched_count (ep w) - (of_bool a + of_bool b)\<rparr>,
    eo\<lparr>watched_events := mk_mask (i \<and> \<not> a) (out \<and> \<not> b)\<rparr>)"
    using remove_events_mask [OF mask old] by blast
  let ?k = "k_ctl K (ev_fd eo) call (kern w)"
  show ?thesis
    by (rule exI [of _ "if (i \<and> \<not> a) \<or> (out \<and> \<not> b) then ?k else k_close K (ev_fd eo) ?k"])
      (auto simp add: Epoll_remove_def E ob remove tcp_kernelD [OF T] Let_def)
qed

section \<open>The handlers, one by one\<close>

lemma flags_invD:
  assumes "flags_inv lfd cfd afd rx shut l ci co ai ao w"
  shows "objs w = store lfd cfd afd l ci co ai ao" "allocated w = (if l then 0 else 1)"
    "l \<longrightarrow> \<not> ai \<and> \<not> ao"
    "watched_count (ep w) = of_bool l + of_bool ci + of_bool co + of_bool ai + of_bool ao"
    "byte_inv cfd afd rx shut l ci co ai (ep w) (kern w)"
  using assms by (simp_all add: flags_inv_def mask_inv_def)

lemma client_obj_update [simp]:
  "client_obj fd i out\<lparr>watched_events := mk_mask i' out'\<rparr> = client_obj fd i' out'"
  "listen_obj fd i\<lparr>watched_events := mk_mask i' False\<rparr> = listen_obj fd i'"
  "accept_obj fd i out\<lparr>watched_events := mk_mask i' out'\<rparr> = accept_obj fd i' out'"
  "watched_events (client_obj fd i out) = mk_mask i out" "ev_fd (client_obj fd i out) = fd"
  "watched_events (accept_obj fd i out) = mk_mask i out" "ev_fd (accept_obj fd i out) = fd"
  "watched_events (listen_obj fd i) = mk_mask i False" "ev_fd (listen_obj fd i) = fd"
  by (simp_all add: obj_defs)

lemma minus_eq_zero_unat: "a - b = 0 \<longleftrightarrow> unat a = unat (b :: u64)"
  by (metis right_minus_eq unsigned_word_eqI)

lemma minus_pos_unat: "a - b > 0 \<longleftrightarrow> unat a \<noteq> unat (b :: u64)"
  by (metis right_minus_eq unsigned_word_eqI word_neq_0_conv)

lemma client_read_event:
  assumes T: "tcp_kernel K cfd afd rx shut" and I: "flags_inv lfd cfd afd rx shut l True co ai ao w"
  shows "\<exists>co' w'. ClientSocket_read_event K OClient w = returns (True, w') \<and> (co \<longrightarrow> co') \<and>
    flags_inv lfd cfd afd rx shut l True co' ai ao w'"
proof -
  note D = flags_invD [OF I]
  have "unat (trlen1 (ep w)) + rx (kern w) cfd < 2 ^ 64"
    using D(5) by (simp add: byte_inv_def)
  from read_loop_returns [OF T this] obtain r tot k where
    rd: "read_loop K cfd (trlen1 (ep w)) (kern w) = Some (Inr (r, tot, k))"
    and sum: "unat tot + rx k cfd = unat (trlen1 (ep w)) + rx (kern w) cfd"
    and grows: "unat (trlen1 (ep w)) \<le> unat tot"
    and rx: "rx k = (rx (kern w))(cfd := rx k cfd)" and shut: "shut k = shut (kern w)"
    by blast
  let ?w = "w\<lparr>ep := (ep w)\<lparr>trlen1 := tot\<rparr>, kern := k\<rparr>"
  let ?add = "unat (trlen1 (ep w)) = unat (twlen2 (ep w)) \<and> unat (twlen2 (ep w)) < unat tot"
  have "rx k afd = rx (kern w) afd"
    using tcp_kernelD(1) [OF T] rx by (metis fun_upd_other)
  then have inv: "byte_inv cfd afd rx shut l True (co \<or> ?add) ai (ep ?w) k"
    using D(5) sum grows shut by (auto simp: byte_inv_def)
  have run: "ClientSocket_read_event K OClient w =
    (if ?add then and_then (Epoll_add K OClient EPOLLOUT ?w) (\<lambda>w''. returns (True, w''))
     else returns (True, ?w))"
    using D(1) rd
    by (simp add: ClientSocket_read_event_def Let_def word_less_nat_alt flip: word_unat_eq_iff)
  show ?thesis
  proof (cases ?add)
    case True
    then have "\<not> co" using D(5) by (simp add: byte_inv_def)
    then have ob: "objs ?w OClient = Some (client_obj cfd True False)"
      using D(1) by simp
    obtain k' where add: "Epoll_add K OClient EPOLLOUT ?w =
        returns (?w\<lparr>ep := (ep ?w)\<lparr>watched_count := watched_count (ep w) + 1\<rparr>,
          objs := store lfd cfd afd l True True ai ao, kern := k'\<rparr>)"
      and k': "rx k' = rx k" "shut k' = shut k"
      using Epoll_add_obj [OF T ob, of True False EPOLLOUT False True] D(1) \<open>\<not> co\<close>
      by (auto simp: mk_mask_out)
    show ?thesis
      using True D inv run add k' \<open>\<not> co\<close>
      by (intro exI [of _ True]) (auto simp: flags_inv_def mask_inv_def byte_inv_def)
  next
    case False
    with D inv run show ?thesis
      by (intro exI [of _ co]) (auto simp: flags_inv_def mask_inv_def)
  qed
qed

lemma byte_inv_count [simp]:
  "byte_inv cfd afd rx shut l ci co ai (e\<lparr>watched_count := c\<rparr>) k = byte_inv cfd afd rx shut l ci co ai e k"
  by (simp add: byte_inv_def)

lemma of_bool_minus: "(a \<longrightarrow> i) \<Longrightarrow> of_bool (i \<and> \<not> a) = (of_bool i - of_bool a :: int)"
  by (cases a; cases i) simp_all

text \<open>Unwatching, for each of the objects.\<close>

lemma remove_client:
  assumes T: "tcp_kernel K cfd afd rx shut" and M: "mask_inv lfd cfd afd l ci co ai ao w"
    and E: "E = mk_mask a b" "a \<longrightarrow> ci" "b \<longrightarrow> co"
  shows "\<exists>c k. Epoll_remove K OClient E w = returns (c \<noteq> 0,
      w\<lparr>ep := (ep w)\<lparr>watched_count := c\<rparr>,
        objs := store lfd cfd afd l (ci \<and> \<not> a) (co \<and> \<not> b) ai ao, kern := k\<rparr>) \<and>
    c = of_bool l + of_bool (ci \<and> \<not> a) + of_bool (co \<and> \<not> b) + of_bool ai + of_bool ao \<and>
    rx k = rx (kern w) \<and>
    shut k = (if (ci \<and> \<not> a) \<or> (co \<and> \<not> b) then shut (kern w) else insert cfd (shut (kern w)))"
proof -
  have ob: "objs w OClient = Some (client_obj cfd ci co)" using M by (simp add: mask_inv_def)
  show ?thesis
    using Epoll_remove_obj [where i = ci and out = co, OF T ob _ E] M
    by (cases a; cases b; cases ci; cases co) (simp_all add: mask_inv_def E(2,3) ac_simps split del: split_of_bool)
qed

lemma remove_listen:
  assumes T: "tcp_kernel K cfd afd rx shut" and ob: "objs w OListen = Some (listen_obj lfd True)"
  shows "\<exists>k. Epoll_remove K OListen EPOLLIN w = returns (watched_count (ep w) \<noteq> 1,
      w\<lparr>ep := (ep w)\<lparr>watched_count := watched_count (ep w) - 1\<rparr>,
        objs := (objs w)(OListen \<mapsto> listen_obj lfd False), kern := k\<rparr>) \<and>
    rx k = rx (kern w) \<and> shut k = insert lfd (shut (kern w))"
  using Epoll_remove_obj [where i = True and out = False, OF T ob _ mk_mask_in] by simp

lemma remove_accept:
  assumes T: "tcp_kernel K cfd afd rx shut" and M: "mask_inv lfd cfd afd False ci co ai ao w"
    and E: "E = mk_mask a b" "a \<longrightarrow> ai" "b \<longrightarrow> ao"
  shows "\<exists>c k. Epoll_remove K (OAccept 0) E w = returns (c \<noteq> 0,
      w\<lparr>ep := (ep w)\<lparr>watched_count := c\<rparr>,
        objs := store lfd cfd afd False ci co (ai \<and> \<not> a) (ao \<and> \<not> b), kern := k\<rparr>) \<and>
    c = of_bool ci + of_bool co + of_bool (ai \<and> \<not> a) + of_bool (ao \<and> \<not> b) \<and>
    rx k = rx (kern w) \<and>
    shut k = (if (ai \<and> \<not> a) \<or> (ao \<and> \<not> b) then shut (kern w) else insert afd (shut (kern w)))"
proof -
  have ob: "objs w (OAccept 0) = Some (accept_obj afd ai ao)" using M by (simp add: mask_inv_def)
  show ?thesis
    using Epoll_remove_obj [where i = ai and out = ao, OF T ob _ E] M
    by (cases a; cases b; cases ai; cases ao) (simp_all add: mask_inv_def E(2,3) ac_simps split del: split_of_bool)
qed

lemma client_write_event:
  assumes T: "tcp_kernel K cfd afd rx shut" and I: "flags_inv lfd cfd afd rx shut l ci True ai ao w"
  shows "\<exists>keep ci' w'. ClientSocket_write_event K OClient w = returns (keep, w') \<and>
    mask_inv lfd cfd afd l ci' True ai ao w' \<and> (ci' \<longrightarrow> ci) \<and>
    byte_inv cfd afd rx shut l ci' keep ai (ep w') (kern w')"
proof -
  note D = flags_invD [OF I]
  let ?todo = "trlen1 (ep w) - twlen2 (ep w)"
  have B: "unat (twlen2 (ep w)) < unat (trlen1 (ep w))" "unat (trlen1 (ep w)) \<le> unat (twlen1 (ep w))"
    "unat (twlen1 (ep w)) \<le> 10000000" "ci"
    using D(5) by (auto simp: byte_inv_def)
  then have todo: "unat ?todo = unat (trlen1 (ep w)) - unat (twlen2 (ep w))"
    by (intro unat_sub) (simp add: word_le_nat_alt)
  then have "unat ?todo \<le> 10000000" using B by linarith
  moreover have uint: "uint ?todo = int (unat ?todo)" by simp
  ultimately have len: "uint ?todo \<le> 10000000" by linarith
  have pos: "?todo > 0" using B(1) by (simp add: minus_pos_unat)
  obtain r k where wr: "k_write K cfd (nat (uint ?todo)) (kern w) = (r, k)"
    by (cases "k_write K cfd (nat (uint ?todo)) (kern w)")
  note law = tcp_writeD [OF tcp_kernelD(3) [OF T] wr]
  have sys: "sys_write K cfd (uint ?todo) (kern w) = Inr (r, k)"
    using wr len by (simp add: sys_write_def buf_size_def)
  show ?thesis
  proof (cases "r \<le> 0")
    case True
    then have "ClientSocket_write_event K OClient w = returns (False, w\<lparr>kern := k\<rparr>)"
      using D(1) len pos sys by (simp add: ClientSocket_write_event_def)
    then show ?thesis
      using True I law(3,4) by (auto simp: flags_inv_def mask_inv_def byte_inv_def)
  next
    case False
    let ?w = "w\<lparr>ep := (ep w)\<lparr>twlen2 := twlen2 (ep w) + word_of_int r\<rparr>, kern := k\<rparr>"
    have "nat r \<le> unat ?todo" using law(2) uint by linarith
    then have tw: "unat (twlen2 (ep ?w)) = unat (twlen2 (ep w)) + nat r"
      and le: "unat (twlen2 (ep ?w)) \<le> unat (trlen1 (ep w))"
      using False B todo by (auto simp: unat_add_int)
    have "rx k cfd = rx (kern w) cfd" using law(3) tcp_kernelD(1) [OF T] by simp
    then have byte: "byte_inv cfd afd rx shut l True keep ai (ep ?w) k"
      if "keep \<longrightarrow> unat (twlen2 (ep ?w)) \<noteq> unat (trlen1 (ep w))" for keep
      using D(5) law(3,4) tw le B that by (auto simp: byte_inv_def)
    let ?C = "unat (twlen2 (ep ?w)) = 10000000 \<and> unat (twlen1 (ep w)) = 10000000"
    have C: "twlen2 (ep ?w) \<ge> word_of_int burst_size \<and> twlen2 (ep ?w) = twlen1 (ep ?w) \<longleftrightarrow> ?C"
      using le B by (auto simp: burst_size_def word_le_nat_alt word_unat_eq_iff)
    have M: "mask_inv lfd cfd afd l True True ai ao ?w"
      using I B(4) by (simp add: flags_inv_def mask_inv_def)
    have run: "ClientSocket_write_event K OClient w =
      and_then (if ?C then Epoll_remove K OClient EPOLLIN ?w else returns (True, ?w))
        (\<lambda>(_, w''). returns (unat (trlen1 (ep w'')) \<noteq> unat (twlen2 (ep w'')), w''))"
      using D(1) len pos sys False C
      by (simp add: ClientSocket_write_event_def Let_def minus_pos_unat)
    show ?thesis
    proof (cases ?C)
      case True
      obtain c k' where "Epoll_remove K OClient EPOLLIN ?w = returns (c \<noteq> 0,
        ?w\<lparr>ep := (ep ?w)\<lparr>watched_count := c\<rparr>, objs := store lfd cfd afd l False True ai ao, kern := k'\<rparr>)"
        "c = of_bool l + 1 + of_bool ai + of_bool ao" "rx k' = rx k" "shut k' = shut k"
        using remove_client [OF T M mk_mask_in] by auto
      then show ?thesis
        using True run M byte [of False] le B
        by (intro exI [of _ False] exI [of _ False]) (auto simp: mask_inv_def byte_inv_def)
    next
      case False
      then show ?thesis
        using run M byte [of "unat (trlen1 (ep w)) \<noteq> unat (twlen2 (ep ?w))"] B(4)
        by (intro exI [of _ "unat (trlen1 (ep w)) \<noteq> unat (twlen2 (ep ?w))"] exI [of _ True]) auto
    qed
  qed
qed

text \<open>The accepted socket.\<close>

lemma accept_read_event:
  assumes T: "tcp_kernel K cfd afd rx shut"
    and I: "flags_inv lfd cfd afd rx shut False ci co True ao w"
  shows "\<exists>keep w'. AcceptSocket_read_event K (OAccept 0) w = returns (keep, w') \<and>
    flags_inv lfd cfd afd rx shut False ci co True ao w' \<and>
    (\<not> keep \<longrightarrow> rx (kern w') afd = 0 \<and> \<not> ci)"
proof -
  note D = flags_invD [OF I]
  have "unat (trlen2 (ep w)) + rx (kern w) afd < 2 ^ 64"
    using D(5) by (simp add: byte_inv_def)
  from read_loop_returns [OF T this] obtain r tot k where
    rd: "read_loop K afd (trlen2 (ep w)) (kern w) = Some (Inr (r, tot, k))"
    and sum: "unat tot + rx k afd = unat (trlen2 (ep w)) + rx (kern w) afd"
    and rx: "rx k = (rx (kern w))(afd := rx k afd)" and shut: "shut k = shut (kern w)"
    and eof: "r = 0 \<longrightarrow> rx k afd = 0 \<and> cfd \<in> shut (kern w)"
    by blast
  have "rx k cfd = rx (kern w) cfd"
    using tcp_kernelD(1) [OF T] rx by (metis fun_upd_other)
  moreover have "AcceptSocket_read_event K (OAccept 0) w =
    returns (r \<noteq> 0, w\<lparr>ep := (ep w)\<lparr>trlen2 := tot\<rparr>, kern := k\<rparr>)"
    using D(1) rd by (simp add: AcceptSocket_read_event_def accept_obj_def)
  ultimately show ?thesis
    using D sum shut eof by (auto simp: flags_inv_def mask_inv_def byte_inv_def)
qed

lemma int_of_difference:
  fixes x :: u64
  assumes "unat x \<le> 10000000"
  shows "sint (ucast (word_of_int burst_size - x) :: u32) = 10000000 - int (unat x)"
proof -
  have "int (unat x) \<le> 10000000" using assms by linarith
  then have le: "0 \<le> uint x" "uint x \<le> 10000000" by simp_all
  then have diff: "uint (word_of_int burst_size - x) = 10000000 - uint x"
    using uint_sub_lem [of x "word_of_int burst_size :: u64"] by (simp add: burst_size_def)
  have small: "10000000 - uint x < 2147483648" using le(1) by linarith
  have "uint (ucast (word_of_int burst_size - x) :: u32) = 10000000 - uint x"
    using le small by (simp add: unsigned_ucast_eq diff take_bit_int_eq_self)
  then show ?thesis
    using le small by (simp add: sint_uint signed_take_bit_int_eq_self)
qed

lemma accept_write_event:
  assumes T: "tcp_kernel K cfd afd rx shut"
    and I: "flags_inv lfd cfd afd rx shut False ci co ai True w"
  shows "\<exists>keep w'. AcceptSocket_write_event K (OAccept 0) w = returns (keep, w') \<and>
    flags_inv lfd cfd afd rx shut False ci co ai True w' \<and>
    (keep \<longleftrightarrow> unat (twlen1 (ep w')) < 10000000)"
proof -
  note D = flags_invD [OF I]
  let ?mx = "10000000 - int (unat (twlen1 (ep w)))"
  have le: "unat (twlen1 (ep w)) \<le> 10000000" using D(5) by (simp add: byte_inv_def)
  then have mx: "0 \<le> ?mx" "unat (twlen1 (ep w)) + nat ?mx \<le> nat burst_size"
    unfolding burst_size_def by linarith+
  have "0 < length alen" by (simp add: alen_def)
  from accept_write_loop_returns [OF T this mx] obtain tot k where
    wr: "accept_write_loop K afd 0 ?mx (twlen1 (ep w)) (kern w) = Inr (tot, k)"
    and ge: "unat (twlen1 (ep w)) \<le> unat tot" and tot: "unat tot \<le> unat (twlen1 (ep w)) + nat ?mx"
    and rx: "rx k = (rx (kern w))(cfd := rx (kern w) cfd + (unat tot - unat (twlen1 (ep w))))"
    and shut: "shut k = shut (kern w)"
    by blast
  have run: "AcceptSocket_write_event K (OAccept 0) w =
    returns (unat tot < 10000000, w\<lparr>ep := (ep w)\<lparr>twlen1 := tot\<rparr>, kern := k\<rparr>)"
    using D(1) wr int_of_difference [OF le]
    by (simp add: AcceptSocket_write_event_def accept_obj_def burst_size_def word_less_nat_alt)
  moreover have "unat tot \<le> 10000000" using tot mx le by linarith
  moreover have "rx k afd = rx (kern w) afd" "rx k cfd + unat (twlen1 (ep w)) = rx (kern w) cfd + unat tot"
    using rx ge tcp_kernelD(1) [OF T] by simp_all
  ultimately have "byte_inv cfd afd rx shut False ci co ai ((ep w)\<lparr>twlen1 := tot\<rparr>) k"
    using D(5) shut ge unfolding byte_inv_def by (cases ci) auto
  with run show ?thesis
    using I by (simp add: flags_inv_def mask_inv_def)
qed

end
