(* ===== verification/EpollBugLoop.thy ===== *)
theory EpollBugLoop
  imports EpollBugInv
begin

text \<open>
  The main loop of \<^verbatim>\<open>src/epoll_bug.c\<close>: one reported event, the events of one
  \<^verbatim>\<open>epoll_wait\<close>, and any number of rounds, over conforming stream sockets; with the
  properties of the whole program.
\<close>

section \<open>One half of the loop body\<close>

lemma byte_inv_unwatch:
  "\<lbrakk>byte_inv cfd afd rx shut l ci co ai e k; rx k' = rx k;
    cfd \<in> shut k' \<longrightarrow> cfd \<in> shut k \<or> \<not> ci; co' \<longrightarrow> co;
    \<not> l' \<and> \<not> ai' \<longrightarrow> \<not> l \<and> \<not> ai \<or> rx k afd = 0 \<and> \<not> ci\<rbrakk> \<Longrightarrow>
   byte_inv cfd afd rx shut l' ci co' ai' e k'"
  unfolding byte_inv_def by simp blast

lemma mk_mask_both: "EPOLLIN OR EPOLLOUT = mk_mask True True"
  by (simp add: mk_mask_def)

lemma dispatch_silent [simp]:
  "m AND ev = 0 \<Longrightarrow> dispatch K member ev (ob, m) w = returns (False, w)"
  by (simp add: dispatch_def)

lemma dispatch_call:
  "\<lbrakk>m AND ev \<noteq> 0; objs w ob = Some eo; member eo = Some h;
    call_handler K h ob w = returns (keep, w')\<rbrakk> \<Longrightarrow>
   dispatch K member ev (ob, m) w =
     (if keep then returns (False, w')
      else and_then (Epoll_remove K ob ev w') (\<lambda>(more, w''). returns (\<not> more, w'')))"
  by (simp add: dispatch_def)

lemma obj_handlers [simp]:
  "read_event (listen_obj fd i) = Some ListenRead"
  "read_event (client_obj fd i out) = Some ClientRead" "write_event (client_obj fd i out) = Some ClientWrite"
  "read_event (accept_obj fd i out) = Some AcceptRead" "write_event (accept_obj fd i out) = Some AcceptWrite"
  by (simp_all add: obj_defs)

lemma dispatch_client_read:
  assumes T: "tcp_kernel K cfd afd rx shut"
    and I: "flags_inv lfd cfd afd rx shut l True co ai ao w" and m: "m AND EPOLLIN \<noteq> 0"
  shows "\<exists>co' w'. dispatch K read_event EPOLLIN (OClient, m) w = returns (False, w') \<and> (co \<longrightarrow> co') \<and>
    flags_inv lfd cfd afd rx shut l True co' ai ao w'"
  using client_read_event [OF T I] dispatch_call [OF m, of w OClient] flags_invD(1) [OF I]
  by fastforce

lemma dispatch_client_write:
  assumes T: "tcp_kernel K cfd afd rx shut"
    and I: "flags_inv lfd cfd afd rx shut l ci True ai ao w" and m: "m AND EPOLLOUT \<noteq> 0"
  shows "\<exists>ret ci' co' w'. dispatch K write_event EPOLLOUT (OClient, m) w = returns (ret, w') \<and>
    (ret \<longrightarrow> watched_count (ep w') = 0) \<and> flags_inv lfd cfd afd rx shut l ci' co' ai ao w'"
proof -
  obtain keep ci' w1 where h: "ClientSocket_write_event K OClient w = returns (keep, w1)"
    and M: "mask_inv lfd cfd afd l ci' True ai ao w1"
    and B: "byte_inv cfd afd rx shut l ci' keep ai (ep w1) (kern w1)"
    using client_write_event [OF T I] by blast
  note run = dispatch_call [OF m, where w = w and ob = OClient and member = write_event]
  show ?thesis
  proof (cases keep)
    case True
    then show ?thesis
      using run h M B flags_invD(1) [OF I] by (auto simp: flags_inv_def)
  next
    case False
    obtain c k where "Epoll_remove K OClient EPOLLOUT w1 = returns (c \<noteq> 0,
        w1\<lparr>ep := (ep w1)\<lparr>watched_count := c\<rparr>, objs := store lfd cfd afd l ci' False ai ao, kern := k\<rparr>)"
      "c = of_bool l + of_bool ci' + of_bool ai + of_bool ao" "rx k = rx (kern w1)"
      "shut k = (if ci' then shut (kern w1) else insert cfd (shut (kern w1)))"
      using remove_client [OF T M mk_mask_out] by auto
    then show ?thesis
      using False run h M B flags_invD(1) [OF I]
      by - (rule exI [of _ "c = 0"], rule exI [of _ ci'], rule exI [of _ False],
        auto simp: flags_inv_def mask_inv_def split del: split_of_bool intro!: byte_inv_unwatch [OF B])
  qed
qed

lemma dispatch_accept_read:
  assumes T: "tcp_kernel K cfd afd rx shut"
    and I: "flags_inv lfd cfd afd rx shut False ci co True ao w" and m: "m AND EPOLLIN \<noteq> 0"
  shows "\<exists>ret ai' w'. dispatch K read_event EPOLLIN (OAccept 0, m) w = returns (ret, w') \<and>
    (ret \<longrightarrow> watched_count (ep w') = 0) \<and> flags_inv lfd cfd afd rx shut False ci co ai' ao w'"
proof -
  obtain keep w1 where h: "AcceptSocket_read_event K (OAccept 0) w = returns (keep, w1)"
    and I1: "flags_inv lfd cfd afd rx shut False ci co True ao w1"
    and eof: "\<not> keep \<longrightarrow> rx (kern w1) afd = 0 \<and> \<not> ci"
    using accept_read_event [OF T I] by blast
  note run = dispatch_call [OF m, where w = w and ob = "OAccept 0" and member = read_event]
  show ?thesis
  proof (cases keep)
    case True
    then show ?thesis using run h I1 flags_invD(1) [OF I] by auto
  next
    case False
    have M: "mask_inv lfd cfd afd False ci co True ao w1" using I1 by (simp add: flags_inv_def)
    obtain c k where "Epoll_remove K (OAccept 0) EPOLLIN w1 = returns (c \<noteq> 0,
        w1\<lparr>ep := (ep w1)\<lparr>watched_count := c\<rparr>, objs := store lfd cfd afd False ci co False ao, kern := k\<rparr>)"
      "c = of_bool ci + of_bool co + of_bool ao" "rx k = rx (kern w1)"
      "shut k = (if ao then shut (kern w1) else insert afd (shut (kern w1)))"
      using remove_accept [OF T M mk_mask_in] by auto
    then show ?thesis
      using False run h I1 eof flags_invD(1) [OF I] tcp_kernelD(1) [OF T]
      by - (rule exI [of _ "c = 0"], rule exI [of _ False],
        auto simp: flags_inv_def mask_inv_def split: if_splits split del: split_of_bool elim!: byte_inv_unwatch)
  qed
qed

lemma dispatch_accept_write:
  assumes T: "tcp_kernel K cfd afd rx shut"
    and I: "flags_inv lfd cfd afd rx shut False ci co ai True w" and m: "m AND EPOLLOUT \<noteq> 0"
  shows "\<exists>ret ao' w'. dispatch K write_event EPOLLOUT (OAccept 0, m) w = returns (ret, w') \<and>
    (ret \<longrightarrow> watched_count (ep w') = 0) \<and> flags_inv lfd cfd afd rx shut False ci co ai ao' w'"
proof -
  obtain keep w1 where h: "AcceptSocket_write_event K (OAccept 0) w = returns (keep, w1)"
    and I1: "flags_inv lfd cfd afd rx shut False ci co ai True w1"
    using accept_write_event [OF T I] by blast
  note run = dispatch_call [OF m, where w = w and ob = "OAccept 0" and member = write_event]
  show ?thesis
  proof (cases keep)
    case True
    then show ?thesis using run h I1 flags_invD(1) [OF I] by auto
  next
    case False
    have M: "mask_inv lfd cfd afd False ci co ai True w1" using I1 by (simp add: flags_inv_def)
    obtain c k where "Epoll_remove K (OAccept 0) EPOLLOUT w1 = returns (c \<noteq> 0,
        w1\<lparr>ep := (ep w1)\<lparr>watched_count := c\<rparr>, objs := store lfd cfd afd False ci co ai False, kern := k\<rparr>)"
      "c = of_bool ci + of_bool co + of_bool ai" "rx k = rx (kern w1)"
      "shut k = (if ai then shut (kern w1) else insert afd (shut (kern w1)))"
      using remove_accept [OF T M mk_mask_out] by auto
    then show ?thesis
      using False run h I1 flags_invD(1) [OF I] tcp_kernelD(1) [OF T]
      by - (rule exI [of _ "c = 0"], rule exI [of _ False],
        auto simp: flags_inv_def mask_inv_def split: if_splits split del: split_of_bool elim!: byte_inv_unwatch)
  qed
qed

lemma dispatch_listen_read:
  assumes T: "tcp_kernel K cfd afd rx shut" and lfd: "lfd \<noteq> cfd"
    and I: "flags_inv lfd cfd afd rx shut True ci co ai ao w" and m: "m AND EPOLLIN \<noteq> 0"
  shows "\<exists>w'. dispatch K read_event EPOLLIN (OListen, m) w = returns (False, w') \<and>
    flags_inv lfd cfd afd rx shut False ci co True True w'"
proof -
  note D = flags_invD [OF I]
  obtain r k where acc: "k_accept K lfd (kern w) = (r, k)" by (cases "k_accept K lfd (kern w)")
  note law = tcp_kernelD(5) [OF T acc]
  let ?w = "w\<lparr>allocated := 1, accept_socket := Some (OAccept 0),
    kern := k, objs := (objs w)(OAccept 0 \<mapsto> accept_obj afd False False)\<rparr>"
  have ob: "objs ?w (OAccept 0) = Some (accept_obj afd False False)" by simp
  obtain k1 where add: "Epoll_add K (OAccept 0) (EPOLLIN OR EPOLLOUT) ?w =
      returns (?w\<lparr>ep := (ep w)\<lparr>watched_count := watched_count (ep w) + 2\<rparr>,
        objs := (objs w)(OAccept 0 \<mapsto> accept_obj afd True True), kern := k1\<rparr>)"
    and k1: "rx k1 = rx k" "shut k1 = shut k"
    using Epoll_add_obj [where i = False and out = False and a = True and b = True, OF T ob _ mk_mask_both] by auto
  have h: "ListenSocket_read_event K OListen w = returns (False,
      ?w\<lparr>ep := (ep w)\<lparr>watched_count := watched_count (ep w) + 2\<rparr>,
        objs := (objs w)(OAccept 0 \<mapsto> accept_obj afd True True), kern := k1\<rparr>)"
    (is "_ = returns (False, ?w1)")
    using add acc D(1,2) law
    by (simp add: ListenSocket_read_event_def AcceptSocket_init_def add_socket_defs accept_obj_def listen_obj_def
        mk_mask_def Let_def)
  have ob1: "objs ?w1 OListen = Some (listen_obj lfd True)" using D(1) by simp
  have more: "watched_count (ep ?w1) \<noteq> 1" using D(4) by (simp split: split_of_bool)
  from remove_listen [OF T ob1] obtain k2 where
    "Epoll_remove K OListen EPOLLIN ?w1 = returns (watched_count (ep ?w1) \<noteq> 1,
      ?w1\<lparr>ep := (ep ?w1)\<lparr>watched_count := watched_count (ep ?w1) - 1\<rparr>,
        objs := (objs ?w1)(OListen \<mapsto> listen_obj lfd False), kern := k2\<rparr>)"
    "rx k2 = rx k1" "shut k2 = insert lfd (shut k1)" by auto
  then show ?thesis
    using D law k1 lfd h more dispatch_call [OF m, where w = w and ob = OListen and member = read_event]
    by (auto simp: flags_inv_def mask_inv_def split: if_splits split del: split_of_bool elim!: byte_inv_unwatch)
qed

section \<open>One reported event\<close>

lemma reported_bits:
  assumes "m AND NOT (mk_mask i out) = 0"
  shows "m AND EPOLLIN \<noteq> 0 \<longrightarrow> i" "m AND EPOLLOUT \<noteq> 0 \<longrightarrow> out"
    "m AND NOT (EPOLLIN OR EPOLLOUT) = 0"
proof -
  have sub: "m AND mk_mask i out = m"
  proof (rule bit_word_eqI)
    fix n
    assume "n < LENGTH(32)"
    then show "bit (m AND mk_mask i out) n = bit m n"
      using arg_cong [OF assms, where f = "\<lambda>x. bit x n"] by (auto simp: bit_simps)
  qed
  then have part: "m AND x = m AND (mk_mask i out AND x)" for x
    by (metis and.assoc)
  show "m AND EPOLLIN \<noteq> 0 \<longrightarrow> i" using part [of EPOLLIN] by (cases i) auto
  show "m AND EPOLLOUT \<noteq> 0 \<longrightarrow> out" using part [of EPOLLOUT] by (cases out) auto
  show "m AND NOT (EPOLLIN OR EPOLLOUT) = 0"
    using part [of "NOT (EPOLLIN OR EPOLLOUT)"] by (simp only: mk_mask_simps(6) bit.conj_zero_right)
qed

lemma reported_store:
  "objs w = store lfd cfd afd l ci co ai ao \<Longrightarrow>
   reported w (ob, m) \<longleftrightarrow>
     (case ob of
        OListen \<Rightarrow> m AND NOT (mk_mask l False) = 0
      | OClient \<Rightarrow> m AND NOT (mk_mask ci co) = 0
      | OAccept n \<Rightarrow> n = 0 \<and> \<not> l \<and> m AND NOT (mk_mask ai ao) = 0)"
  by (auto simp: reported_def store_def obj_defs split: obj.splits)

definition loop_inv ::
  "int \<Rightarrow> int \<Rightarrow> int \<Rightarrow> ('k \<Rightarrow> int \<Rightarrow> nat) \<Rightarrow> ('k \<Rightarrow> int set) \<Rightarrow> 'k world \<Rightarrow> bool" where
  "loop_inv lfd cfd afd rx shut w \<longleftrightarrow> (\<exists>l ci co ai ao. flags_inv lfd cfd afd rx shut l ci co ai ao w)"

definition event_ok ::
  "int \<Rightarrow> int \<Rightarrow> int \<Rightarrow> ('k \<Rightarrow> int \<Rightarrow> nat) \<Rightarrow> ('k \<Rightarrow> int set) \<Rightarrow> obj \<Rightarrow> 'k world \<Rightarrow> (bool \<times> 'k world) result \<Rightarrow> bool" where
  "event_ok lfd cfd afd rx shut ob w res \<longleftrightarrow>
     (\<exists>ret w'. res = returns (ret, w') \<and> (ret \<longrightarrow> watched_count (ep w') = 0) \<and>
        loop_inv lfd cfd afd rx shut w' \<and>
        (\<forall>event. fst event \<noteq> ob \<and> reported w event \<longrightarrow> reported w' event))"

lemma event_okI:
  assumes "res = returns (ret, w')" "ret \<longrightarrow> watched_count (ep w') = 0"
    and "flags_inv lfd cfd afd rx shut l ci co ai ao w'"
    and "\<forall>event. fst event \<noteq> ob \<and> reported w event \<longrightarrow> reported w' event"
  shows "event_ok lfd cfd afd rx shut ob w res"
  unfolding event_ok_def loop_inv_def by (intro exI conjI, (rule assms)+)

lemma handle_client_event:
  assumes T: "tcp_kernel K cfd afd rx shut"
    and I: "flags_inv lfd cfd afd rx shut l ci co ai ao w" and R: "reported w (OClient, m)"
  shows "event_ok lfd cfd afd rx shut OClient w (handle_event K (OClient, m) w)"
proof -
  note st = reported_store [OF flags_invD(1)]
  have bits: "m AND EPOLLIN \<noteq> 0 \<longrightarrow> ci" "m AND EPOLLOUT \<noteq> 0 \<longrightarrow> co" "m AND NOT (EPOLLIN OR EPOLLOUT) = 0"
    using R reported_bits [of m ci co] by (simp_all add: st [OF I])
  obtain co1 w1 where one: "dispatch K read_event EPOLLIN (OClient, m) w = returns (False, w1)"
    and co1: "co \<longrightarrow> co1" and I1: "flags_inv lfd cfd afd rx shut l ci co1 ai ao w1"
    using I bits(1) dispatch_client_read [OF T, of lfd l co ai ao w m]
    by (cases "m AND EPOLLIN = 0") auto
  obtain ret ci2 co2 w2 where two: "dispatch K write_event EPOLLOUT (OClient, m) w1 = returns (ret, w2)"
    "ret \<longrightarrow> watched_count (ep w2) = 0" and I2: "flags_inv lfd cfd afd rx shut l ci2 co2 ai ao w2"
    using I1 bits(2) co1 dispatch_client_write [OF T, of lfd l ci ai ao w1 m]
    by (cases "m AND EPOLLOUT = 0") auto
  have keep: "\<forall>event. fst event \<noteq> OClient \<and> reported w event \<longrightarrow> reported w2 event"
    by (auto simp: st [OF I] st [OF I2] split: obj.splits)
  show ?thesis
    by (rule event_okI [OF _ two(2) I2 keep]) (simp add: handle_event_def one two(1) bits(3) [simplified])
qed

lemma handle_accept_event:
  assumes T: "tcp_kernel K cfd afd rx shut"
    and I: "flags_inv lfd cfd afd rx shut False ci co ai ao w" and R: "reported w (OAccept 0, m)"
  shows "event_ok lfd cfd afd rx shut (OAccept 0) w (handle_event K (OAccept 0, m) w)"
proof -
  note st = reported_store [OF flags_invD(1)]
  have bits: "m AND EPOLLIN \<noteq> 0 \<longrightarrow> ai" "m AND EPOLLOUT \<noteq> 0 \<longrightarrow> ao" "m AND NOT (EPOLLIN OR EPOLLOUT) = 0"
    using R reported_bits [of m ai ao] by (simp_all add: st [OF I])
  obtain ret1 ai1 w1 where one: "dispatch K read_event EPOLLIN (OAccept 0, m) w = returns (ret1, w1)"
    "ret1 \<longrightarrow> watched_count (ep w1) = 0"
    and I1: "flags_inv lfd cfd afd rx shut False ci co ai1 ao w1"
    using I bits(1) dispatch_accept_read [OF T, of lfd ci co ao w m]
    by (cases "m AND EPOLLIN = 0") auto
  obtain ret ao2 w2 where two: "dispatch K write_event EPOLLOUT (OAccept 0, m) w1 = returns (ret, w2)"
    "ret \<longrightarrow> watched_count (ep w2) = 0"
    and I2: "flags_inv lfd cfd afd rx shut False ci co ai1 ao2 w2"
    using I1 bits(2) dispatch_accept_write [OF T, of lfd ci co ai1 w1 m]
    by (cases "m AND EPOLLOUT = 0") auto
  have keep1: "\<forall>event. fst event \<noteq> OAccept 0 \<and> reported w event \<longrightarrow> reported w1 event"
    and keep2: "\<forall>event. fst event \<noteq> OAccept 0 \<and> reported w event \<longrightarrow> reported w2 event"
    by (auto simp: st [OF I] st [OF I1] st [OF I2] split: obj.splits)
  show ?thesis
  proof (cases ret1)
    case True
    then show ?thesis
      by (intro event_okI [OF _ one(2) I1 keep1]) (simp add: handle_event_def one(1))
  next
    case False
    then show ?thesis
      by (intro event_okI [OF _ two(2) I2 keep2]) (simp add: handle_event_def one(1) two(1) bits(3) [simplified])
  qed
qed

lemma handle_listen_event:
  assumes T: "tcp_kernel K cfd afd rx shut" and lfd: "lfd \<noteq> cfd"
    and I: "flags_inv lfd cfd afd rx shut l ci co ai ao w" and R: "reported w (OListen, m)"
  shows "event_ok lfd cfd afd rx shut OListen w (handle_event K (OListen, m) w)"
proof -
  note st = reported_store [OF flags_invD(1)]
  have bits: "m AND EPOLLIN \<noteq> 0 \<longrightarrow> l" "m AND EPOLLOUT = 0" "m AND NOT (EPOLLIN OR EPOLLOUT) = 0"
    using R reported_bits [of m l False] by (auto simp: st [OF I])
  obtain l1 ai1 ao1 w1 where one: "dispatch K read_event EPOLLIN (OListen, m) w = returns (False, w1)"
    and I1: "flags_inv lfd cfd afd rx shut l1 ci co ai1 ao1 w1"
    and keep: "\<forall>event. fst event \<noteq> OListen \<and> reported w event \<longrightarrow> reported w1 event"
  proof (cases "m AND EPOLLIN = 0")
    case True
    with I show ?thesis by (intro that [of w]) auto
  next
    case False
    with bits(1) I have I': "flags_inv lfd cfd afd rx shut True ci co ai ao w" by simp
    obtain w1 where "dispatch K read_event EPOLLIN (OListen, m) w = returns (False, w1)"
      and I1: "flags_inv lfd cfd afd rx shut False ci co True True w1"
      using dispatch_listen_read [OF T lfd I' False] by blast
    moreover have "\<forall>event. fst event \<noteq> OListen \<and> reported w event \<longrightarrow> reported w1 event"
      by (auto simp: st [OF I'] st [OF I1] split: obj.splits)
    ultimately show ?thesis using that by blast
  qed
  show ?thesis
    by (rule event_okI [OF _ _ I1 keep, of _ False]) (simp_all add: handle_event_def one bits(2) bits(3) [simplified])
qed

lemma handle_event_ok:
  assumes T: "tcp_kernel K cfd afd rx shut" and lfd: "lfd \<noteq> cfd"
    and I: "loop_inv lfd cfd afd rx shut w" and R: "reported w (ob, m)"
  shows "event_ok lfd cfd afd rx shut ob w (handle_event K (ob, m) w)"
proof -
  obtain l ci co ai ao where F: "flags_inv lfd cfd afd rx shut l ci co ai ao w"
    using I by (auto simp: loop_inv_def)
  show ?thesis
  proof (cases ob)
    case (OAccept n)
    with R F have "n = 0" "\<not> l" by (simp_all add: reported_store [OF flags_invD(1) [OF F]])
    with F R OAccept show ?thesis using handle_accept_event [OF T] by simp
  qed (use handle_client_event [OF T F] handle_listen_event [OF T lfd F] R in simp_all)
qed

section \<open>The rounds of the loop\<close>

text \<open>
  What \<^verbatim>\<open>epoll_wait(2)\<close> documents for the array it fills: a count within the array and, for
  different watched objects, events that are watched.
\<close>

definition wait_ok :: "wait_result \<Rightarrow> 'k world \<Rightarrow> bool" where
  "wait_ok r w \<longleftrightarrow>
     0 \<le> wait_n r \<and> wait_n r \<le> int (length (wait_events r)) \<and>
     distinct (map fst (take (nat (wait_n r)) (wait_events r))) \<and>
     list_all (reported w) (take (nat (wait_n r)) (wait_events r))"

fun waits_ok :: "'k kernel \<Rightarrow> wait_result list \<Rightarrow> 'k world \<Rightarrow> bool" where
  "waits_ok K [] w \<longleftrightarrow> True"
| "waits_ok K (r # rs) w \<longleftrightarrow>
     wait_ok r w \<and>
     (case mainloop_round K r w of returns (False, w') \<Rightarrow> waits_ok K rs w' | _ \<Rightarrow> True)"

lemma reported_rest:
  assumes "\<forall>event. fst event \<noteq> ob \<and> reported w event \<longrightarrow> reported w' event"
    and "ob \<notin> set (map fst es)" "list_all (reported w) es"
  shows "list_all (reported w') es"
  unfolding list_all_iff
proof
  fix event
  assume event: "event \<in> set es"
  then have "fst event \<noteq> ob" using assms(2) by auto
  moreover have "reported w event" using event assms(3) by (simp add: list_all_iff)
  ultimately show "reported w' event" using assms(1) by blast
qed

lemma handle_events_ok:
  assumes T: "tcp_kernel K cfd afd rx shut" and lfd: "lfd \<noteq> cfd"
    and "n \<le> length events" "loop_inv lfd cfd afd rx shut w"
    and "distinct (map fst (take n events))" "list_all (reported w) (take n events)"
  shows "\<exists>ret w'. handle_events K events (int n) w = returns (ret, w') \<and>
    (ret \<longrightarrow> watched_count (ep w') = 0) \<and> loop_inv lfd cfd afd rx shut w'"
  using assms(3-)
proof (induction n arbitrary: w)
  case 0
  then show ?case by (subst handle_events.simps) (auto intro: exI [of _ False])
next
  case (Suc n)
  obtain ob m where event: "events ! n = (ob, m)" by (cases "events ! n")
  have take: "take (Suc n) events = take n events @ [(ob, m)]"
    using Suc.prems(1) event by (metis Suc_le_lessD take_Suc_conv_app_nth)
  have "reported w (ob, m)" using Suc.prems(4) take by simp
  from handle_event_ok [OF T lfd Suc.prems(2) this] obtain ret w1 where
    one: "handle_event K (ob, m) w = returns (ret, w1)" "ret \<longrightarrow> watched_count (ep w1) = 0"
    and inv: "loop_inv lfd cfd afd rx shut w1"
    and keep: "\<forall>event. fst event \<noteq> ob \<and> reported w event \<longrightarrow> reported w1 event"
    unfolding event_ok_def by blast
  have "list_all (reported w1) (take n events)"
    by (rule reported_rest [OF keep]) (use Suc.prems(3,4) take in auto)
  moreover have "distinct (map fst (take n events))" using Suc.prems(3) take by simp
  ultimately obtain ret' w' where "handle_events K events (int n) w1 = returns (ret', w')"
    "ret' \<longrightarrow> watched_count (ep w') = 0" "loop_inv lfd cfd afd rx shut w'"
    using Suc.IH [OF _ inv] Suc.prems(1) by auto
  then show ?case
    using one inv event Suc.prems(1) by (subst handle_events.simps) auto
qed

lemma mainloop_round_ok:
  assumes T: "tcp_kernel K cfd afd rx shut" and lfd: "lfd \<noteq> cfd"
    and I: "loop_inv lfd cfd afd rx shut w" and r: "wait_ok r w"
  shows "\<exists>ret w'. mainloop_round K r w = returns (ret, w') \<and> loop_inv lfd cfd afd rx shut w' \<and>
    (ret \<longrightarrow> watched_count (ep w') = 0 \<or>
      classify_stall (timeval_diff (wait_tv1 r) (wait_tv2 r)) = BlockedPermanently)"
proof -
  have n: "nat (wait_n r) \<le> length (wait_events r)" "int (nat (wait_n r)) = wait_n r"
    using r by (auto simp: wait_ok_def)
  show ?thesis
    using handle_events_ok [OF T lfd n(1) I] r I
    by (auto simp: mainloop_round_def wait_ok_def n(2))
qed

lemma mainloop_rounds_ok:
  assumes T: "tcp_kernel K cfd afd rx shut" and lfd: "lfd \<noteq> cfd"
    and "loop_inv lfd cfd afd rx shut w" "waits_ok K rs w"
  shows "\<exists>ret w'. mainloop_rounds K rs w = returns (ret, w') \<and> loop_inv lfd cfd afd rx shut w' \<and>
    (ret \<longrightarrow> watched_count (ep w') = 0 \<or>
      (\<exists>r \<in> set rs. classify_stall (timeval_diff (wait_tv1 r) (wait_tv2 r)) = BlockedPermanently))"
  using assms(3-)
proof (induction rs arbitrary: w)
  case (Cons r rs)
  from Cons.prems have "wait_ok r w" by simp
  from mainloop_round_ok [OF T lfd Cons.prems(1) this] obtain ret w1 where
    one: "mainloop_round K r w = returns (ret, w1)"
    and I1: "loop_inv lfd cfd afd rx shut w1"
    and stop: "ret \<longrightarrow> watched_count (ep w1) = 0 \<or>
      classify_stall (timeval_diff (wait_tv1 r) (wait_tv2 r)) = BlockedPermanently"
    by blast
  show ?case
  proof (cases ret)
    case True
    with one I1 stop show ?thesis by auto
  next
    case False
    with Cons.prems(2) one have "waits_ok K rs w1" by simp
    from Cons.IH [OF I1 this] one False show ?thesis by auto
  qed
qed auto

section \<open>The whole program\<close>

text \<open>\<^verbatim>\<open>main\<close>: the set-up and the rounds of the main loop for the given results of \<^verbatim>\<open>epoll_wait\<close>.\<close>

definition program ::
  "'k kernel \<Rightarrow> int \<Rightarrow> int \<Rightarrow> int \<Rightarrow> 'k \<Rightarrow> wait_result list \<Rightarrow> (bool \<times> 'k world) result" where
  "program K epfd lfd cfd k rs = and_then (main_init K epfd lfd cfd k) (mainloop_rounds K rs)"

text \<open>The results are those of a kernel that keeps to the documentation, round by round.\<close>

definition conforming ::
  "'k kernel \<Rightarrow> int \<Rightarrow> int \<Rightarrow> int \<Rightarrow> 'k \<Rightarrow> wait_result list \<Rightarrow> bool" where
  "conforming K epfd lfd cfd k rs \<longleftrightarrow>
     (case main_init K epfd lfd cfd k of returns w \<Rightarrow> waits_ok K rs w | _ \<Rightarrow> True)"

definition start_ok ::
  "int \<Rightarrow> int \<Rightarrow> int \<Rightarrow> ('k \<Rightarrow> int \<Rightarrow> nat) \<Rightarrow> ('k \<Rightarrow> int set) \<Rightarrow> 'k \<Rightarrow> bool" where
  "start_ok lfd cfd afd rx shut k \<longleftrightarrow>
     lfd \<noteq> cfd \<and> rx k cfd = 0 \<and> rx k afd = 0 \<and> cfd \<notin> shut k"

lemma main_init_ok:
  assumes T: "tcp_kernel K cfd afd rx shut" and S: "start_ok lfd cfd afd rx shut k"
  shows "\<exists>w. main_init K epfd lfd cfd k = returns w \<and>
    flags_inv lfd cfd afd rx shut True True False False False w"
proof -
  let ?w = "\<lparr>ep = Epoll_init epfd, objs = [OListen \<mapsto> listen_obj lfd False], allocated = 0,
    accept_socket = None, kern = k\<rparr>"
  have "objs ?w OListen = Some (listen_obj lfd False)" by simp
  from Epoll_add_obj [where i = False and out = False, OF T this _ mk_mask_in] obtain k1 where
    one: "Epoll_add K OListen EPOLLIN ?w = returns
      (?w\<lparr>ep := (ep ?w)\<lparr>watched_count := 1\<rparr>, objs := [OListen \<mapsto> listen_obj lfd True], kern := k1\<rparr>)"
      (is "_ = returns ?w1")
    and k1: "rx k1 = rx k" "shut k1 = shut k"
    by (auto simp: Epoll_init_def)
  let ?w2 = "?w1\<lparr>objs := (objs ?w1)(OClient \<mapsto> client_obj cfd False False)\<rparr>"
  have "objs ?w2 OClient = Some (client_obj cfd False False)" by simp
  from Epoll_add_obj [where i = False and out = False, OF T this _ mk_mask_in] obtain k2 where
    two: "Epoll_add K OClient EPOLLIN ?w2 = returns
      (?w2\<lparr>ep := (ep ?w2)\<lparr>watched_count := 2\<rparr>,
        objs := (objs ?w1)(OClient \<mapsto> client_obj cfd True False), kern := k2\<rparr>)"
    and k2: "rx k2 = rx k" "shut k2 = shut k"
    using k1 by auto
  have init: "ListenSocket_init K lfd (?w\<lparr>objs := \<lambda>_. None\<rparr>) = returns ?w1"
    "ClientSocket_init K cfd ?w1 =
      returns (?w2\<lparr>ep := (ep ?w2)\<lparr>watched_count := 2\<rparr>,
        objs := (objs ?w1)(OClient \<mapsto> client_obj cfd True False), kern := k2\<rparr>)"
    using one two
    by (simp_all add: ListenSocket_init_def ClientSocket_init_def add_socket_defs obj_defs mk_mask_def)
  have "[OListen \<mapsto> listen_obj lfd True, OClient \<mapsto> client_obj cfd True False] =
    store lfd cfd afd True True False False False"
    by (auto simp: store_def fun_eq_iff split: obj.splits)
  then show ?thesis
    using init S k2
    by (auto simp: main_init_def flags_inv_def mask_inv_def byte_inv_def start_ok_def Epoll_init_def)
qed

lemma program_ok:
  assumes T: "tcp_kernel K cfd afd rx shut" and S: "start_ok lfd cfd afd rx shut k"
    and W: "conforming K epfd lfd cfd k rs"
  shows "\<exists>ret w. program K epfd lfd cfd k rs = returns (ret, w) \<and> loop_inv lfd cfd afd rx shut w \<and>
    (ret \<longrightarrow> watched_count (ep w) = 0 \<or>
      (\<exists>r \<in> set rs. classify_stall (timeval_diff (wait_tv1 r) (wait_tv2 r)) = BlockedPermanently))"
proof -
  obtain w where "main_init K epfd lfd cfd k = returns w" "loop_inv lfd cfd afd rx shut w"
    using main_init_ok [OF T S, of epfd] unfolding loop_inv_def by blast
  moreover have "lfd \<noteq> cfd" using S by (simp add: start_ok_def)
  ultimately show ?thesis
    using mainloop_rounds_ok [OF T] W by (simp add: program_def conforming_def)
qed

end
