(* ===== verification/EpollBugProps.thy ===== *)
theory EpollBugProps
  imports EpollBugLoop
begin

text \<open>
  The properties of \<^verbatim>\<open>src/epoll_bug.c\<close>, and a kernel on which the whole program runs: it
  delivers every byte at once, so that the nine results of \<^verbatim>\<open>epoll_wait\<close> in \<open>full_run\<close> take
  the burst to the client and back.
\<close>

section \<open>A conforming kernel\<close>

type_synonym wire = "(int \<Rightarrow> nat) \<times> int set"

definition wire_kernel :: "wire kernel" where
  "wire_kernel =
     \<lparr>k_read = (\<lambda>fd len (rx, shut).
        if min len (rx fd) > 0 then (int (min len (rx fd)), rx(fd := rx fd - min len (rx fd)), shut)
        else if fd = 7 \<and> 6 \<in> shut \<and> rx fd = 0 then (0, rx, shut) else (-1, rx, shut)),
      k_write = (\<lambda>fd len (rx, shut).
        (int len, (if fd = 7 then rx(6 := rx 6 + len) else rx(7 := rx 7 + len)), shut)),
      k_accept = (\<lambda>fd k. (7, k)),
      k_ctl = (\<lambda>fd c k. k),
      k_close = (\<lambda>fd (rx, shut). (rx, insert fd shut))\<rparr>"

lemma wire_kernel_tcp: "tcp_kernel wire_kernel 6 7 fst snd"
  unfolding tcp_kernel_def tcp_read_law_def tcp_write_law_def wire_kernel_def
  by (auto split: if_splits simp: min_def)

lemma wire_start: "start_ok 5 6 7 fst snd ((\<lambda>_. 0), {})"
  by (simp add: start_ok_def)

lemma wire_read_loop:
  "read_loop wire_kernel fd tot (rx, shut) =
     Some (Inr (if fd = 7 \<and> 6 \<in> shut then 0 else -1, tot + of_nat (rx fd), rx(fd := 0), shut))"
proof (induction "rx fd" arbitrary: tot rx rule: less_induct)
  case less
  show ?case
  proof (cases "rx fd = 0")
    case True
    then show ?thesis
      by (subst read_loop.simps)
        (simp add: sys_read_def wire_kernel_def read_length_def buf_size_def fun_upd_idem)
  next
    case False
    let ?n = "min 100000 (rx fd)"
    have "0 < ?n" using False by simp
    then have sys: "sys_read wire_kernel fd read_length (rx, shut) =
        Inr (int ?n, rx(fd := rx fd - ?n), shut)"
      by (simp add: sys_read_def wire_kernel_def read_length_def buf_size_def)
    have "of_nat ?n + of_nat (rx fd - ?n) = (of_nat (rx fd) :: u64)"
      by (metis le_add_diff_inverse min.cobounded2 of_nat_add)
    then show ?thesis
      using False less.hyps [of "rx(fd := rx fd - ?n)" "tot + of_nat ?n"]
      by (subst read_loop.simps) (simp add: sys add.assoc split: if_splits)
  qed
qed

definition quick :: "(obj \<times> u32) list \<Rightarrow> wait_result" where
  "quick events =
     \<lparr>wait_tv1 = \<lparr>tv_sec = 0, tv_usec = 0\<rparr>, wait_tv2 = \<lparr>tv_sec = 0, tv_usec = 5\<rparr>,
      wait_n = int (length events), wait_events = events\<rparr>"

definition full_run :: "wait_result list" where
  "full_run =
     [quick [(OListen, EPOLLIN)], quick [(OAccept 0, EPOLLOUT)], quick [(OAccept 0, EPOLLOUT)],
      quick [(OAccept 0, EPOLLOUT)], quick [(OAccept 0, EPOLLOUT)], quick [(OAccept 0, EPOLLOUT)],
      quick [(OClient, EPOLLIN)], quick [(OClient, EPOLLOUT)], quick [(OAccept 0, EPOLLIN)]]"

text \<open>The state of the run after each of its rounds.\<close>

definition snap ::
  "bool \<Rightarrow> bool \<Rightarrow> bool \<Rightarrow> bool \<Rightarrow> bool \<Rightarrow> int \<Rightarrow> u64 \<Rightarrow> u64 \<Rightarrow> u64 \<Rightarrow> u64 \<Rightarrow> wire \<Rightarrow> wire world" where
  "snap l ci co ai ao c t1 t2 r1 r2 k =
     \<lparr>ep = \<lparr>ep_fd = 4, watched_count = c, twlen1 = t1, twlen2 = t2, trlen1 = r1, trlen2 = r2\<rparr>,
      objs = store 5 6 7 l ci co ai ao, allocated = (if l then 0 else 1),
      accept_socket = (if l then None else Some (OAccept 0)), kern = k\<rparr>"

lemma snap_sel [simp]:
  "objs (snap l ci co ai ao c t1 t2 r1 r2 k) = store 5 6 7 l ci co ai ao"
  "kern (snap l ci co ai ao c t1 t2 r1 r2 k) = k"
  "watched_count (ep (snap l ci co ai ao c t1 t2 r1 r2 k)) = c"
  "twlen1 (ep (snap l ci co ai ao c t1 t2 r1 r2 k)) = t1"
  "twlen2 (ep (snap l ci co ai ao c t1 t2 r1 r2 k)) = t2"
  "trlen1 (ep (snap l ci co ai ao c t1 t2 r1 r2 k)) = r1"
  "trlen2 (ep (snap l ci co ai ao c t1 t2 r1 r2 k)) = r2"
  by (simp_all add: snap_def)

lemma quick_one:
  "mainloop_round K (quick [event]) w = handle_event K event w"
  by (simp add: mainloop_round_def quick_def timeval_diff_def classify_stall_def handle_events.simps
      and_then_def split: option.split sum.split prod.split)

lemma wire_write_loop:
  assumes "i < length alen" "0 \<le> mx" "mx \<le> buf_size"
  shows "accept_write_loop wire_kernel 7 i mx tot (rx, s) =
    Inr (tot + word_of_int (min mx (sum_list (drop i alen))),
      rx(6 := rx 6 + nat (min mx (sum_list (drop i alen)))), s)"
  using assms
proof (induction "length alen - i" arbitrary: i mx tot rx)
  case 0
  then show ?case by simp
next
  case (Suc n)
  let ?len = "if alen ! i > mx then mx else alen ! i"
  have pos: "\<forall>x \<in> set alen. 0 < x" by (simp add: alen_def)
  then have pos_i: "0 < alen ! i" using Suc.prems(1) by simp
  have drop: "drop i alen = alen ! i # drop (Suc i) alen"
    using Suc.prems(1) by (simp add: Cons_nth_drop_Suc)
  have rest: "0 \<le> sum_list (drop (Suc i) alen)"
    using pos by (intro sum_list_nonneg) (auto dest: in_set_dropD intro: less_imp_le)
  have wr: "sys_write wire_kernel 7 ?len (rx, s) = Inr (?len, rx(6 := rx 6 + nat ?len), s)"
    using Suc.prems pos_i by (simp add: sys_write_def wire_kernel_def)
  have step: "accept_write_loop wire_kernel 7 i mx tot (rx, s) =
    (if Suc i < length alen \<and> mx - ?len > 0
     then accept_write_loop wire_kernel 7 (Suc i) (mx - ?len) (tot + word_of_int ?len)
       (rx(6 := rx 6 + nat ?len), s)
     else Inr (tot + word_of_int ?len, rx(6 := rx 6 + nat ?len), s))"
    using Suc.prems pos_i by (subst accept_write_loop.simps) (auto simp: wr Let_def)
  show ?case
  proof (cases "Suc i < length alen \<and> mx - ?len > 0")
    case True
    then have len: "?len = alen ! i" by (simp split: if_splits)
    have "n = length alen - Suc i" using Suc.hyps(2) by simp
    note IH = Suc.hyps(1) [OF this, of "mx - alen ! i" "tot + word_of_int (alen ! i)"]
    let ?m = "min (mx - alen ! i) (sum_list (drop (Suc i) alen))"
    have m: "min mx (sum_list (drop i alen)) = alen ! i + ?m" and "0 \<le> ?m"
      using True rest len by (auto simp: drop min_def)
    then have "nat (alen ! i + ?m) = nat (alen ! i) + nat ?m"
      using pos_i by (intro nat_add_distrib) auto
    with m show ?thesis
      using True Suc.prems pos_i IH by (simp add: step len add.assoc)
  next
    case False
    then have "min mx (sum_list (drop i alen)) = ?len"
      using rest by (auto simp: drop min_def)
    with False show ?thesis by (simp only: step if_False)
  qed
qed

lemmas snap_run =
  handle_event_def dispatch_def Epoll_add_def Epoll_remove_def add_events_def remove_events_def
  Let_def mk_mask_in [symmetric] mk_mask_out [symmetric]

lemma snap_update [simp]:
  "snap l ci co ai ao c t1 t2 r1 r2 k\<lparr>ep := \<lparr>ep_fd = 4, watched_count = c', twlen1 = t1', twlen2 = t2',
     trlen1 = r1', trlen2 = r2'\<rparr>, kern := k'\<rparr> = snap l ci co ai ao c' t1' t2' r1' r2' k'"
  by (simp add: snap_def)

lemma wire_sel:
  "k_write wire_kernel fd len (rx, shut) =
     (int len, (if fd = 7 then rx(6 := rx 6 + len) else rx(7 := rx 7 + len)), shut)"
  "k_accept wire_kernel fd k = (7, k)"
  "k_ctl wire_kernel fd c k = k"
  "k_close wire_kernel fd (rx, shut) = (rx, insert fd shut)"
  by (simp_all add: wire_kernel_def)

lemma wire_init:
  "main_init wire_kernel 4 5 6 ((\<lambda>_. 0), {}) = returns (snap True True False False False 2 0 0 0 0 ((\<lambda>_. 0), {}))"
  by (simp add: main_init_def ListenSocket_init_def ClientSocket_init_def add_socket_defs snap_run snap_def Epoll_init_def
      wire_sel store_def obj_defs fun_eq_iff mk_mask_consts split: obj.split)

lemma wire_listen:
  "handle_event wire_kernel (OListen, EPOLLIN) (snap True True False False False 2 0 0 0 0 ((\<lambda>_. 0), {})) =
   returns (False, snap False True False True True 3 0 0 0 0 ((\<lambda>_. 0), {5}))"
  by (simp add: snap_run snap_def ListenSocket_read_event_def AcceptSocket_init_def add_socket_defs
      wire_sel store_def obj_defs fun_eq_iff mk_mask_consts event_bit_defs
      count_events_def split: obj.split)

lemma alen_sum: "sum_list alen = 2104704" "0 < length alen"
  by (simp_all add: alen_def)

lemma wire_accept_write:
  assumes "unat t = n" "n \<le> 10000000"
  shows "AcceptSocket_write_event wire_kernel (OAccept 0) (snap False True False True True 3 t 0 0 0 (rx, s)) =
    returns (t + word_of_int (min (10000000 - int n) 2104704) < 10000000,
      snap False True False True True 3 (t + word_of_int (min (10000000 - int n) 2104704)) 0 0 0
        (rx(6 := rx 6 + nat (min (10000000 - int n) 2104704)), s))"
proof -
  have mx: "sint (ucast (word_of_int burst_size - t) :: u32) = 10000000 - int n"
    using int_of_difference [of t] assms by simp
  have "accept_write_loop wire_kernel 7 0 (10000000 - int n) t (rx, s) =
    Inr (t + word_of_int (min (10000000 - int n) 2104704),
      rx(6 := rx 6 + nat (min (10000000 - int n) 2104704)), s)"
    using assms(2) wire_write_loop [of 0 "10000000 - int n" t rx s] alen_sum by (simp add: buf_size_def)
  then show ?thesis
    using mx by (simp add: AcceptSocket_write_event_def snap_def accept_obj_def burst_size_def)
qed

lemma wire_burst:
  assumes "unat t = n" "n < 10000000"
  shows "handle_event wire_kernel (OAccept 0, EPOLLOUT) (snap False True False True True 3 t 0 0 0 (rx, s)) =
   returns (False,
     if n + 2104704 < 10000000
     then snap False True False True True 3 (t + 2104704) 0 0 0 (rx(6 := rx 6 + 2104704), s)
     else snap False True False True False 2 10000000 0 0 0 (rx(6 := rx 6 + (10000000 - n)), s))"
proof -
  let ?w = "snap False True False True True 3 t 0 0 0 (rx, s)"
  have t: "t = of_nat n" using assms(1) by (metis of_nat_unat ucast_id)
  note wr = wire_accept_write [OF assms(1) less_imp_le [OF assms(2)], of rx s]
  show ?thesis
  proof (cases "n + 2104704 < 10000000")
    case True
    then have "unat (t + 2104704) = n + 2104704"
      using assms(1) unat_add_int [of 2104704 t] by simp
    then show ?thesis
      using True assms(2) wr by (simp add: snap_run event_bit_defs buf_size_def burst_size_def min_def
        word_less_nat_alt accept_obj_def mk_mask_def)
  next
    case False
    then have "t + word_of_int (10000000 - int n) = 10000000"
      using assms(2) by (simp add: t)
    then show ?thesis
      using False assms(2) wr
      by (simp add: snap_run event_bit_defs buf_size_def burst_size_def min_def nat_diff_distrib
        word_less_nat_alt accept_obj_def mk_mask_def wire_sel count_events_def snap_def
        store_def fun_eq_iff split: obj.split)
  qed
qed


lemma wire_client_read:
  "handle_event wire_kernel (OClient, EPOLLIN)
     (snap False True False True False 2 10000000 0 0 0 ((\<lambda>_. 0)(6 := 10000000), s)) =
   returns (False, snap False True True True False 3 10000000 0 10000000 0 ((\<lambda>_. 0), s))"
  by (simp add: snap_run ClientSocket_read_event_def wire_read_loop snap_def count_events_def mk_mask_def
      wire_sel obj_defs store_def fun_eq_iff event_bit_defs split: obj.split)

lemma wire_client_write:
  "handle_event wire_kernel (OClient, EPOLLOUT)
     (snap False True True True False 3 10000000 0 10000000 0 ((\<lambda>_. 0), s)) =
   returns (False,
     snap False False False True False 1 10000000 10000000 10000000 0
       ((\<lambda>_. 0)(7 := 10000000), insert 6 s))"
  by (simp add: snap_run ClientSocket_write_event_def snap_def count_events_def mk_mask_def
      burst_size_def sys_write_def buf_size_def wire_sel obj_defs store_def fun_eq_iff
      event_bit_defs split: obj.split)

lemma wire_accept_eof:
  "handle_event wire_kernel (OAccept 0, EPOLLIN)
     (snap False False False True False 1 10000000 10000000 10000000 0
       ((\<lambda>_. 0)(7 := 10000000), insert 6 s)) =
   returns (True,
     snap False False False False False 0 10000000 10000000 10000000 10000000
       ((\<lambda>_. 0), insert 7 (insert 6 s)))"
  by (simp add: snap_run AcceptSocket_read_event_def wire_read_loop snap_def count_events_def mk_mask_def
      wire_sel obj_defs store_def fun_eq_iff event_bit_defs split: obj.split)

lemma wire_rounds:
  "mainloop_round wire_kernel (quick [(OAccept 0, EPOLLOUT)])
     (snap False True False True True 3 t 0 0 0 ((\<lambda>_. 0)(6 := n), s)) =
   returns (False,
     if n + 2104704 < 10000000
     then snap False True False True True 3 (t + 2104704) 0 0 0 ((\<lambda>_. 0)(6 := n + 2104704), s)
     else snap False True False True False 2 10000000 0 0 0 ((\<lambda>_. 0)(6 := 10000000), s))"
  if "unat t = n" "n < 10000000"
  using wire_burst [OF that, of "(\<lambda>_. 0)(6 := n)" s] that by (simp add: quick_one)

lemma wire_first:
  "mainloop_round wire_kernel (quick [(OAccept 0, EPOLLOUT)])
     (snap False True False True True 3 0 0 0 0 ((\<lambda>_. 0), s)) =
   returns (False, snap False True False True True 3 2104704 0 0 0 ((\<lambda>_. 0)(6 := 2104704), s))"
  using wire_burst [of 0 0 "\<lambda>_. 0" s] by (simp add: quick_one)

lemma quick_ok [simp]: "wait_ok (quick [event]) w \<longleftrightarrow> reported w event"
  by (simp add: wait_ok_def quick_def)

lemma snap_reported:
  "reported (snap l ci co ai ao c t1 t2 r1 r2 k) (OListen, EPOLLIN) \<longleftrightarrow> l"
  "reported (snap l ci co ai ao c t1 t2 r1 r2 k) (OClient, EPOLLIN) \<longleftrightarrow> ci"
  "reported (snap l ci co ai ao c t1 t2 r1 r2 k) (OClient, EPOLLOUT) \<longleftrightarrow> co"
  "reported (snap l ci co ai ao c t1 t2 r1 r2 k) (OAccept 0, EPOLLIN) \<longleftrightarrow> \<not> l \<and> ai"
  "reported (snap l ci co ai ao c t1 t2 r1 r2 k) (OAccept 0, EPOLLOUT) \<longleftrightarrow> \<not> l \<and> ao"
  by (simp_all add: reported_def obj_defs mk_mask_def event_bit_defs)

lemmas wire_steps = wire_init wire_listen wire_first wire_rounds wire_client_read wire_client_write wire_accept_eof

lemma full_run_conforming: "conforming wire_kernel 4 5 6 ((\<lambda>_. 0), {}) full_run"
  by (simp add: conforming_def full_run_def wire_steps quick_one [of _ "(OListen, e)" for e]
      quick_one [of _ "(OClient, e)" for e] quick_one [of _ "(OAccept 0, EPOLLIN)"] snap_reported)

lemma full_run_result:
  "program wire_kernel 4 5 6 ((\<lambda>_. 0), {}) full_run =
   returns (True, snap False False False False False 0 10000000 10000000 10000000 10000000
     ((\<lambda>_. 0), {7, 6, 5}))"
  by (simp add: program_def full_run_def wire_steps quick_one [of _ "(OListen, e)" for e]
      quick_one [of _ "(OClient, e)" for e] quick_one [of _ "(OAccept 0, EPOLLIN)"])

lemma usec_split:
  assumes "us = u + s * (1000000 :: int)" "0 \<le> u" "u < 1000000"
  shows "us div 1000000 = s" "us mod 1000000 = u"
  using assms by simp_all

section \<open>Properties\<close>





text \<open>
  \<^bold>\<open>C7\<close>. Bytes are neither lost nor invented, whenever the program is looked at: what was
  written but not read is on the wire, the echo never gets ahead of what was received, and
  no more than the burst is ever written.
\<close>

theorem bug_conserves_bytes:
  assumes "tcp_kernel K cfd afd rx shut" and "start_ok lfd cfd afd rx shut k"
    and "conforming K epfd lfd cfd k rs"
    and "program K epfd lfd cfd k rs = returns (ret, w)"
  shows "uint (trlen1 (ep w)) + int (rx (kern w) cfd) = uint (twlen1 (ep w)) \<and>
    uint (trlen2 (ep w)) + int (rx (kern w) afd) = uint (twlen2 (ep w)) \<and>
    twlen2 (ep w) \<le> trlen1 (ep w) \<and> uint (twlen1 (ep w)) \<le> burst_size"
proof -
  obtain l ci co ai ao where I: "flags_inv lfd cfd afd rx shut l ci co ai ao w"
    using program_ok [OF assms(1-3)] assms(4) by (auto simp: loop_inv_def)
  note B = flags_invD(5) [OF I, unfolded byte_inv_def]
  have "int (unat (trlen1 (ep w))) + int (rx (kern w) cfd) = int (unat (twlen1 (ep w)))"
    "int (unat (trlen2 (ep w))) + int (rx (kern w) afd) = int (unat (twlen2 (ep w)))"
    "int (unat (twlen1 (ep w))) \<le> 10000000"
    using B by linarith+
  with B show ?thesis by (simp add: word_le_nat_alt burst_size_def)
qed

theorem bug_conserves_bytes_witness:
  "\<exists>w. program wire_kernel 4 5 6 ((\<lambda>_. 0), {}) full_run = returns (True, w) \<and>
     uint (trlen1 (ep w)) + int (fst (kern w) 6) = uint (twlen1 (ep w)) \<and> twlen1 (ep w) = 10000000"
  using bug_conserves_bytes [OF wire_kernel_tcp wire_start full_run_conforming full_run_result]
    full_run_result
  by (intro exI conjI) (assumption, simp_all)

text \<open>
  \<^bold>\<open>C16\<close>. \<^verbatim>\<open>watched_count\<close> is the number of events watched over all the sockets, at most one
  \<^verbatim>\<open>AcceptSocket\<close> is ever allocated, and every watched event has a handler.
\<close>

theorem bug_watched_count:
  assumes "tcp_kernel K cfd afd rx shut" and "start_ok lfd cfd afd rx shut k"
    and "conforming K epfd lfd cfd k rs"
    and "program K epfd lfd cfd k rs = returns (ret, w)"
  shows "watched_count (ep w) =
      (\<Sum>ob\<leftarrow>[OListen, OClient, OAccept 0].
         case objs w ob of None \<Rightarrow> 0 | Some e \<Rightarrow> count_events (watched_events e)) \<and>
    dom (objs w) \<subseteq> {OListen, OClient, OAccept 0} \<and>
    (\<forall>ob e. objs w ob = Some e \<longrightarrow>
       (watched_events e AND EPOLLIN \<noteq> 0 \<longrightarrow> read_event e \<noteq> None) \<and>
       (watched_events e AND EPOLLOUT \<noteq> 0 \<longrightarrow> write_event e \<noteq> None))"
proof -
  obtain l ci co ai ao where I: "flags_inv lfd cfd afd rx shut l ci co ai ao w"
    using program_ok [OF assms(1-3)] assms(4) by (auto simp: loop_inv_def)
  have o: "objs w = store lfd cfd afd l ci co ai ao" by (rule flags_invD(1) [OF I])
  have "watched_count (ep w) =
      (\<Sum>ob\<leftarrow>[OListen, OClient, OAccept 0].
         case objs w ob of None \<Rightarrow> 0 | Some e \<Rightarrow> count_events (watched_events e))"
    using flags_invD(3,4) [OF I] by (simp add: o)
  moreover have "dom (objs w) \<subseteq> {OListen, OClient, OAccept 0}"
    by (auto simp: o store_def split: obj.splits if_splits)
  moreover have "\<forall>ob e. objs w ob = Some e \<longrightarrow>
      (watched_events e AND EPOLLIN \<noteq> 0 \<longrightarrow> read_event e \<noteq> None) \<and>
      (watched_events e AND EPOLLOUT \<noteq> 0 \<longrightarrow> write_event e \<noteq> None)"
    by (auto simp: o store_def obj_defs split: obj.splits if_splits)
  ultimately show ?thesis by blast
qed

theorem bug_watched_count_witness:
  "\<exists>w. program wire_kernel 4 5 6 ((\<lambda>_. 0), {}) full_run = returns (True, w) \<and>
     watched_count (ep w) = 0 \<and> dom (objs w) \<subseteq> {OListen, OClient, OAccept 0}"
  using bug_watched_count [OF wire_kernel_tcp wire_start full_run_conforming full_run_result]
    full_run_result
  by (intro exI conjI) (assumption, simp_all)



text \<open>
  The time spent in \<^verbatim>\<open>epoll_wait\<close> and its classification: for normalised clock
  readings the difference is normalised and exact, and the verdict depends on the elapsed
  microseconds as stated; in particular a wait of 1.000 to 1.010 seconds counts as no stall.
\<close>

lemma stall_classification:
  assumes "0 \<le> tv_usec tv1" "tv_usec tv1 < 1000000" "0 \<le> tv_usec tv2" "tv_usec tv2 < 1000000"
    and "us = (tv_sec tv2 - tv_sec tv1) * 1000000 + (tv_usec tv2 - tv_usec tv1)" and "0 \<le> us"
  shows "timeval_diff tv1 tv2 = \<lparr>tv_sec = us div 1000000, tv_usec = us mod 1000000\<rparr> \<and>
    classify_stall (timeval_diff tv1 tv2) =
      (if us mod 1000000 \<le> 10000 then NoStall
       else if us < 1000000 then Stalled (us div 1000) else BlockedPermanently)"
proof -
  let ?s = "tv_sec tv2 - tv_sec tv1" and ?u = "tv_usec tv2 - tv_usec tv1"
  have diff: "timeval_diff tv1 tv2 = \<lparr>tv_sec = us div 1000000, tv_usec = us mod 1000000\<rparr>"
  proof (cases "?u < 0")
    case True
    have "us = (?u + 1000000) + (?s - 1) * 1000000" using assms(5) by (simp add: algebra_simps)
    moreover have "0 \<le> ?u + 1000000" "?u + 1000000 < 1000000" using True assms(1-4) by linarith+
    ultimately have "us div 1000000 = ?s - 1" "us mod 1000000 = ?u + 1000000"
      by (rule usec_split)+
    then show ?thesis using True by (simp add: timeval_diff_def Let_def)
  next
    case False
    have "us = ?u + ?s * 1000000" using assms(5) by (simp add: algebra_simps)
    moreover have "0 \<le> ?u" "?u < 1000000" using False assms(1-4) by linarith+
    ultimately have "us div 1000000 = ?s" "us mod 1000000 = ?u"
      by (rule usec_split)+
    then show ?thesis using False by (simp add: timeval_diff_def Let_def)
  qed
  have "us mod 1000000 = us" "us div 1000000 = 0" if "us < 1000000"
    using that assms(6) by simp_all
  moreover have "us div 1000000 \<noteq> 0" if "\<not> us < 1000000"
    using that by linarith
  ultimately show ?thesis
    by (simp add: diff classify_stall_def)
qed

text \<open>
  An error of \<^verbatim>\<open>epoll_wait\<close> is fatal: the result -1 (\<^verbatim>\<open>EINTR\<close>, say) is used as the
  loop count, and the round leaves the array of events at once, in every state.
\<close>

lemma wait_error_faults:
  assumes "wait_n r < 0"
    and "classify_stall (timeval_diff (wait_tv1 r) (wait_tv2 r)) \<noteq> BlockedPermanently"
  shows "mainloop_rounds K (r # rs) w = faults OutOfBounds"
  using assms by (simp add: mainloop_round_def handle_events.simps)

lemma wait_error_faults_example:
  "mainloop_rounds wire_kernel [(quick [])\<lparr>wait_n := -1\<rparr>]
     (snap True True False False False 2 0 0 0 0 ((\<lambda>_. 0), {})) = faults OutOfBounds"
  by (rule wait_error_faults) (simp_all add: quick_def timeval_diff_def classify_stall_def)

end
