(* ===== verification/EpollBugStall.thy ===== *)
theory EpollBugStall
  imports EpollBugProps
begin

text \<open>
  What becomes of \<^verbatim>\<open>src/epoll_bug.c\<close> after one \<^verbatim>\<open>write\<close> of the client that takes nothing:
  \<^verbatim>\<open>EPOLLOUT\<close> of the client is unwatched while there is something to echo, and only an empty
  echo buffer makes the code watch it again. So the echo is over for good.
\<close>

section \<open>What events of the other sockets leave alone\<close>

definition quiet :: "'k world \<Rightarrow> 'k world \<Rightarrow> bool" where
  "quiet w w' \<longleftrightarrow>
     twlen2 (ep w') = twlen2 (ep w) \<and> trlen1 (ep w') = trlen1 (ep w) \<and> objs w' OClient = objs w OClient"

lemma quiet_trans: "quiet w w' \<Longrightarrow> quiet w' w'' \<Longrightarrow> quiet w w''"
  by (simp add: quiet_def)

lemma Epoll_add_quiet:
  "Epoll_add K ob ev w = returns w' \<Longrightarrow> ob \<noteq> OClient \<Longrightarrow> quiet w w'"
  by (auto simp: Epoll_add_def add_events_def quiet_def Let_def split: option.splits sum.splits if_splits)

lemma Epoll_remove_quiet:
  "Epoll_remove K ob ev w = returns (b, w') \<Longrightarrow> ob \<noteq> OClient \<Longrightarrow>
   quiet w w' \<and> (\<forall>e. objs w ob = Some e \<longrightarrow> (\<exists>m. objs w' ob = Some (e\<lparr>watched_events := m\<rparr>)))"
  by (auto simp: Epoll_remove_def remove_events_def quiet_def Let_def split: option.splits sum.splits if_splits)

lemma AcceptSocket_quiet:
  "AcceptSocket_read_event K ob w = returns (b, w') \<Longrightarrow> quiet w w' \<and> objs w' = objs w"
  "AcceptSocket_write_event K ob w = returns (b, w') \<Longrightarrow> quiet w w' \<and> objs w' = objs w"
  by (auto simp: AcceptSocket_read_event_def AcceptSocket_write_event_def quiet_def Let_def
      split: option.splits sum.splits if_splits)

lemma ListenSocket_quiet:
  assumes "ListenSocket_read_event K ob w = returns (b, w')"
  shows "quiet w w'"
proof -
  obtain fd k w1 where "Epoll_add K (OAccept (allocated w)) (EPOLLIN OR EPOLLOUT) w1 = returns w'"
    and "quiet w w1"
    using assms
    by (auto simp: ListenSocket_read_event_def AcceptSocket_init_def add_socket_defs Let_def quiet_def
        split: option.splits prod.splits)
  then show ?thesis using Epoll_add_quiet quiet_trans by blast
qed

lemma dispatch_accept_quiet:
  assumes "dispatch K member ev (OAccept n, m) w = returns (r, w')"
    and "objs w (OAccept n) = Some eo" "member eo \<in> {Some AcceptRead, Some AcceptWrite}"
  shows "quiet w w' \<and> (\<exists>m. objs w' (OAccept n) = Some (eo\<lparr>watched_events := m\<rparr>))"
proof (cases "m AND ev = 0")
  case True
  with assms show ?thesis
    by (auto simp: dispatch_def quiet_def intro!: exI [of _ "watched_events eo"])
next
  case False
  obtain h where m: "member eo = Some h" "h \<in> {AcceptRead, AcceptWrite}"
    using assms(3) by auto
  obtain keep w1 where h: "call_handler K h (OAccept n) w = returns (keep, w1)"
    and rest: "(if keep then returns (False, w1)
      else and_then (Epoll_remove K (OAccept n) ev w1) (\<lambda>(more, w''). returns (\<not> more, w''))) =
      returns (r, w')"
    using False assms(1,2) m(1) by (auto simp: dispatch_def simp del: call_handler.simps)
  from h m(2) have q: "quiet w w1" "objs w1 = objs w" by (auto dest: AcceptSocket_quiet)
  show ?thesis
  proof (cases keep)
    case True
    with q rest assms(2) show ?thesis
      by (auto intro!: exI [of _ "watched_events eo"])
  next
    case False
    then obtain more where "Epoll_remove K (OAccept n) ev w1 = returns (more, w')"
      using rest by auto
    from Epoll_remove_quiet [OF this] q assms(2) show ?thesis
      by (auto intro: quiet_trans)
  qed
qed


section \<open>The stalled client\<close>

text \<open>
  The client waits for input only, while bytes are still to be echoed; \<open>n\<close> is what has been
  echoed so far.
\<close>

definition stalled ::
  "int \<Rightarrow> int \<Rightarrow> int \<Rightarrow> ('k \<Rightarrow> int \<Rightarrow> nat) \<Rightarrow> ('k \<Rightarrow> int set) \<Rightarrow> u64 \<Rightarrow> 'k world \<Rightarrow> bool" where
  "stalled lfd cfd afd rx shut n w \<longleftrightarrow>
     loop_inv lfd cfd afd rx shut w \<and> twlen2 (ep w) = n \<and> unat n < unat (trlen1 (ep w)) \<and>
     objs w OClient = Some (client_obj cfd True False)"

lemma stalled_quiet:
  "stalled lfd cfd afd rx shut n w \<Longrightarrow> loop_inv lfd cfd afd rx shut w' \<Longrightarrow> quiet w w' \<Longrightarrow>
   stalled lfd cfd afd rx shut n w'"
  by (simp add: stalled_def quiet_def)

lemma stalled_watched:
  assumes "stalled lfd cfd afd rx shut n w"
  shows "watched_count (ep w) \<noteq> 0"
proof -
  obtain l ci co ai ao where F: "flags_inv lfd cfd afd rx shut l ci co ai ao w"
    using assms by (auto simp: stalled_def loop_inv_def)
  have "ci" using assms flags_invD(1) [OF F] by (simp add: stalled_def client_obj_def)
  with flags_invD(4) [OF F] show ?thesis by (simp split: split_of_bool)
qed

lemma stalled_read:
  assumes T: "tcp_kernel K cfd afd rx shut" and S: "stalled lfd cfd afd rx shut n w"
    and h: "ClientSocket_read_event K OClient w = returns (keep, w')"
  shows "keep \<and> twlen2 (ep w') = n \<and> unat n < unat (trlen1 (ep w')) \<and>
    objs w' OClient = Some (client_obj cfd True False)"
proof -
  have S': "twlen2 (ep w) = n" "unat n < unat (trlen1 (ep w))"
    "objs w OClient = Some (client_obj cfd True False)"
    using S by (simp_all add: stalled_def)
  have "unat (trlen1 (ep w)) + rx (kern w) cfd < 2 ^ 64"
    using S by (auto simp: stalled_def loop_inv_def flags_inv_def byte_inv_def)
  from read_loop_returns [OF T this] obtain r tot k where
    "read_loop K cfd (trlen1 (ep w)) (kern w) = Some (Inr (r, tot, k))"
    "unat (trlen1 (ep w)) \<le> unat tot" by blast
  moreover have "trlen1 (ep w) - n \<noteq> 0" using S'(2) by auto
  ultimately show ?thesis
    using h S' by (auto simp: ClientSocket_read_event_def Let_def)
qed

lemma read_only:
  "m AND EPOLLOUT = 0 \<Longrightarrow> handle_event K (ob, m) w = returns (ret, w') \<Longrightarrow>
   dispatch K read_event EPOLLIN (ob, m) w = returns (ret, w')"
  by (auto simp: handle_event_def split: if_splits)

lemma stalled_event:
  assumes T: "tcp_kernel K cfd afd rx shut" and lfd: "lfd \<noteq> cfd"
    and S: "stalled lfd cfd afd rx shut n w" and R: "reported w (ob, m)"
    and h: "handle_event K (ob, m) w = returns (ret, w')"
  shows "stalled lfd cfd afd rx shut n w'"
proof -
  have I: "loop_inv lfd cfd afd rx shut w" using S by (simp add: stalled_def)
  then obtain l ci co ai ao where F: "flags_inv lfd cfd afd rx shut l ci co ai ao w"
    by (auto simp: loop_inv_def)
  note o = flags_invD(1) [OF F]
  have I': "loop_inv lfd cfd afd rx shut w'"
    using handle_event_ok [OF T lfd I R] h by (auto simp: event_ok_def)
  show ?thesis
  proof (cases ob)
    case OListen
    have "m AND EPOLLOUT = 0"
      using R reported_bits [of m l False] by (simp add: reported_store [OF o] OListen)
    from read_only [OF this] h OListen
    have d: "dispatch K read_event EPOLLIN (OListen, m) w = returns (ret, w')" by simp
    have "quiet w w'"
    proof (cases "m AND EPOLLIN = 0")
      case True
      with d show ?thesis by (simp add: quiet_def)
    next
      case False
      with d o obtain keep w1 where "ListenSocket_read_event K OListen w = returns (keep, w1)"
        and "(if keep then returns (False, w1)
          else and_then (Epoll_remove K OListen EPOLLIN w1) (\<lambda>(more, w''). returns (\<not> more, w''))) =
          returns (ret, w')"
        by (auto simp: dispatch_def)
      then show ?thesis
        using ListenSocket_quiet [of K OListen w keep w1] Epoll_remove_quiet [of K OListen EPOLLIN w1]
        by (auto split: if_splits intro: quiet_trans)
    qed
    with S I' show ?thesis by (rule stalled_quiet)
  next
    case OClient
    have co: "ci" "\<not> co" using S o by (auto simp: stalled_def client_obj_def)
    then have "m AND EPOLLOUT = 0"
      using R reported_bits [of m ci co] by (simp add: reported_store [OF o] OClient)
    from read_only [OF this] h OClient
    have d: "dispatch K read_event EPOLLIN (OClient, m) w = returns (ret, w')" by simp
    show ?thesis
    proof (cases "m AND EPOLLIN = 0")
      case True
      with d S show ?thesis by simp
    next
      case False
      with d o obtain keep w1 where r: "ClientSocket_read_event K OClient w = returns (keep, w1)"
        and "(if keep then returns (False, w1)
          else and_then (Epoll_remove K OClient EPOLLIN w1) (\<lambda>(more, w''). returns (\<not> more, w''))) =
          returns (ret, w')"
        by (auto simp: dispatch_def)
      with stalled_read [OF T S r] I' show ?thesis by (auto simp: stalled_def)
    qed
  next
    case (OAccept j)
    then have ob: "objs w (OAccept j) = Some (accept_obj afd ai ao)"
      using R by (simp add: o reported_store [OF o] store_def)
    obtain r1 w1 where one: "dispatch K read_event EPOLLIN (OAccept j, m) w = returns (r1, w1)"
      and two: "(if r1 then returns (True, w1)
        else and_then (dispatch K write_event EPOLLOUT (OAccept j, m) w1)
          (\<lambda>(r2, w''). if r2 then returns (True, w'')
             else if snd (OAccept j, m) AND NOT (EPOLLIN OR EPOLLOUT) \<noteq> 0 then faults AssertFailed
             else returns (False, w''))) = returns (ret, w')"
      using h OAccept by (auto simp: handle_event_def)
    obtain m1 where q1: "quiet w w1" and
      ob1: "objs w1 (OAccept j) = Some (accept_obj afd ai ao\<lparr>watched_events := m1\<rparr>)"
      using dispatch_accept_quiet [OF one ob] by auto
    have "quiet w w'"
    proof (cases r1)
      case True
      with two q1 show ?thesis by simp
    next
      case False
      with two obtain r2 where "dispatch K write_event EPOLLOUT (OAccept j, m) w1 = returns (r2, w')"
        by (auto split: if_splits)
      from dispatch_accept_quiet [OF this ob1] q1 show ?thesis
        by (auto simp: accept_obj_def intro: quiet_trans)
    qed
    with S I' show ?thesis by (rule stalled_quiet)
  qed
qed


lemma stalled_events:
  assumes T: "tcp_kernel K cfd afd rx shut" and lfd: "lfd \<noteq> cfd"
    and "k \<le> length events" "stalled lfd cfd afd rx shut n w"
    and "distinct (map fst (take k events))" "list_all (reported w) (take k events)"
    and "handle_events K events (int k) w = returns (ret, w')"
  shows "stalled lfd cfd afd rx shut n w' \<and> \<not> ret"
  using assms(3-)
proof (induction k arbitrary: w)
  case 0
  then show ?case by (simp add: handle_events.simps)
next
  case (Suc k)
  obtain ob m where event: "events ! k = (ob, m)" by (cases "events ! k")
  have take: "take (Suc k) events = take k events @ [(ob, m)]"
    using Suc.prems(1) event by (metis Suc_le_lessD take_Suc_conv_app_nth)
  have I: "loop_inv lfd cfd afd rx shut w" using Suc.prems(2) by (simp add: stalled_def)
  have R: "reported w (ob, m)" using Suc.prems(4) take by simp
  from handle_event_ok [OF T lfd I R] obtain ret1 w1 where
    one: "handle_event K (ob, m) w = returns (ret1, w1)" "ret1 \<longrightarrow> watched_count (ep w1) = 0"
    and keep: "\<forall>event. fst event \<noteq> ob \<and> reported w event \<longrightarrow> reported w1 event"
    unfolding event_ok_def by blast
  have S1: "stalled lfd cfd afd rx shut n w1"
    by (rule stalled_event [OF T lfd Suc.prems(2) R one(1)])
  with one(2) stalled_watched [OF S1] have "\<not> ret1" by blast
  with Suc.prems(1,5) one(1) event have rest: "handle_events K events (int k) w1 = returns (ret, w')"
    by (subst (asm) handle_events.simps) auto
  have "list_all (reported w1) (take k events)"
    by (rule reported_rest [OF keep]) (use Suc.prems(3,4) take in auto)
  moreover have "distinct (map fst (take k events))" using Suc.prems(3) take by simp
  ultimately show ?case using Suc.IH [OF _ S1 _ _ rest] Suc.prems(1) by simp
qed

lemma stalled_rounds:
  assumes T: "tcp_kernel K cfd afd rx shut" and lfd: "lfd \<noteq> cfd"
    and "stalled lfd cfd afd rx shut n w" "waits_ok K rs w"
    and "mainloop_rounds K rs w = returns (ret, w')"
  shows "stalled lfd cfd afd rx shut n w' \<and>
    (ret \<longrightarrow> (\<exists>r \<in> set rs. classify_stall (timeval_diff (wait_tv1 r) (wait_tv2 r)) = BlockedPermanently))"
  using assms(3-)
proof (induction rs arbitrary: w)
  case (Cons r rs)
  let ?blocked = "classify_stall (timeval_diff (wait_tv1 r) (wait_tv2 r)) = BlockedPermanently"
  show ?case
  proof (cases ?blocked)
    case True
    with Cons.prems show ?thesis by (auto simp: mainloop_round_def)
  next
    case False
    then have round: "mainloop_round K r w = handle_events K (wait_events r) (wait_n r) w"
      by (simp add: mainloop_round_def)
    obtain ret1 w1 where one: "mainloop_round K r w = returns (ret1, w1)"
      using Cons.prems(3) by auto
    have w: "wait_ok r w" using Cons.prems(2) by simp
    then have n: "int (nat (wait_n r)) = wait_n r" by (simp add: wait_ok_def)
    have "stalled lfd cfd afd rx shut n w1 \<and> \<not> ret1"
      using w one
      by (intro stalled_events [OF T lfd _ Cons.prems(1), of "nat (wait_n r)" "wait_events r"])
        (auto simp: wait_ok_def n round)
    with one Cons.prems(2,3) Cons.IH [of w1] show ?thesis by auto
  qed
qed auto

section \<open>The property\<close>

text \<open>
  \<^bold>\<open>C8\<close>. If one \<^verbatim>\<open>write\<close> of the client takes nothing (it may: \<^verbatim>\<open>EAGAIN\<close>), the program never
  echoes another byte and the main loop never ends by itself, whatever \<^verbatim>\<open>epoll_wait\<close>
  reports from then on.
\<close>

theorem client_echo_stalls:
  assumes "tcp_kernel K cfd afd rx shut" and "lfd \<noteq> cfd" and "loop_inv lfd cfd afd rx shut w"
    and "reported w (OClient, EPOLLOUT)"
    and "fst (k_write K cfd (nat (uint (trlen1 (ep w) - twlen2 (ep w)))) (kern w)) \<le> 0"
    and "handle_event K (OClient, EPOLLOUT) w = returns (b, w1)"
    and "waits_ok K rs w1"
    and "\<forall>r \<in> set rs. classify_stall (timeval_diff (wait_tv1 r) (wait_tv2 r)) \<noteq> BlockedPermanently"
  shows "\<not> b \<and> (\<exists>w'. mainloop_rounds K rs w1 = returns (False, w') \<and>
    twlen2 (ep w') = twlen2 (ep w) \<and> twlen2 (ep w') < trlen1 (ep w'))"
proof -
  obtain l ci co ai ao where F: "flags_inv lfd cfd afd rx shut l ci co ai ao w"
    using assms(3) by (auto simp: loop_inv_def)
  have co: "co" using assms(4) reported_bits(2) [of EPOLLOUT ci co]
    by (simp add: reported_store [OF flags_invD(1) [OF F]])
  have ci: "ci" and lt: "unat (twlen2 (ep w)) < unat (trlen1 (ep w))"
    and len: "unat (trlen1 (ep w)) \<le> 10000000"
    using flags_invD(5) [OF F] co by (auto simp: byte_inv_def)
  have pos: "trlen1 (ep w) - twlen2 (ep w) > 0" using lt by (simp add: minus_pos_unat)
  have "unat (trlen1 (ep w) - twlen2 (ep w)) = unat (trlen1 (ep w)) - unat (twlen2 (ep w))"
    using lt by (intro unat_sub) (simp add: word_le_nat_alt)
  then have "int (unat (trlen1 (ep w) - twlen2 (ep w))) \<le> 10000000"
    using len by linarith
  moreover obtain r k where
    wr: "k_write K cfd (nat (uint (trlen1 (ep w) - twlen2 (ep w)))) (kern w) = (r, k)"
    by fastforce
  ultimately have sys: "sys_write K cfd (uint (trlen1 (ep w) - twlen2 (ep w))) (kern w) = Inr (r, k)"
    "r \<le> 0"
    using assms(5) by (simp_all add: sys_write_def buf_size_def)
  let ?w = "w\<lparr>kern := k\<rparr>"
  have M: "mask_inv lfd cfd afd l ci co ai ao ?w" using F by (simp add: flags_inv_def mask_inv_def)
  obtain c k' where rem: "Epoll_remove K OClient EPOLLOUT ?w = returns (c \<noteq> 0,
      ?w\<lparr>ep := (ep ?w)\<lparr>watched_count := c\<rparr>, objs := store lfd cfd afd l True False ai ao, kern := k'\<rparr>)"
    "c = of_bool l + 1 + of_bool ai + of_bool ao"
    using remove_client [OF assms(1) M mk_mask_out] ci co by auto
  have "c \<noteq> 0" using rem(2) by (simp split: split_of_bool)
  then have "handle_event K (OClient, EPOLLOUT) w = returns (False,
      ?w\<lparr>ep := (ep ?w)\<lparr>watched_count := c\<rparr>, objs := store lfd cfd afd l True False ai ao, kern := k'\<rparr>)"
    using sys pos rem(1) flags_invD(1) [OF F]
    by (simp add: handle_event_def dispatch_def ClientSocket_write_event_def event_bit_defs)
  with assms(6) have b: "\<not> b" and w1: "w1 = ?w\<lparr>ep := (ep ?w)\<lparr>watched_count := c\<rparr>,
      objs := store lfd cfd afd l True False ai ao, kern := k'\<rparr>" by auto
  have "loop_inv lfd cfd afd rx shut w1"
    using handle_event_ok [OF assms(1-4)] assms(6) by (auto simp: event_ok_def)
  then have S: "stalled lfd cfd afd rx shut (twlen2 (ep w)) w1"
    using lt by (simp add: stalled_def w1)
  then obtain ret w' where run: "mainloop_rounds K rs w1 = returns (ret, w')"
    using mainloop_rounds_ok [OF assms(1,2) _ assms(7)] by (auto simp: stalled_def)
  from stalled_rounds [OF assms(1,2) S assms(7) run] assms(8) run b show ?thesis
    by (auto simp: stalled_def word_less_nat_alt)
qed


text \<open>A kernel whose client socket never takes a byte.\<close>

definition full_pipe :: "wire kernel" where
  "full_pipe = wire_kernel\<lparr>k_write := (\<lambda>fd len (rx, shut).
     if fd = 7 then (int len, rx(6 := rx 6 + len), shut) else (-1, rx, shut))\<rparr>"

lemma full_pipe_tcp: "tcp_kernel full_pipe 6 7 fst snd"
  using wire_kernel_tcp
  unfolding tcp_kernel_def tcp_read_law_def tcp_write_law_def full_pipe_def
  by (auto split: if_splits)

lemma full_pipe_sel:
  "k_write full_pipe 6 len (rx, shut) = (-1, rx, shut)"
  "k_ctl full_pipe fd c k = k"
  by (simp_all add: full_pipe_def wire_sel)

lemma full_pipe_step:
  "handle_event full_pipe (OClient, EPOLLOUT)
     (snap False True True True False 3 10000000 0 10000000 0 ((\<lambda>_. 0), {})) =
   returns (False, snap False True False True False 2 10000000 0 10000000 0 ((\<lambda>_. 0), {}))"
  by (simp add: snap_run ClientSocket_write_event_def snap_def count_events_def mk_mask_def
      sys_write_def buf_size_def full_pipe_sel obj_defs store_def fun_eq_iff
      event_bit_defs split: obj.split)

lemma waits_ok_one [simp]: "waits_ok K [r] w \<longleftrightarrow> wait_ok r w"
  by (auto split: option.splits sum.splits bool.splits)

theorem client_echo_stalls_witness:
  "\<exists>w'. mainloop_rounds full_pipe [quick [(OClient, EPOLLIN)]]
     (snap False True False True False 2 10000000 0 10000000 0 ((\<lambda>_. 0), {})) = returns (False, w') \<and>
   twlen2 (ep w') < trlen1 (ep w')"
proof -
  let ?w = "snap False True True True False 3 10000000 0 10000000 0 ((\<lambda>_. 0), {})"
  have "flags_inv 5 6 7 fst snd False True True True False ?w"
    by (simp add: flags_inv_def mask_inv_def byte_inv_def) (simp add: snap_def)
  then have inv: "loop_inv 5 6 7 fst snd ?w" unfolding loop_inv_def by blast
  have "\<forall>r \<in> set [quick [(OClient, EPOLLIN)]].
      classify_stall (timeval_diff (wait_tv1 r) (wait_tv2 r)) \<noteq> BlockedPermanently"
    by (simp add: quick_def timeval_diff_def classify_stall_def)
  with client_echo_stalls [OF full_pipe_tcp _ inv _ _ full_pipe_step,
      of "[quick [(OClient, EPOLLIN)]]"]
  show ?thesis
    by (simp add: snap_reported full_pipe_sel del: mainloop_rounds.simps waits_ok.simps) blast
qed

end
