(* ===== verification/Permuter.thy ===== *)
theory Permuter
  imports Prelude
begin

text \<open>
  \<^verbatim>\<open>thread_permuter::Thread\<close> of \<^verbatim>\<open>src/epoll_states.cxx\<close>: a main thread that drives a worker
  from check point to check point with one mutex and one condition variable. The operations
  are functions on the shared state; the step relation interleaves them. A section in which
  \<^verbatim>\<open>m_paused_mutex\<close> is held up to the next wait is one step, as no thread waits for anything
  else while it holds the mutex; what the code does outside the mutex is a step of its own.
\<close>

section \<open>State\<close>

datatype state_type = yielding | blocking | failed | finished

text \<open>
  Where the worker is: in \<^verbatim>\<open>run\<close> before its first pause, in \<^verbatim>\<open>m_test\<close>, in \<^verbatim>\<open>pause\<close> before the
  mutex is taken, in \<^verbatim>\<open>pause\<close> waiting for the condition, woken up but not yet in possession
  of the mutex, or returned from \<^verbatim>\<open>run\<close>.
\<close>

datatype worker_pc =
    NotCreated | Starting | Testing | Pausing state_type bool | Waiting state_type | Woken state_type | Exited

text \<open>Where the main thread is; \<open>InStart\<close> and \<open>InStep\<close> name the function that waits.\<close>

datatype caller = InStart | InStep

datatype main_pc = Idle | WaitPaused caller | WokenUp caller | Stopping | Signalling | Joining | Joined

record permuter =
  worker :: worker_pc
  main_thread :: main_pc
  m_paused :: bool
  m_state :: state_type
  m_last_permutation :: bool
  returned :: "state_type option"

text \<open>The constructor, before \<^verbatim>\<open>start\<close>. What the last \<^verbatim>\<open>step\<close> returned is kept in \<open>returned\<close>.\<close>

definition Thread_init :: permuter where
  "Thread_init =
     \<lparr>worker = NotCreated, main_thread = Idle, m_paused = False, m_state = yielding,
      m_last_permutation = False, returned = None\<rparr>"

section \<open>Operations\<close>

text \<open>
  \<^verbatim>\<open>notify_one\<close> wakes one of the threads that wait for the condition, if there is one. Both
  threads use the same condition variable, so the result need not be unique.
\<close>

definition notify_one :: "'a permuter_scheme \<Rightarrow> 'a permuter_scheme list" where
  "notify_one p =
     (case (worker p, main_thread p) of
        (Waiting s, WaitPaused c) \<Rightarrow> [p\<lparr>worker := Woken s\<rparr>, p\<lparr>main_thread := WokenUp c\<rparr>]
      | (Waiting s, _) \<Rightarrow> [p\<lparr>worker := Woken s\<rparr>]
      | (_, WaitPaused c) \<Rightarrow> [p\<lparr>main_thread := WokenUp c\<rparr>]
      | _ \<Rightarrow> [p])"

text \<open>
  \<^verbatim>\<open>start\<close>: take the mutex, create the worker, wait until it is paused; and \<^verbatim>\<open>run\<close>, which
  begins with \<^verbatim>\<open>pause(yielding)\<close>.
\<close>

definition wait_paused :: "caller \<Rightarrow> 'a permuter_scheme \<Rightarrow> 'a permuter_scheme" where
  "wait_paused c p =
     (if m_paused p
      then p\<lparr>main_thread := Idle,
             returned := (case c of InStart \<Rightarrow> returned p | InStep \<Rightarrow> Some (m_state p))\<rparr>
      else p\<lparr>main_thread := WaitPaused c\<rparr>)"

definition start :: "'a permuter_scheme \<Rightarrow> 'a permuter_scheme" where
  "start p = wait_paused InStart (p\<lparr>worker := Starting\<rparr>)"

text \<open>\<^verbatim>\<open>pause\<close> up to the mutex, and its critical section up to the wait or the return.\<close>

definition pause_call :: "state_type \<Rightarrow> bool \<Rightarrow> 'a permuter_scheme \<Rightarrow> 'a permuter_scheme" where
  "pause_call s no_wait p = p\<lparr>m_state := s, worker := Pausing s no_wait\<rparr>"

definition wait_not_paused :: "state_type \<Rightarrow> 'a permuter_scheme \<Rightarrow> 'a permuter_scheme" where
  "wait_not_paused s p = p\<lparr>worker := (if m_paused p then Waiting s else Testing)\<rparr>"

definition pause_section :: "state_type \<Rightarrow> bool \<Rightarrow> 'a permuter_scheme \<Rightarrow> 'a permuter_scheme list" where
  "pause_section s no_wait p =
     map (\<lambda>q. if no_wait then q\<lparr>worker := Testing\<rparr> else wait_not_paused s q)
       (notify_one (p\<lparr>m_paused := True\<rparr>))"

text \<open>\<^verbatim>\<open>step\<close> up to its wait; \<open>wait_paused InStep\<close> is the rest.\<close>

definition step_section :: "'a permuter_scheme \<Rightarrow> 'a permuter_scheme list" where
  "step_section p = map (wait_paused InStep) (notify_one (p\<lparr>m_paused := False\<rparr>))"

text \<open>
  \<^verbatim>\<open>stop\<close>: the flag, then the critical section, then \<^verbatim>\<open>wakeup\<close> and the join. A signal has no
  effect on the state of this class; what it does to a system call of the test is left to
  the test.
\<close>

definition stop_call :: "'a permuter_scheme \<Rightarrow> 'a permuter_scheme" where
  "stop_call p = p\<lparr>m_last_permutation := True, main_thread := Stopping\<rparr>"

definition stop_section :: "'a permuter_scheme \<Rightarrow> 'a permuter_scheme list" where
  "stop_section p = map (\<lambda>q. q\<lparr>main_thread := Signalling\<rparr>) (notify_one (p\<lparr>m_paused := False\<rparr>))"

section \<open>Interleaving\<close>

text \<open>
  The steps that do not depend on what \<^verbatim>\<open>m_test\<close> does. A waiting thread may also wake up
  spuriously; it checks the predicate again in any case.
\<close>

inductive sync_step :: "'a permuter_scheme \<Rightarrow> 'a permuter_scheme \<Rightarrow> bool" where
  start: "main_thread p = Idle \<Longrightarrow> worker p = NotCreated \<Longrightarrow> sync_step p (start p)"
| first_pause: "worker p = Starting \<Longrightarrow> sync_step p (pause_call yielding False p)"
| pause: "worker p = Pausing s no_wait \<Longrightarrow> q \<in> set (pause_section s no_wait p) \<Longrightarrow> sync_step p q"
| recheck: "worker p = Woken s \<Longrightarrow> sync_step p (wait_not_paused s p)"
| spurious: "worker p = Waiting s \<Longrightarrow> sync_step p (p\<lparr>worker := Woken s\<rparr>)"
| main_recheck: "main_thread p = WokenUp c \<Longrightarrow> sync_step p (wait_paused c p)"
| main_spurious: "main_thread p = WaitPaused c \<Longrightarrow> sync_step p (p\<lparr>main_thread := WokenUp c\<rparr>)"
| step: "main_thread p = Idle \<Longrightarrow> worker p \<noteq> NotCreated \<Longrightarrow> q \<in> set (step_section p) \<Longrightarrow> sync_step p q"
| stop: "main_thread p = Idle \<Longrightarrow> worker p \<noteq> NotCreated \<Longrightarrow> sync_step p (stop_call p)"
| stop_section: "main_thread p = Stopping \<Longrightarrow> q \<in> set (stop_section p) \<Longrightarrow> sync_step p q"
| join: "main_thread p = Joining \<Longrightarrow> worker p = Exited \<Longrightarrow> sync_step p (p\<lparr>main_thread := Joined\<rparr>)"

text \<open>
  The steps of \<^verbatim>\<open>m_test\<close>, for any test: it pauses through \<^verbatim>\<open>yield\<close>, \<^verbatim>\<open>blocked\<close> or \<^verbatim>\<open>fail\<close>, or
  it returns, which ends \<^verbatim>\<open>run\<close>. \<open>nw\<close> says whether the test uses the \<^verbatim>\<open>no_wait\<close> argument of
  \<^verbatim>\<open>pause\<close>, which the three functions do not.
\<close>

inductive thread_step :: "bool \<Rightarrow> 'a permuter_scheme \<Rightarrow> 'a permuter_scheme \<Rightarrow> bool" for nw where
  sync: "sync_step p q \<Longrightarrow> thread_step nw p q"
| test_pause: "worker p = Testing \<Longrightarrow> s \<noteq> finished \<Longrightarrow> (no_wait \<longrightarrow> nw) \<Longrightarrow>
    thread_step nw p (pause_call s no_wait p)"
| wakeup: "main_thread p = Signalling \<Longrightarrow> thread_step nw p (p\<lparr>main_thread := Joining\<rparr>)"
| test_return: "worker p = Testing \<Longrightarrow> thread_step nw p (p\<lparr>worker := Exited\<rparr>)"

definition thread_reachable :: "bool \<Rightarrow> permuter \<Rightarrow> bool" where
  "thread_reachable nw = (thread_step nw)\<^sup>*\<^sup>* Thread_init"

inductive_cases sync_stepE [elim]: "sync_step p q"
inductive_cases thread_stepE [elim]: "thread_step nw p q"

section \<open>The handshake\<close>

lemmas thread_op_defs =
  start_def wait_paused_def pause_call_def wait_not_paused_def pause_section_def
  step_section_def stop_call_def stop_section_def notify_one_def

text \<open>
  The worker waits for the condition only while \<^verbatim>\<open>m_paused\<close> is set and the main thread only
  while it is not, so the two never wait at the same time.
\<close>

definition handshake :: "'a permuter_scheme \<Rightarrow> bool" where
  "handshake p \<longleftrightarrow>
     ((\<exists>s. worker p = Waiting s) \<longrightarrow> m_paused p) \<and>
     ((\<exists>c. main_thread p = WaitPaused c) \<longrightarrow> \<not> m_paused p) \<and>
     (worker p = NotCreated \<longrightarrow> main_thread p = Idle \<and> \<not> m_paused p) \<and>
     (worker p = Starting \<longrightarrow> \<not> m_paused p) \<and>
     m_state p \<noteq> finished \<and> returned p \<noteq> Some finished \<and>
     (\<forall>nw. worker p \<noteq> Pausing finished nw)"

lemma handshake_init: "handshake Thread_init"
  by (simp add: handshake_def Thread_init_def)

lemma handshake_sync: "sync_step p q \<Longrightarrow> handshake p \<Longrightarrow> handshake q"
  by (erule sync_stepE)
    (auto simp: handshake_def thread_op_defs split: worker_pc.splits main_pc.splits caller.splits if_splits)

lemma handshake_step: "thread_step nw p q \<Longrightarrow> handshake p \<Longrightarrow> handshake q"
  by (erule thread_stepE) (auto simp: handshake_sync, auto simp: handshake_def pause_call_def)

lemma handshake_reachable: "thread_reachable nw p \<Longrightarrow> handshake p"
  unfolding thread_reachable_def
  by (induction rule: rtranclp_induct) (auto intro: handshake_init handshake_step)


section \<open>Alternation\<close>

text \<open>
  Without \<^verbatim>\<open>no_wait\<close>, the worker stands still in \<^verbatim>\<open>pause\<close> whenever \<^verbatim>\<open>m_paused\<close> is set, and
  \<^verbatim>\<open>m_state\<close> is what that pause was called with.
\<close>

definition alternating :: "'a permuter_scheme \<Rightarrow> bool" where
  "alternating p \<longleftrightarrow>
     (m_paused p \<longrightarrow> worker p \<in> {Waiting (m_state p), Woken (m_state p)}) \<and>
     (\<forall>s nw. worker p = Pausing s nw \<longrightarrow> m_state p = s \<and> \<not> nw \<and> \<not> m_paused p) \<and>
     (main_thread p = Idle \<and> worker p \<noteq> NotCreated \<longrightarrow> m_paused p) \<and>
     (main_thread p \<in> {WaitPaused InStart, WokenUp InStart} \<or> worker p = NotCreated \<longrightarrow> returned p = None) \<and>
     (main_thread p = Idle \<and> returned p \<noteq> None \<longrightarrow> returned p = Some (m_state p))"

lemma alternating_init: "alternating Thread_init"
  by (simp add: alternating_def Thread_init_def)

lemma alternating_sync: "sync_step p q \<Longrightarrow> handshake p \<Longrightarrow> alternating p \<Longrightarrow> alternating q"
  by (erule sync_stepE)
    (auto simp: handshake_def alternating_def thread_op_defs
      split: worker_pc.splits main_pc.splits caller.splits if_splits)

lemma alternating_step:
  "thread_step False p q \<Longrightarrow> handshake p \<Longrightarrow> alternating p \<Longrightarrow> alternating q"
  by (erule thread_stepE) (auto simp: alternating_sync, auto simp: alternating_def pause_call_def)

lemma alternating_reachable: "thread_reachable False p \<Longrightarrow> handshake p \<and> alternating p"
  unfolding thread_reachable_def
  by (induction rule: rtranclp_induct)
    (auto intro: handshake_init alternating_init handshake_step alternating_step)

section \<open>When a call returns\<close>

lemma steps_trans: "thread_step nw p q \<Longrightarrow> (thread_step nw)\<^sup>*\<^sup>* q r \<Longrightarrow> (thread_step nw)\<^sup>*\<^sup>* p r"
  by (rule converse_rtranclp_into_rtranclp)

lemma returns_when_paused:
  assumes "main_thread p = WokenUp c" "m_paused p"
  shows "\<exists>q. (thread_step nw)\<^sup>*\<^sup>* p q \<and> main_thread q = Idle"
proof -
  have "thread_step nw p (wait_paused c p)"
    using assms(1) by (intro thread_step.sync sync_step.main_recheck)
  moreover have "main_thread (wait_paused c p) = Idle" using assms(2) by (simp add: wait_paused_def)
  ultimately show ?thesis by blast
qed

lemma returns_when_pausing:
  assumes "handshake p" "main_thread p \<in> {WaitPaused c, WokenUp c}" "worker p = Pausing s no_wait"
  shows "\<exists>q. (thread_step nw)\<^sup>*\<^sup>* p q \<and> main_thread q = Idle"
proof -
  obtain q where q: "q \<in> set (pause_section s no_wait p)" "main_thread q = WokenUp c" "m_paused q"
    using assms(2,3) by (cases no_wait) (auto simp: pause_section_def notify_one_def wait_not_paused_def)
  then have "thread_step nw p q" using assms(3) by (intro thread_step.sync sync_step.pause)
  with returns_when_paused [OF q(2,3), of nw] steps_trans show ?thesis by blast
qed

lemma returns_when_testing:
  assumes "handshake p" "main_thread p \<in> {WaitPaused c, WokenUp c}" "worker p = Testing"
  shows "\<exists>q. (thread_step nw)\<^sup>*\<^sup>* p q \<and> main_thread q = Idle"
proof -
  have s: "thread_step nw p (pause_call yielding False p)"
    using assms(3) by (intro thread_step.test_pause) auto
  from returns_when_pausing [OF handshake_step [OF s assms(1)], of c yielding False nw] assms(2)
    steps_trans [OF s] show ?thesis by (auto simp: pause_call_def)
qed

lemma returns_possible:
  assumes H: "handshake p" and main: "main_thread p \<in> {WaitPaused c, WokenUp c}"
    and live: "worker p \<noteq> Exited \<or> m_paused p"
  shows "\<exists>q. (thread_step nw)\<^sup>*\<^sup>* p q \<and> main_thread q = Idle"
proof (cases "m_paused p")
  case True
  then have "main_thread p = WokenUp c" using H main by (auto simp: handshake_def)
  with True returns_when_paused show ?thesis by blast
next
  case False
  show ?thesis
  proof (cases "worker p")
    case NotCreated
    then show ?thesis using H main by (auto simp: handshake_def)
  next
    case Starting
    then have s: "thread_step nw p (pause_call yielding False p)"
      by (intro thread_step.sync sync_step.first_pause)
    from returns_when_pausing [OF handshake_step [OF s H], of c yielding False nw] main
      steps_trans [OF s] show ?thesis by (auto simp: pause_call_def)
  next
    case Testing
    then show ?thesis using H main returns_when_testing by blast
  next
    case (Pausing s no_wait)
    then show ?thesis using H main returns_when_pausing by blast
  next
    case (Waiting s)
    then show ?thesis using H False by (auto simp: handshake_def)
  next
    case (Woken s)
    then have s: "thread_step nw p (wait_not_paused s p)"
      by (intro thread_step.sync sync_step.recheck)
    from returns_when_testing [OF handshake_step [OF s H], of c nw] main False
      steps_trans [OF s] show ?thesis by (auto simp: wait_not_paused_def)
  next
    case Exited
    with live False show ?thesis by simp
  qed
qed

definition hung :: "'a permuter_scheme \<Rightarrow> bool" where
  "hung p \<longleftrightarrow> worker p = Exited \<and> \<not> m_paused p \<and> (\<exists>c. main_thread p \<in> {WaitPaused c, WokenUp c})"

lemma hung_step: "thread_step nw p q \<Longrightarrow> hung p \<Longrightarrow> hung q"
  by (erule thread_stepE) (auto simp: hung_def wait_paused_def elim!: sync_stepE)

section \<open>Two runs\<close>

text \<open>
  The worker is started, stepped, and either pauses with \<^verbatim>\<open>blocked\<close>, or returns from its test.
\<close>

definition pst :: "worker_pc \<Rightarrow> main_pc \<Rightarrow> bool \<Rightarrow> state_type \<Rightarrow> state_type option \<Rightarrow> permuter" where
  "pst w m pa st ret =
     \<lparr>worker = w, main_thread = m, m_paused = pa, m_state = st, m_last_permutation = False, returned = ret\<rparr>"

lemma reachable_step: "thread_reachable nw p \<Longrightarrow> thread_step nw p q \<Longrightarrow> thread_reachable nw q"
  unfolding thread_reachable_def by (rule rtranclp.rtrancl_into_rtrancl)

lemma reachable_init: "thread_reachable nw (pst NotCreated Idle False yielding None)"
  by (simp add: thread_reachable_def pst_def Thread_init_def)

lemma reachable_started: "thread_reachable nw (pst (Waiting yielding) Idle True yielding None)"
proof -
  have 1: "thread_reachable nw (pst Starting (WaitPaused InStart) False yielding None)"
    using reachable_step [OF reachable_init thread_step.sync [OF sync_step.start]]
    by (simp add: pst_def start_def wait_paused_def)
  have 2: "thread_reachable nw (pst (Pausing yielding False) (WaitPaused InStart) False yielding None)"
    using reachable_step [OF 1 thread_step.sync [OF sync_step.first_pause]]
    by (simp add: pst_def pause_call_def)
  have 3: "thread_reachable nw (pst (Waiting yielding) (WokenUp InStart) True yielding None)"
    by (rule reachable_step [OF 2 thread_step.sync [OF sync_step.pause [of _ yielding False]]])
      (simp_all add: pst_def pause_section_def notify_one_def wait_not_paused_def)
  show ?thesis
    using reachable_step [OF 3 thread_step.sync [OF sync_step.main_recheck]]
    by (simp add: pst_def wait_paused_def)
qed

lemma reachable_testing: "thread_reachable nw (pst Testing (WaitPaused InStep) False yielding None)"
proof -
  have "thread_reachable nw (pst (Woken yielding) (WaitPaused InStep) False yielding None)"
    by (rule reachable_step [OF reachable_started thread_step.sync [OF sync_step.step]])
      (simp_all add: pst_def step_section_def notify_one_def wait_paused_def)
  from reachable_step [OF this thread_step.sync [OF sync_step.recheck]] show ?thesis
    by (simp add: pst_def wait_not_paused_def)
qed

lemma reachable_blocked: "thread_reachable nw (pst (Waiting blocking) Idle True blocking (Some blocking))"
proof -
  have 1: "thread_reachable nw (pst (Pausing blocking False) (WaitPaused InStep) False blocking None)"
    using reachable_step [OF reachable_testing thread_step.test_pause [of _ blocking False]]
    by (simp add: pst_def pause_call_def)
  have 2: "thread_reachable nw (pst (Waiting blocking) (WokenUp InStep) True blocking None)"
    by (rule reachable_step [OF 1 thread_step.sync [OF sync_step.pause [of _ blocking False]]])
      (simp_all add: pst_def pause_section_def notify_one_def wait_not_paused_def)
  show ?thesis
    using reachable_step [OF 2 thread_step.sync [OF sync_step.main_recheck]]
    by (simp add: pst_def wait_paused_def)
qed

lemma reachable_exited: "thread_reachable nw (pst Exited (WaitPaused InStep) False yielding None)"
  using reachable_step [OF reachable_testing thread_step.test_return] by (simp add: pst_def)

section \<open>Properties\<close>

text \<open>
  \<^bold>\<open>C19\<close>. No wake-up is lost: in every reachable state, whatever the test does and with
  spurious wake-ups, \<^verbatim>\<open>notify_one\<close> has at most one thread to choose from, and a thread that
  sleeps is one whose predicate is false.
\<close>

theorem no_lost_wakeup:
  assumes "thread_reachable nw p"
  shows "length (notify_one p) = 1 \<and>
    (\<forall>s. worker p = Waiting s \<longrightarrow> m_paused p) \<and>
    (\<forall>c. main_thread p = WaitPaused c \<longrightarrow> \<not> m_paused p)"
  using handshake_reachable [OF assms]
  by (auto simp: handshake_def notify_one_def split: worker_pc.split main_pc.split)

theorem no_lost_wakeup_witness:
  "length (notify_one (pst (Waiting blocking) Idle True blocking (Some blocking))) = 1"
  using no_lost_wakeup [OF reachable_blocked] by simp



text \<open>
  \<^bold>\<open>C18\<close>. A call of \<^verbatim>\<open>step\<close> or \<^verbatim>\<open>start\<close> can return exactly if the worker paused, or has not
  yet returned from \<^verbatim>\<open>m_test\<close>. If the test returns during a \<^verbatim>\<open>step\<close>, nothing sets
  \<^verbatim>\<open>m_paused\<close> again and the call hangs: \<open>finished\<close> is never reported.
\<close>

theorem step_returns_iff:
  assumes "thread_reachable nw p" and "main_thread p \<in> {WaitPaused c, WokenUp c}"
  shows "(\<exists>q. (thread_step nw)\<^sup>*\<^sup>* p q \<and> main_thread q = Idle) \<longleftrightarrow> worker p \<noteq> Exited \<or> m_paused p"
proof
  assume "\<exists>q. (thread_step nw)\<^sup>*\<^sup>* p q \<and> main_thread q = Idle"
  then obtain q where q: "(thread_step nw)\<^sup>*\<^sup>* p q" "main_thread q = Idle" by blast
  have "hung p \<longrightarrow> hung q" using q(1) by (induction rule: rtranclp_induct) (auto intro: hung_step)
  with q(2) assms(2) show "worker p \<noteq> Exited \<or> m_paused p" by (auto simp: hung_def)
qed (use returns_possible [OF handshake_reachable [OF assms(1)] assms(2)] in blast)

theorem step_returns_iff_witness:
  "\<not> (\<exists>q. (thread_step False)\<^sup>*\<^sup>* (pst Exited (WaitPaused InStep) False yielding None) q \<and>
     main_thread q = Idle) \<and>
   (\<exists>q. (thread_step False)\<^sup>*\<^sup>* (pst Testing (WaitPaused InStep) False yielding None) q \<and>
     main_thread q = Idle)"
  using step_returns_iff [OF reachable_exited, of InStep False] step_returns_iff [OF reachable_testing, of InStep False]
  by (simp add: pst_def)

end
