(* ===== verification/EpollThread.thy ===== *)
theory EpollThread
  imports Permuter
begin

text \<open>
  \<^verbatim>\<open>EpollThread\<close> of \<^verbatim>\<open>src/epoll_states.cxx\<close>: a \<^verbatim>\<open>Thread\<close> whose test is an event loop around
  \<^verbatim>\<open>epoll_wait\<close>. What \<^verbatim>\<open>epoll_wait\<close> returns, and when, is up to the environment. The loop
  refines the arbitrary test of \<open>Permuter\<close>; the properties say when \<^verbatim>\<open>stop\<close> comes back.
\<close>

section \<open>State and operations\<close>

text \<open>
  Where \<^verbatim>\<open>event_loop\<close> is, or continues after the pause it is in: at the test of the outer
  loop, at the beginning of the inner loop with a value of \<^verbatim>\<open>timeout\<close>, in \<^verbatim>\<open>epoll_wait\<close> with a
  timeout and possibly interrupted by a signal, after the inner loop with an event, or after
  the first of the two pauses.
\<close>

datatype loop_pc = LoopTest | DoBody int | InEpollWait int bool | GotEvent | AfterPause

record epoll_thread = permuter +
  loop_pc :: loop_pc
  m_enter_epoll_wait :: bool
  m_wait_for_returned_from_epoll_wait :: bool

definition EpollThread_init :: epoll_thread where
  "EpollThread_init =
     permuter.extend Thread_init
       \<lparr>loop_pc = LoopTest, m_enter_epoll_wait = False, m_wait_for_returned_from_epoll_wait = False\<rparr>"

text \<open>
  The pieces of \<^verbatim>\<open>event_loop\<close> between accesses to shared state. \<^verbatim>\<open>ready\<close> is the value of
  \<^verbatim>\<open>epoll_wait\<close>: 0 after a timeout, -1 after a signal.
\<close>

definition loop_test :: "epoll_thread \<Rightarrow> epoll_thread" where
  "loop_test e = (if m_last_permutation e then e\<lparr>worker := Exited\<rparr> else e\<lparr>loop_pc := DoBody 1\<rparr>)"

definition do_body :: "int \<Rightarrow> epoll_thread \<Rightarrow> epoll_thread" where
  "do_body timeout e =
     (if timeout = -1 then pause_call blocking True (e\<lparr>loop_pc := InEpollWait 1 False\<rparr>)
      else e\<lparr>loop_pc := InEpollWait timeout False\<rparr>)"

definition epoll_wait_returns :: "int \<Rightarrow> epoll_thread \<Rightarrow> epoll_thread" where
  "epoll_wait_returns ready e =
     (if ready = 0 then e\<lparr>loop_pc := DoBody (-1)\<rparr>
      else if ready = -1 then e\<lparr>loop_pc := LoopTest\<rparr>
      else e\<lparr>loop_pc := GotEvent\<rparr>)"

definition got_event :: "epoll_thread \<Rightarrow> epoll_thread" where
  "got_event e =
     (if \<not> m_last_permutation e then pause_call yielding False (e\<lparr>loop_pc := AfterPause\<rparr>)
      else e\<lparr>loop_pc := LoopTest\<rparr>)"

definition after_pause :: "epoll_thread \<Rightarrow> epoll_thread" where
  "after_pause e =
     (if m_wait_for_returned_from_epoll_wait e
      then pause_call yielding False (e\<lparr>loop_pc := LoopTest\<rparr>)
      else e\<lparr>loop_pc := LoopTest\<rparr>)"

text \<open>\<^verbatim>\<open>wakeup\<close>: the signal interrupts \<^verbatim>\<open>epoll_wait\<close>; anywhere else its handler does nothing.\<close>

definition wakeup :: "epoll_thread \<Rightarrow> epoll_thread" where
  "wakeup e =
     (case (worker e, loop_pc e) of
        (Testing, InEpollWait t _) \<Rightarrow> e\<lparr>loop_pc := InEpollWait t True\<rparr>
      | _ \<Rightarrow> e)"

definition enter_epoll_wait :: "epoll_thread \<Rightarrow> epoll_thread list" where
  "enter_epoll_wait e = step_section (e\<lparr>m_enter_epoll_wait := True\<rparr>)"

definition wait_for_returned_from_epoll_wait :: "epoll_thread \<Rightarrow> epoll_thread list" where
  "wait_for_returned_from_epoll_wait e =
     step_section (e\<lparr>m_wait_for_returned_from_epoll_wait := True\<rparr>)"

definition exit_epoll_wait :: "epoll_thread \<Rightarrow> epoll_thread list" where
  "exit_epoll_wait e = step_section (wakeup (e\<lparr>m_enter_epoll_wait := False\<rparr>))"

text \<open>
  The steps. \<^verbatim>\<open>epoll_wait\<close> returns 0 only if it has a timeout, -1 only when interrupted, and
  an event whenever the environment says so.
\<close>

inductive epoll_step :: "epoll_thread \<Rightarrow> epoll_thread \<Rightarrow> bool" where
  sync: "sync_step e f \<Longrightarrow> epoll_step e f"
| loop_test: "worker e = Testing \<Longrightarrow> loop_pc e = LoopTest \<Longrightarrow> epoll_step e (loop_test e)"
| do_body: "worker e = Testing \<Longrightarrow> loop_pc e = DoBody t \<Longrightarrow> epoll_step e (do_body t e)"
| timeout: "worker e = Testing \<Longrightarrow> loop_pc e = InEpollWait t False \<Longrightarrow> 0 \<le> t \<Longrightarrow>
    epoll_step e (epoll_wait_returns 0 e)"
| interrupted: "worker e = Testing \<Longrightarrow> loop_pc e = InEpollWait t True \<Longrightarrow>
    epoll_step e (epoll_wait_returns (-1) e)"
| event: "worker e = Testing \<Longrightarrow> loop_pc e = InEpollWait t i \<Longrightarrow>
    epoll_step e (epoll_wait_returns 1 e)"
| got_event: "worker e = Testing \<Longrightarrow> loop_pc e = GotEvent \<Longrightarrow> epoll_step e (got_event e)"
| after_pause: "worker e = Testing \<Longrightarrow> loop_pc e = AfterPause \<Longrightarrow> epoll_step e (after_pause e)"
| enter: "main_thread e = Idle \<Longrightarrow> worker e \<noteq> NotCreated \<Longrightarrow> f \<in> set (enter_epoll_wait e) \<Longrightarrow>
    epoll_step e f"
| wait_for_returned: "main_thread e = Idle \<Longrightarrow> worker e \<noteq> NotCreated \<Longrightarrow>
    f \<in> set (wait_for_returned_from_epoll_wait e) \<Longrightarrow> epoll_step e f"
| exit: "main_thread e = Idle \<Longrightarrow> worker e \<noteq> NotCreated \<Longrightarrow> f \<in> set (exit_epoll_wait e) \<Longrightarrow>
    epoll_step e f"
| stop_wakeup: "main_thread e = Signalling \<Longrightarrow> epoll_step e ((wakeup e)\<lparr>main_thread := Joining\<rparr>)"

inductive_cases epoll_stepE [elim]: "epoll_step e f"

definition epoll_reachable :: "epoll_thread \<Rightarrow> bool" where
  "epoll_reachable = epoll_step\<^sup>*\<^sup>* EpollThread_init"

lemmas loop_op_defs =
  loop_test_def do_body_def epoll_wait_returns_def got_event_def after_pause_def wakeup_def
  enter_epoll_wait_def wait_for_returned_from_epoll_wait_def exit_epoll_wait_def

section \<open>Refinement of the arbitrary test\<close>

abbreviation thread_of :: "epoll_thread \<Rightarrow> permuter" where
  "thread_of \<equiv> permuter.truncate"

lemma thread_of_sel [simp]:
  "worker (thread_of e) = worker e" "main_thread (thread_of e) = main_thread e"
  "m_paused (thread_of e) = m_paused e" "m_state (thread_of e) = m_state e"
  "m_last_permutation (thread_of e) = m_last_permutation e" "returned (thread_of e) = returned e"
  by (simp_all add: permuter.truncate_def)

lemma thread_of_upd [simp]:
  "thread_of (e\<lparr>worker := w\<rparr>) = thread_of e\<lparr>worker := w\<rparr>"
  "thread_of (e\<lparr>main_thread := m\<rparr>) = thread_of e\<lparr>main_thread := m\<rparr>"
  "thread_of (e\<lparr>m_paused := b\<rparr>) = thread_of e\<lparr>m_paused := b\<rparr>"
  "thread_of (e\<lparr>m_state := s\<rparr>) = thread_of e\<lparr>m_state := s\<rparr>"
  "thread_of (e\<lparr>m_last_permutation := b\<rparr>) = thread_of e\<lparr>m_last_permutation := b\<rparr>"
  "thread_of (e\<lparr>returned := r\<rparr>) = thread_of e\<lparr>returned := r\<rparr>"
  "thread_of (e\<lparr>loop_pc := l\<rparr>) = thread_of e"
  "thread_of (e\<lparr>m_enter_epoll_wait := b\<rparr>) = thread_of e"
  "thread_of (e\<lparr>m_wait_for_returned_from_epoll_wait := b\<rparr>) = thread_of e"
  by (simp_all add: permuter.truncate_def)

lemma thread_of_ops [simp]:
  "thread_of (wait_paused c e) = wait_paused c (thread_of e)"
  "thread_of (start e) = start (thread_of e)"
  "thread_of (pause_call s nw e) = pause_call s nw (thread_of e)"
  "thread_of (wait_not_paused s e) = wait_not_paused s (thread_of e)"
  "thread_of (stop_call e) = stop_call (thread_of e)"
  "thread_of (wakeup e) = thread_of e"
  by (simp_all add: thread_op_defs wakeup_def split: worker_pc.split loop_pc.split caller.split)

lemma thread_of_lists [simp]:
  "map thread_of (notify_one e) = notify_one (thread_of e)"
  "map thread_of (pause_section s nw e) = pause_section s nw (thread_of e)"
  "map thread_of (step_section e) = step_section (thread_of e)"
  "map thread_of (stop_section e) = stop_section (thread_of e)"
  by (simp_all add: thread_op_defs split: worker_pc.split main_pc.split caller.split)

lemma thread_of_in:
  "f \<in> set (pause_section s nw e) \<Longrightarrow> thread_of f \<in> set (pause_section s nw (thread_of e))"
  "f \<in> set (step_section e) \<Longrightarrow> thread_of f \<in> set (step_section (thread_of e))"
  "f \<in> set (stop_section e) \<Longrightarrow> thread_of f \<in> set (stop_section (thread_of e))"
  by (simp_all flip: thread_of_lists)

lemma sync_refines: "sync_step e f \<Longrightarrow> sync_step (thread_of e) (thread_of f)"
  by (erule sync_stepE) (auto intro: sync_step.intros thread_of_in)


lemma epoll_refines: "epoll_step e f \<Longrightarrow> (thread_step True)\<^sup>*\<^sup>* (thread_of e) (thread_of f)"
proof (erule epoll_stepE)
  assume "sync_step e f"
  then show ?thesis by (intro r_into_rtranclp thread_step.sync sync_refines)
next
  assume "f \<in> set (enter_epoll_wait e)" "main_thread e = Idle" "worker e \<noteq> NotCreated"
  then have "sync_step (thread_of e) (thread_of f)"
    using thread_of_in(2) [of f "e\<lparr>m_enter_epoll_wait := True\<rparr>"]
    by (intro sync_step.step) (simp_all add: enter_epoll_wait_def)
  then show ?thesis by (intro r_into_rtranclp thread_step.sync)
next
  assume "f \<in> set (wait_for_returned_from_epoll_wait e)" "main_thread e = Idle" "worker e \<noteq> NotCreated"
  then have "sync_step (thread_of e) (thread_of f)"
    using thread_of_in(2) [of f "e\<lparr>m_wait_for_returned_from_epoll_wait := True\<rparr>"]
    by (intro sync_step.step) (simp_all add: wait_for_returned_from_epoll_wait_def)
  then show ?thesis by (intro r_into_rtranclp thread_step.sync)
next
  assume "f \<in> set (exit_epoll_wait e)" "main_thread e = Idle" "worker e \<noteq> NotCreated"
  then have "sync_step (thread_of e) (thread_of f)"
    using thread_of_in(2) [of f "wakeup (e\<lparr>m_enter_epoll_wait := False\<rparr>)"]
    by (intro sync_step.step) (simp_all add: exit_epoll_wait_def)
  then show ?thesis by (intro r_into_rtranclp thread_step.sync)
next
  assume "f = loop_test e" "worker e = Testing"
  then show ?thesis
    by (auto simp: loop_test_def intro!: r_into_rtranclp thread_step.test_return)
next
  fix t
  assume "f = do_body t e" "worker e = Testing"
  then show ?thesis
    by (auto simp: do_body_def intro!: r_into_rtranclp thread_step.test_pause)
next
  assume "f = got_event e" "worker e = Testing"
  then show ?thesis
    by (auto simp: got_event_def intro!: r_into_rtranclp thread_step.test_pause)
next
  assume "f = after_pause e" "worker e = Testing"
  then show ?thesis
    by (auto simp: after_pause_def intro!: r_into_rtranclp thread_step.test_pause)
next
  assume "f = wakeup e\<lparr>main_thread := Joining\<rparr>" "main_thread e = Signalling"
  then show ?thesis by (auto intro!: r_into_rtranclp thread_step.wakeup)
qed (simp_all add: epoll_wait_returns_def)

lemma thread_of_init: "thread_of EpollThread_init = Thread_init"
  by (simp add: EpollThread_init_def permuter.truncate_def permuter.extend_def Thread_init_def)

lemma epoll_thread_reachable: "epoll_reachable e \<Longrightarrow> thread_reachable True (thread_of e)"
  unfolding epoll_reachable_def thread_reachable_def thread_of_init [symmetric]
  by (induction rule: rtranclp_induct) (auto dest: epoll_refines)

lemma epoll_handshake: "epoll_reachable e \<Longrightarrow> handshake e"
  using handshake_reachable [OF epoll_thread_reachable] by (simp add: handshake_def)

section \<open>Where the loop can be\<close>

definition loop_ok :: "epoll_thread \<Rightarrow> bool" where
  "loop_ok e \<longleftrightarrow>
     (\<forall>t i. loop_pc e = InEpollWait t i \<longrightarrow> t = 1) \<and>
     (\<forall>t. loop_pc e = DoBody t \<longrightarrow> t \<in> {1, -1}) \<and>
     (\<forall>s. worker e \<in> {Waiting s, Woken s, Pausing s False} \<longrightarrow> loop_pc e \<in> {LoopTest, AfterPause}) \<and>
     (worker e \<in> {NotCreated, Starting} \<longrightarrow> loop_pc e = LoopTest)"

lemma loop_ok_sync: "sync_step e f \<Longrightarrow> loop_ok e \<Longrightarrow> loop_ok f"
  by (erule sync_stepE)
    (auto simp: loop_ok_def thread_op_defs split: worker_pc.splits main_pc.splits caller.splits if_splits)

lemma loop_ok_main:
  "f \<in> set (step_section e) \<Longrightarrow> loop_ok e \<Longrightarrow> loop_ok f"
  "loop_ok (e\<lparr>m_enter_epoll_wait := b\<rparr>) = loop_ok e"
  "loop_ok (e\<lparr>m_wait_for_returned_from_epoll_wait := b\<rparr>) = loop_ok e"
  "loop_ok (e\<lparr>main_thread := m\<rparr>) = loop_ok e"
  "loop_ok e \<Longrightarrow> loop_ok (wakeup e)"
  by (auto simp: loop_ok_def step_section_def notify_one_def wait_paused_def wakeup_def
      split: worker_pc.splits main_pc.splits loop_pc.splits)

lemma loop_ok_step: "epoll_step e f \<Longrightarrow> loop_ok e \<Longrightarrow> loop_ok f"
proof (erule epoll_stepE)
  assume "f = loop_test e" "loop_ok e" "worker e = Testing"
  then show ?thesis by (simp add: loop_ok_def loop_test_def)
next
  fix t
  assume "f = do_body t e" "loop_ok e" "worker e = Testing" "loop_pc e = DoBody t"
  then show ?thesis by (auto simp: loop_ok_def do_body_def pause_call_def)
next
  assume "f = got_event e" "loop_ok e" "worker e = Testing"
  then show ?thesis by (auto simp: loop_ok_def got_event_def pause_call_def)
next
  assume "f = after_pause e" "loop_ok e" "worker e = Testing"
  then show ?thesis by (auto simp: loop_ok_def after_pause_def pause_call_def)
next
  fix t
  assume "f = epoll_wait_returns 0 e" "loop_ok e" "worker e = Testing"
  then show ?thesis by (auto simp: loop_ok_def epoll_wait_returns_def)
next
  fix t
  assume "f = epoll_wait_returns (-1) e" "loop_ok e" "worker e = Testing"
  then show ?thesis by (auto simp: loop_ok_def epoll_wait_returns_def)
next
  fix t i
  assume "f = epoll_wait_returns 1 e" "loop_ok e" "worker e = Testing"
  then show ?thesis by (auto simp: loop_ok_def epoll_wait_returns_def)
qed (auto simp: enter_epoll_wait_def wait_for_returned_from_epoll_wait_def exit_epoll_wait_def
    loop_ok_main loop_ok_sync intro: loop_ok_main(1))

lemma loop_ok_reachable: "epoll_reachable e \<Longrightarrow> loop_ok e"
  unfolding epoll_reachable_def
proof (induction rule: rtranclp_induct)
  case base
  then show ?case
    by (simp add: loop_ok_def EpollThread_init_def permuter.extend_def Thread_init_def)
qed (rule loop_ok_step)


section \<open>Stopping\<close>

text \<open>
  A worker that \<^verbatim>\<open>stop\<close> releases from its first pause, and that pauses a second time, waits
  for ever: the states on that way.
\<close>

definition doomed :: "epoll_thread \<Rightarrow> bool" where
  "doomed e \<longleftrightarrow>
     m_wait_for_returned_from_epoll_wait e \<and>
     (if main_thread e = Stopping
      then m_paused e \<and> loop_pc e = AfterPause \<and> (\<exists>s. worker e \<in> {Waiting s, Woken s})
      else main_thread e \<in> {Signalling, Joining} \<and>
        (if loop_pc e = AfterPause then \<not> m_paused e \<and> (worker e = Testing \<or> (\<exists>s. worker e = Woken s))
         else loop_pc e = LoopTest \<and>
           (worker e = Pausing yielding False \<or>
            m_paused e \<and> (\<exists>s. worker e \<in> {Waiting s, Woken s}))))"

lemma doomed_sync: "sync_step e f \<Longrightarrow> doomed e \<Longrightarrow> doomed f"
  by (erule sync_stepE)
    (auto simp: doomed_def thread_op_defs split: worker_pc.splits main_pc.splits if_splits)

lemma doomed_step: "epoll_step e f \<Longrightarrow> doomed e \<Longrightarrow> doomed f"
  by (erule epoll_stepE, erule (1) doomed_sync)
    (auto simp: doomed_def thread_op_defs loop_op_defs split: if_splits)

lemma doomed_steps: "epoll_step\<^sup>*\<^sup>* e f \<Longrightarrow> doomed e \<Longrightarrow> doomed f"
  by (induction rule: rtranclp_induct) (auto intro: doomed_step)

text \<open>A worker that \<^verbatim>\<open>stop\<close> releases from its last pause runs to the end.\<close>

definition released :: "epoll_thread \<Rightarrow> bool" where
  "released e \<longleftrightarrow>
     m_last_permutation e \<and> loop_pc e \<in> {LoopTest, AfterPause} \<and>
     \<not> (loop_pc e = AfterPause \<and> m_wait_for_returned_from_epoll_wait e) \<and>
     (case main_thread e of
        Stopping \<Rightarrow> m_paused e \<and> (\<exists>s. worker e \<in> {Waiting s, Woken s})
      | Joined \<Rightarrow> worker e = Exited
      | m \<Rightarrow> m \<in> {Signalling, Joining} \<and> \<not> m_paused e \<and>
          (worker e \<in> {Testing, Exited} \<or> (\<exists>s. worker e = Woken s)))"

lemma released_sync: "sync_step e f \<Longrightarrow> released e \<Longrightarrow> released f"
  by (erule sync_stepE)
    (auto simp: released_def thread_op_defs split: worker_pc.splits main_pc.splits if_splits)

lemma released_step: "epoll_step e f \<Longrightarrow> released e \<Longrightarrow> released f"
  by (erule epoll_stepE, erule (1) released_sync)
    (auto simp: released_def thread_op_defs loop_op_defs split: if_splits main_pc.splits)

lemma released_steps: "epoll_step\<^sup>*\<^sup>* e f \<Longrightarrow> released e \<Longrightarrow> released f"
  by (induction rule: rtranclp_induct) (auto intro: released_step)


definition joins :: "epoll_thread \<Rightarrow> bool" where
  "joins e \<longleftrightarrow> (\<exists>g. epoll_step\<^sup>*\<^sup>* e g \<and> main_thread g = Joined)"

text \<open>\<^verbatim>\<open>stop\<close>, called in \<open>e\<close>, can be joined from every state that may follow.\<close>

definition surely_joins :: "epoll_thread \<Rightarrow> bool" where
  "surely_joins e \<longleftrightarrow> (\<forall>f. epoll_step\<^sup>*\<^sup>* (stop_call e) f \<longrightarrow> joins f)"

lemma joins_step: "epoll_step e f \<Longrightarrow> joins f \<Longrightarrow> joins e"
  unfolding joins_def by (meson converse_rtranclp_into_rtranclp)

lemma joins_joined: "main_thread e = Joined \<Longrightarrow> joins e"
  unfolding joins_def by blast

lemma joins_exited:
  assumes "main_thread e = Joining" "worker e = Exited"
  shows "joins e"
proof -
  have "epoll_step e (e\<lparr>main_thread := Joined\<rparr>)" using assms by (intro epoll_step.sync sync_step.join)
  then show ?thesis by (rule joins_step) (simp add: joins_joined)
qed

lemma joins_testing:
  assumes "main_thread e = Joining" "worker e = Testing" "released e"
  shows "joins e"
proof -
  have test: "joins f" if "main_thread f = Joining" "worker f = Testing" "loop_pc f = LoopTest"
    "m_last_permutation f" for f
  proof (rule joins_step)
    show "epoll_step f (loop_test f)" using that(2,3) by (rule epoll_step.loop_test)
    show "joins (loop_test f)" using that by (intro joins_exited) (simp_all add: loop_test_def)
  qed
  show ?thesis
  proof (cases "loop_pc e = AfterPause")
    case True
    with assms have "after_pause e = e\<lparr>loop_pc := LoopTest\<rparr>"
      by (simp add: after_pause_def released_def)
    then have "joins (after_pause e)" using assms by (intro test) (simp_all add: released_def)
    moreover have "epoll_step e (after_pause e)" using assms(2) True by (rule epoll_step.after_pause)
    ultimately show ?thesis by (rule joins_step [rotated])
  next
    case False
    with assms show ?thesis by (intro test) (auto simp: released_def)
  qed
qed

lemma joins_joining:
  assumes "main_thread e = Joining" "released e"
  shows "joins e"
proof (cases "\<exists>s. worker e = Woken s")
  case True
  then obtain s where s: "worker e = Woken s" by blast
  have step: "epoll_step e (wait_not_paused s e)"
    using s by (intro epoll_step.sync sync_step.recheck)
  have "worker (wait_not_paused s e) = Testing"
    using assms by (simp add: wait_not_paused_def released_def)
  with joins_testing [OF _ _ released_step [OF step assms(2)]] joins_step [OF step] assms(1)
  show ?thesis by (simp add: wait_not_paused_def)
next
  case False
  with assms joins_exited joins_testing show ?thesis by (auto simp: released_def)
qed

lemma released_joins:
  assumes "released e"
  shows "joins e"
proof -
  have signal: "joins f" if "released f" "main_thread f = Signalling" for f
  proof -
    have step: "epoll_step f (wakeup f\<lparr>main_thread := Joining\<rparr>)"
      using that(2) by (rule epoll_step.stop_wakeup)
    from joins_joining [OF _ released_step [OF step that(1)]] joins_step [OF step] show ?thesis
      by simp
  qed
  show ?thesis
  proof (cases "main_thread e")
    case Stopping
    have "stop_section e \<noteq> []"
      by (simp add: stop_section_def notify_one_def split: worker_pc.split main_pc.split)
    then obtain f where f: "f \<in> set (stop_section e)" using hd_in_set by blast
    then have step: "epoll_step e f"
      using Stopping by (intro epoll_step.sync sync_step.stop_section)
    moreover have "main_thread f = Signalling" using f by (auto simp: stop_section_def)
    ultimately show ?thesis using signal [OF released_step [OF step assms]] joins_step by blast
  qed (use assms joins_joining signal joins_joined in \<open>auto simp: released_def\<close>)
qed


section \<open>Runs\<close>

definition est :: "worker_pc \<Rightarrow> main_pc \<Rightarrow> bool \<Rightarrow> state_type \<Rightarrow> bool \<Rightarrow> state_type option \<Rightarrow>
    loop_pc \<Rightarrow> bool \<Rightarrow> epoll_thread" where
  "est w m pa st lst ret pc wr =
     \<lparr>worker = w, main_thread = m, m_paused = pa, m_state = st, m_last_permutation = lst,
      returned = ret, loop_pc = pc, m_enter_epoll_wait = False,
      m_wait_for_returned_from_epoll_wait = wr\<rparr>"

lemmas est_run = est_def thread_op_defs loop_op_defs

lemma epoll_reach: "epoll_reachable e \<Longrightarrow> epoll_step e f \<Longrightarrow> epoll_reachable f"
  unfolding epoll_reachable_def by (rule rtranclp.rtrancl_into_rtrancl)

lemma est_init: "epoll_reachable (est NotCreated Idle False yielding False None LoopTest False)"
  by (simp add: epoll_reachable_def est_def EpollThread_init_def permuter.extend_def Thread_init_def)

lemma est_started: "epoll_reachable (est (Waiting yielding) Idle True yielding False None LoopTest False)"
proof -
  have 1: "epoll_reachable (est Starting (WaitPaused InStart) False yielding False None LoopTest False)"
    using epoll_reach [OF est_init epoll_step.sync [OF sync_step.start]] by (simp add: est_run)
  have 2: "epoll_reachable (est (Pausing yielding False) (WaitPaused InStart) False yielding False None LoopTest False)"
    using epoll_reach [OF 1 epoll_step.sync [OF sync_step.first_pause]] by (simp add: est_run)
  have 3: "epoll_reachable (est (Waiting yielding) (WokenUp InStart) True yielding False None LoopTest False)"
    by (rule epoll_reach [OF 2 epoll_step.sync [OF sync_step.pause [of _ yielding False]]]) (simp_all add: est_run)
  show ?thesis
    using epoll_reach [OF 3 epoll_step.sync [OF sync_step.main_recheck]] by (simp add: est_run)
qed

text \<open>After one \<^verbatim>\<open>step\<close> the worker is in \<^verbatim>\<open>epoll_wait\<close> and the main thread waits for it.\<close>

lemma est_polling:
  assumes "epoll_reachable (est (Waiting s) Idle True st False ret LoopTest wr)"
    and "f \<in> set (step_section (est (Waiting s) Idle True st False ret LoopTest wr\<lparr>m_wait_for_returned_from_epoll_wait := wr'\<rparr>))"
    and "epoll_step (est (Waiting s) Idle True st False ret LoopTest wr) f"
  shows "epoll_reachable (est Testing (WaitPaused InStep) False st False ret (InEpollWait 1 False) wr')"
proof -
  have "f = est (Woken s) (WaitPaused InStep) False st False ret LoopTest wr'"
    using assms(2) by (simp add: est_run)
  then have 1: "epoll_reachable (est (Woken s) (WaitPaused InStep) False st False ret LoopTest wr')"
    using epoll_reach [OF assms(1,3)] by simp
  have 2: "epoll_reachable (est Testing (WaitPaused InStep) False st False ret LoopTest wr')"
    using epoll_reach [OF 1 epoll_step.sync [OF sync_step.recheck]] by (simp add: est_run)
  have 3: "epoll_reachable (est Testing (WaitPaused InStep) False st False ret (DoBody 1) wr')"
    using epoll_reach [OF 2 epoll_step.loop_test] by (simp add: est_run)
  show ?thesis
    using epoll_reach [OF 3 epoll_step.do_body] by (simp add: est_run)
qed

lemma est_step: "epoll_reachable (est Testing (WaitPaused InStep) False yielding False None (InEpollWait 1 False) False)"
  by (rule est_polling [OF est_started])
    (auto simp: est_run intro!: epoll_step.sync sync_step.step)

lemma est_wait: "epoll_reachable (est Testing (WaitPaused InStep) False yielding False None (InEpollWait 1 False) True)"
  by (rule est_polling [OF est_started, where wr' = True])
    (auto simp: est_run intro!: epoll_step.wait_for_returned)

text \<open>An event, and the pause after it.\<close>

lemma est_event:
  assumes "epoll_reachable (est Testing (WaitPaused InStep) False st False ret (InEpollWait 1 False) wr)"
  shows "epoll_reachable (est (Waiting yielding) Idle True yielding False (Some yielding) AfterPause wr)"
proof -
  have 1: "epoll_reachable (est Testing (WaitPaused InStep) False st False ret GotEvent wr)"
    using epoll_reach [OF assms epoll_step.event [of _ 1 False]] by (simp add: est_run)
  have 2: "epoll_reachable (est (Pausing yielding False) (WaitPaused InStep) False yielding False ret AfterPause wr)"
    using epoll_reach [OF 1 epoll_step.got_event] by (simp add: est_run)
  have 3: "epoll_reachable (est (Waiting yielding) (WokenUp InStep) True yielding False ret AfterPause wr)"
    by (rule epoll_reach [OF 2 epoll_step.sync [OF sync_step.pause [of _ yielding False]]]) (simp_all add: est_run)
  show ?thesis
    using epoll_reach [OF 3 epoll_step.sync [OF sync_step.main_recheck]] by (simp add: est_run)
qed


text \<open>No event: the thread pauses without waiting, and goes on polling while the main thread runs.\<close>

lemma est_no_event:
  assumes "epoll_reachable (est Testing (WaitPaused InStep) False st False ret (InEpollWait 1 False) wr)"
  shows "epoll_reachable (est Testing Idle True blocking False (Some blocking) (InEpollWait 1 False) wr)"
proof -
  have 1: "epoll_reachable (est Testing (WaitPaused InStep) False st False ret (DoBody (-1)) wr)"
    using epoll_reach [OF assms epoll_step.timeout [of _ 1]] by (simp add: est_run)
  have 2: "epoll_reachable (est (Pausing blocking True) (WaitPaused InStep) False blocking False ret (InEpollWait 1 False) wr)"
    using epoll_reach [OF 1 epoll_step.do_body] by (simp add: est_run)
  have 3: "epoll_reachable (est Testing (WokenUp InStep) True blocking False ret (InEpollWait 1 False) wr)"
    by (rule epoll_reach [OF 2 epoll_step.sync [OF sync_step.pause [of _ blocking True]]]) (simp_all add: est_run)
  show ?thesis
    using epoll_reach [OF 3 epoll_step.sync [OF sync_step.main_recheck]] by (simp add: est_run)
qed

text \<open>\<^verbatim>\<open>stop\<close> signals while the worker is between two calls of \<^verbatim>\<open>epoll_wait\<close>.\<close>

definition lost_signal :: epoll_thread where
  "lost_signal = est Testing Joining True blocking True (Some blocking) (InEpollWait 1 False) False"

lemma est_lost: "epoll_reachable lost_signal"
proof -
  have 1: "epoll_reachable (est Testing Stopping True blocking True (Some blocking) (InEpollWait 1 False) False)"
    using epoll_reach [OF est_no_event [OF est_step] epoll_step.sync [OF sync_step.stop]]
    by (simp add: est_run)
  have 2: "epoll_reachable (est Testing Signalling False blocking True (Some blocking) (InEpollWait 1 False) False)"
    by (rule epoll_reach [OF 1 epoll_step.sync [OF sync_step.stop_section]]) (simp_all add: est_run)
  have 3: "epoll_reachable (est Testing Signalling False blocking True (Some blocking) (DoBody (-1)) False)"
    using epoll_reach [OF 2 epoll_step.timeout [of _ 1]] by (simp add: est_run)
  have 4: "epoll_reachable (est Testing Joining False blocking True (Some blocking) (DoBody (-1)) False)"
    using epoll_reach [OF 3 epoll_step.stop_wakeup] by (simp add: est_run)
  have 5: "epoll_reachable (est (Pausing blocking True) Joining False blocking True (Some blocking) (InEpollWait 1 False) False)"
    using epoll_reach [OF 4 epoll_step.do_body] by (simp add: est_run)
  show ?thesis unfolding lost_signal_def
    by (rule epoll_reach [OF 5 epoll_step.sync [OF sync_step.pause [of _ blocking True]]]) (simp_all add: est_run)
qed

section \<open>Properties\<close>



text \<open>
  \<^verbatim>\<open>epoll_wait\<close> is only ever called with a timeout of one millisecond, never with the
  -1 that is printed; and while the main thread waits for a worker that polls, that worker is
  not asleep, so the next timeout or event ends the \<^verbatim>\<open>step\<close>.
\<close>

lemma epoll_timeout_is_one:
  assumes "epoll_reachable e" and "loop_pc e = InEpollWait t i"
  shows "t = 1 \<and> \<not> (\<exists>s. worker e \<in> {Waiting s, Woken s, Pausing s False})"
  using loop_ok_reachable [OF assms(1)] assms(2) by (auto simp: loop_ok_def)

text \<open>
  \<^bold>\<open>C11\<close>. For a worker that stands in \<^verbatim>\<open>pause\<close>, \<^verbatim>\<open>stop\<close> is sure to be able to join it,
  however it is scheduled, unless the worker is in the first of the two pauses after an event
  and \<^verbatim>\<open>wait_for_returned_from_epoll_wait\<close> was ever called: then the released worker pauses a
  second time, and \<^verbatim>\<open>stop\<close> never returns.
\<close>

theorem stop_joins_iff:
  assumes "epoll_reachable e" and "main_thread e = Idle" and "worker e = Waiting s"
  shows "surely_joins e \<longleftrightarrow>
    \<not> (loop_pc e = AfterPause \<and> m_wait_for_returned_from_epoll_wait e)"
proof
  have paused: "m_paused e" using epoll_handshake [OF assms(1)] assms(3) by (simp add: handshake_def)
  {
    assume all: "surely_joins e"
    show "\<not> (loop_pc e = AfterPause \<and> m_wait_for_returned_from_epoll_wait e)"
    proof
      assume "loop_pc e = AfterPause \<and> m_wait_for_returned_from_epoll_wait e"
      then have d: "doomed (stop_call e)" using paused assms(3) by (simp add: doomed_def stop_call_def)
      obtain g where g: "epoll_step\<^sup>*\<^sup>* (stop_call e) g" "main_thread g = Joined"
        using all unfolding surely_joins_def joins_def by blast
      from doomed_steps [OF g(1) d] g(2) show False by (auto simp: doomed_def)
    qed
  }
  assume ok: "\<not> (loop_pc e = AfterPause \<and> m_wait_for_returned_from_epoll_wait e)"
  have "released (stop_call e)"
    using ok paused assms(3) loop_ok_reachable [OF assms(1)]
    by (auto simp: released_def stop_call_def loop_ok_def)
  then show "surely_joins e"
    unfolding surely_joins_def using released_steps released_joins by blast
qed

theorem stop_joins_iff_witness:
  "surely_joins (est (Waiting yielding) Idle True yielding False (Some yielding) AfterPause False) \<and>
   \<not> surely_joins (est (Waiting yielding) Idle True yielding False (Some yielding) AfterPause True)"
  using stop_joins_iff [OF est_event [OF est_step]] stop_joins_iff [OF est_event [OF est_wait]]
  by (simp add: est_def)

text \<open>
  The signal of \<^verbatim>\<open>stop\<close> can be lost: it is delivered between two calls of
  \<^verbatim>\<open>epoll_wait\<close>, and the inner loop does not test \<^verbatim>\<open>m_last_permutation\<close>. From then on every
  timeout brings the worker back to the same state, and the main thread stays in the join.
\<close>

lemma stop_can_livelock:
  "\<exists>e. epoll_reachable e \<and> main_thread e = Joining \<and> m_last_permutation e \<and>
     (let e1 = epoll_wait_returns 0 e; e2 = do_body (-1) e1 in
        epoll_step e e1 \<and> epoll_step e1 e2 \<and> e \<in> set (pause_section blocking True e2) \<and> epoll_step e2 e)"
proof -
  let ?e1 = "epoll_wait_returns 0 lost_signal"
  let ?e2 = "do_body (-1) ?e1"
  have cycle: "lost_signal \<in> set (pause_section blocking True ?e2)"
    by (simp add: lost_signal_def est_run)
  have "epoll_step lost_signal ?e1"
    by (rule epoll_step.timeout [of _ 1]) (simp_all add: lost_signal_def est_def)
  moreover have "epoll_step ?e1 ?e2"
    by (rule epoll_step.do_body) (simp_all add: lost_signal_def est_run)
  moreover have "epoll_step ?e2 lost_signal"
    by (rule epoll_step.sync [OF sync_step.pause [OF _ cycle]]) (simp add: lost_signal_def est_run)
  ultimately show ?thesis
    using est_lost cycle by (intro exI [of _ lost_signal]) (simp add: Let_def, simp add: lost_signal_def est_def)
qed

end
