(* ===== verification/EpollIO.thy ===== *)
theory EpollIO
  imports Prelude
begin

text \<open>
  \<^verbatim>\<open>Socket\<close> and \<^verbatim>\<open>PipeReadEnd\<close> of \<^verbatim>\<open>src/epoll_states.cxx\<close>: non-blocking transfers with a
  counter for each end. The system calls are an argument. The constructors
  get the descriptors from the calls in \<open>EpollSetup\<close>; printing is left out.
\<close>

section \<open>System calls\<close>

text \<open>\<^verbatim>\<open>write\<close> also gives \<^verbatim>\<open>errno\<close>, which the code looks at.\<close>

record 'k io =
  io_read :: "int \<Rightarrow> nat \<Rightarrow> 'k \<Rightarrow> int \<times> 'k"
  io_write :: "int \<Rightarrow> nat \<Rightarrow> 'k \<Rightarrow> int \<times> int \<times> 'k"
  io_close :: "int \<Rightarrow> 'k \<Rightarrow> int \<times> 'k"

definition EAGAIN :: int where "EAGAIN = 11"

definition s_buffer_size :: int where "s_buffer_size = 1024 * 1024"

section \<open>The four transfer functions\<close>

text \<open>
  \<^verbatim>\<open>send\<close> and \<^verbatim>\<open>write\<close> of both classes have one body, but for the descriptor and the counter:
  one \<^verbatim>\<open>write\<close>, which may fail with \<^verbatim>\<open>EAGAIN\<close> only. A negative length passes the assertion and
  reads past the buffer.
\<close>

definition write_bytes :: "'k io \<Rightarrow> int \<Rightarrow> int \<Rightarrow> u64 \<Rightarrow> 'k \<Rightarrow> fault + u64 \<times> 'k" where
  "write_bytes K fd n count k =
     (if \<not> n < s_buffer_size then Inl AssertFailed
      else if n < 0 then Inl OutOfBounds
      else
        case io_write K fd (nat n) k of
          (ret, errno, k') \<Rightarrow>
            if ret = -1
            then (if errno \<noteq> EAGAIN then Inl AssertFailed else Inr (count, k'))
            else Inr (count + word_of_int ret, k'))"

text \<open>
  \<^verbatim>\<open>read\<close> and \<^verbatim>\<open>recv\<close>: \<^verbatim>\<open>read\<close> is called again for as long as it returns -1, whatever
  \<^verbatim>\<open>errno\<close> says.
\<close>

partial_function (option) read_retry :: "'k io \<Rightarrow> int \<Rightarrow> nat \<Rightarrow> 'k \<Rightarrow> (int \<times> 'k) option" where
  "read_retry K fd n k =
     (case io_read K fd n k of
        (ret, k') \<Rightarrow> if ret = -1 then read_retry K fd n k' else Some (ret, k'))"

definition read_bytes :: "'k io \<Rightarrow> int \<Rightarrow> int \<Rightarrow> u64 \<Rightarrow> 'k \<Rightarrow> (u64 \<times> 'k) result" where
  "read_bytes K fd n count k =
     (if \<not> n < s_buffer_size then faults AssertFailed
      else if n < 0 then faults OutOfBounds
      else
        case read_retry K fd (nat n) k of
          None \<Rightarrow> None
        | Some (ret, k') \<Rightarrow>
            if ret = 0 then returns (count, k') else returns (count + word_of_int ret, k'))"

definition close_fd :: "'k io \<Rightarrow> int \<Rightarrow> 'k \<Rightarrow> fault + 'k" where
  "close_fd K fd k = (case io_close K fd k of (ret, k') \<Rightarrow> if ret \<ge> 0 then Inr k' else Inl AssertFailed)"

section \<open>PipeReadEnd\<close>

record pipe_read_end =
  m_pipefd0 :: int
  m_pipefd1 :: int
  p_sent :: u64
  p_read :: u64

definition PipeReadEnd_ctor :: "int \<Rightarrow> int \<Rightarrow> pipe_read_end" where
  "PipeReadEnd_ctor fd0 fd1 = \<lparr>m_pipefd0 = fd0, m_pipefd1 = fd1, p_sent = 0, p_read = 0\<rparr>"

definition PipeReadEnd_send :: "'k io \<Rightarrow> int \<Rightarrow> pipe_read_end \<times> 'k \<Rightarrow> (pipe_read_end \<times> 'k) result" where
  "PipeReadEnd_send K n s =
     (case s of (self, k) \<Rightarrow>
        and_then (Some (write_bytes K (m_pipefd1 self) n (p_sent self) k))
          (\<lambda>(count, k'). returns (self\<lparr>p_sent := count\<rparr>, k')))"

definition PipeReadEnd_read :: "'k io \<Rightarrow> int \<Rightarrow> pipe_read_end \<times> 'k \<Rightarrow> (pipe_read_end \<times> 'k) result" where
  "PipeReadEnd_read K n s =
     (case s of (self, k) \<Rightarrow>
        and_then (read_bytes K (m_pipefd0 self) n (p_read self) k)
          (\<lambda>(count, k'). returns (self\<lparr>p_read := count\<rparr>, k')))"

definition PipeReadEnd_close_send :: "'k io \<Rightarrow> pipe_read_end \<times> 'k \<Rightarrow> (pipe_read_end \<times> 'k) result" where
  "PipeReadEnd_close_send K s =
     (case s of (self, k) \<Rightarrow>
        and_then (Some (close_fd K (m_pipefd1 self) k)) (\<lambda>k'. returns (self, k')))"

section \<open>Socket\<close>

record socket =
  m_client_fd :: int
  m_accept_fd :: int
  m_sent :: u64
  m_received :: u64
  m_written :: u64
  m_read :: u64

definition Socket_ctor :: "int \<Rightarrow> int \<Rightarrow> socket" where
  "Socket_ctor client_fd accept_fd =
     \<lparr>m_client_fd = client_fd, m_accept_fd = accept_fd,
      m_sent = 0, m_received = 0, m_written = 0, m_read = 0\<rparr>"

definition Socket_send :: "'k io \<Rightarrow> int \<Rightarrow> socket \<times> 'k \<Rightarrow> (socket \<times> 'k) result" where
  "Socket_send K n s =
     (case s of (self, k) \<Rightarrow>
        and_then (Some (write_bytes K (m_accept_fd self) n (m_sent self) k))
          (\<lambda>(count, k'). returns (self\<lparr>m_sent := count\<rparr>, k')))"

definition Socket_recv :: "'k io \<Rightarrow> int \<Rightarrow> socket \<times> 'k \<Rightarrow> (socket \<times> 'k) result" where
  "Socket_recv K n s =
     (case s of (self, k) \<Rightarrow>
        and_then (read_bytes K (m_accept_fd self) n (m_received self) k)
          (\<lambda>(count, k'). returns (self\<lparr>m_received := count\<rparr>, k')))"

definition Socket_write :: "'k io \<Rightarrow> int \<Rightarrow> socket \<times> 'k \<Rightarrow> (socket \<times> 'k) result" where
  "Socket_write K n s =
     (case s of (self, k) \<Rightarrow>
        and_then (Some (write_bytes K (m_client_fd self) n (m_written self) k))
          (\<lambda>(count, k'). returns (self\<lparr>m_written := count\<rparr>, k')))"

definition Socket_read :: "'k io \<Rightarrow> int \<Rightarrow> socket \<times> 'k \<Rightarrow> (socket \<times> 'k) result" where
  "Socket_read K n s =
     (case s of (self, k) \<Rightarrow>
        and_then (read_bytes K (m_client_fd self) n (m_read self) k)
          (\<lambda>(count, k'). returns (self\<lparr>m_read := count\<rparr>, k')))"

definition Socket_close_send :: "'k io \<Rightarrow> socket \<times> 'k \<Rightarrow> (socket \<times> 'k) result" where
  "Socket_close_send K s =
     (case s of (self, k) \<Rightarrow>
        and_then (Some (close_fd K (m_accept_fd self) k)) (\<lambda>k'. returns (self, k')))"

section \<open>When a read comes back\<close>

text \<open>The kernel after \<open>i\<close> calls of \<^verbatim>\<open>read\<close>, and the call that first gives something.\<close>

fun after_reads :: "'k io \<Rightarrow> int \<Rightarrow> nat \<Rightarrow> nat \<Rightarrow> 'k \<Rightarrow> 'k" where
  "after_reads K fd n 0 k = k"
| "after_reads K fd n (Suc i) k = after_reads K fd n i (snd (io_read K fd n k))"

lemma read_retry_result:
  "read_retry K fd n k = Some y \<Longrightarrow>
   fst y \<noteq> -1 \<and> (\<exists>i. io_read K fd n (after_reads K fd n i k) = y \<and>
     (\<forall>j < i. fst (io_read K fd n (after_reads K fd n j k)) = -1))"
proof (induction rule: read_retry.raw_induct [rotated, consumes 1])
  case (1 retry K fd n k y)
  obtain r k1 where rd: "io_read K fd n k = (r, k1)" by (cases "io_read K fd n k")
  show ?case
  proof (cases "r = -1")
    case False
    with 1(2) rd show ?thesis by (auto intro!: exI [of _ 0])
  next
    case True
    with 1(2) rd have "retry K fd n k1 = Some y" by simp
    from 1(1) [OF this] obtain i where "fst y \<noteq> -1"
      "io_read K fd n (after_reads K fd n i k1) = y"
      "\<forall>j < i. fst (io_read K fd n (after_reads K fd n j k1)) = -1" by blast
    with True rd show ?thesis
      by (intro conjI exI [of _ "Suc i"]) (auto simp: less_Suc_eq_0_disj)
  qed
qed

lemma read_retry_returns:
  "io_read K fd n (after_reads K fd n i k) = (ret, k') \<Longrightarrow> ret \<noteq> -1 \<Longrightarrow>
   \<exists>r. read_retry K fd n k = Some r"
proof (induction i arbitrary: k)
  case 0
  then show ?case by (subst read_retry.simps) simp
next
  case (Suc i)
  then show ?case
    by (subst read_retry.simps) (auto split: prod.splits)
qed


lemma read_retry_eq:
  "read_retry K fd n k =
     (if \<exists>i. fst (io_read K fd n (after_reads K fd n i k)) \<noteq> -1
      then Some (io_read K fd n (after_reads K fd n
             (LEAST i. fst (io_read K fd n (after_reads K fd n i k)) \<noteq> -1) k))
      else None)"
proof (cases "read_retry K fd n k")
  case None
  then show ?thesis using read_retry_returns [of K fd n _ k] by (metis option.distinct(1) prod.collapse)
next
  case (Some y)
  from read_retry_result [OF this] obtain i where "fst y \<noteq> -1"
    and i: "io_read K fd n (after_reads K fd n i k) = y"
    and first: "\<forall>j < i. fst (io_read K fd n (after_reads K fd n j k)) = -1" by blast
  then have "(LEAST i. fst (io_read K fd n (after_reads K fd n i k)) \<noteq> -1) = i"
    by (intro Least_equality) (auto simp: not_less [symmetric])
  with Some i \<open>fst y \<noteq> -1\<close> show ?thesis by auto
qed

section \<open>Counting\<close>

text \<open>
  What a channel with a counter at each end promises: whatever its operations do, the bytes
  sent are the bytes received and those on the way, modulo the width of the counters.
\<close>

fun run_ops :: "('op \<Rightarrow> 's \<Rightarrow> 's result) \<Rightarrow> 'op list \<Rightarrow> 's \<Rightarrow> 's result" where
  "run_ops exec [] s = returns s"
| "run_ops exec (op # ops) s = and_then (exec op s) (run_ops exec ops)"

locale counted_channel =
  fixes exec :: "'op \<Rightarrow> 's \<Rightarrow> 's result" and wf :: "'s \<Rightarrow> bool"
    and sent :: "'s \<Rightarrow> u64" and got :: "'s \<Rightarrow> u64" and flying :: "'s \<Rightarrow> nat"
  assumes exec_wf: "wf s \<Longrightarrow> exec op s = returns s' \<Longrightarrow> wf s'"
    and exec_balance: "wf s \<Longrightarrow> exec op s = returns s' \<Longrightarrow>
      sent s' - got s' - of_nat (flying s') = sent s - got s - of_nat (flying s)"
begin

lemma run_balance:
  "wf s \<Longrightarrow> run_ops exec ops s = returns s' \<Longrightarrow>
     wf s' \<and> sent s' - got s' - of_nat (flying s') = sent s - got s - of_nat (flying s)"
proof (induction ops arbitrary: s)
  case (Cons op ops)
  then obtain t where "exec op s = returns t" "run_ops exec ops t = returns s'" by auto
  with Cons.IH [OF exec_wf [OF Cons.prems(1)]] exec_balance [OF Cons.prems(1)] show ?case by metis
qed simp

end

text \<open>
  The documented behaviour of the system calls on connected descriptors: \<open>rx k fd\<close> are the
  bytes that can still be read from \<open>fd\<close>, \<open>peer fd\<close> is where the bytes written to \<open>fd\<close> go.
\<close>

definition conforming_io :: "'k io \<Rightarrow> (int \<Rightarrow> int) \<Rightarrow> ('k \<Rightarrow> int \<Rightarrow> nat) \<Rightarrow> bool" where
  "conforming_io K peer rx \<longleftrightarrow>
     (\<forall>fd n k r k'. io_read K fd n k = (r, k') \<longrightarrow>
        -1 \<le> r \<and> nat r \<le> rx k fd \<and> rx k' = (rx k)(fd := rx k fd - nat r)) \<and>
     (\<forall>fd n k r e k'. io_write K fd n k = (r, e, k') \<longrightarrow>
        -1 \<le> r \<and> rx k' = (rx k)(peer fd := rx k (peer fd) + nat r)) \<and>
     (\<forall>fd k r k'. io_close K fd k = (r, k') \<longrightarrow> rx k' = rx k)"

lemma conforming_after:
  assumes "conforming_io K peer rx" "fst (io_read K fd n (after_reads K fd n i k)) \<noteq> -1"
    "\<forall>j < i. fst (io_read K fd n (after_reads K fd n j k)) = -1"
  shows "rx (after_reads K fd n i k) = rx k"
  using assms(2,3)
proof (induction i arbitrary: k)
  case (Suc i)
  have minus: "fst (io_read K fd n k) = -1" using Suc.prems(2) by (metis after_reads.simps(1) zero_less_Suc)
  have "rx (snd (io_read K fd n k)) = rx k"
    using assms(1) minus unfolding conforming_io_def by (metis diff_zero fun_upd_triv nat_minus_as_int nat_0_iff neg_le_0_iff_le prod.collapse zero_le_one)
  moreover have "\<forall>j < i. fst (io_read K fd n (after_reads K fd n j (snd (io_read K fd n k)))) = -1"
    using Suc.prems(2) by (metis Suc_less_eq after_reads.simps(2))
  ultimately show ?case using Suc by simp
qed simp

lemma read_bytes_counts:
  assumes C: "conforming_io K peer rx" and "read_bytes K fd n count k = returns (count', k')"
  shows "count' + of_nat (rx k' fd) = count + of_nat (rx k fd) \<and>
    (\<forall>other. other \<noteq> fd \<longrightarrow> rx k' other = rx k other)"
proof -
  obtain ret where "read_retry K fd (nat n) k = Some (ret, k')" and count: "count' = count + word_of_int ret"
    using assms(2) by (auto simp: read_bytes_def split: if_splits option.splits)
  from read_retry_result [OF this(1)] obtain i where neg: "ret \<noteq> -1"
    and rd: "io_read K fd (nat n) (after_reads K fd (nat n) i k) = (ret, k')"
    and first: "\<forall>j < i. fst (io_read K fd (nat n) (after_reads K fd (nat n) j k)) = -1" by auto
  have before: "rx (after_reads K fd (nat n) i k) = rx k"
    by (rule conforming_after [OF C _ first]) (simp add: rd neg)
  have law: "0 \<le> ret" "nat ret \<le> rx k fd" "rx k' = (rx k)(fd := rx k fd - nat ret)"
    using C rd neg before unfolding conforming_io_def by fastforce+
  then have "word_of_int ret + of_nat (rx k fd - nat ret) = (of_nat (rx k fd) :: u64)"
    by (simp add: of_nat_diff)
  with law count show ?thesis by (simp add: add.assoc)
qed

lemma write_bytes_counts:
  assumes C: "conforming_io K peer rx" and "write_bytes K fd n count k = Inr (count', k')"
  shows "count' - of_nat (rx k' (peer fd)) = count - of_nat (rx k (peer fd)) \<and>
    (\<forall>other. other \<noteq> peer fd \<longrightarrow> rx k' other = rx k other)"
proof -
  obtain ret e where wr: "io_write K fd (nat n) k = (ret, e, k')"
    and count: "count' = (if ret = -1 then count else count + word_of_int ret)"
    using assms(2) by (auto simp: write_bytes_def split: if_splits prod.splits)
  have law: "-1 \<le> ret" "rx k' = (rx k)(peer fd := rx k (peer fd) + nat ret)"
    using C wr unfolding conforming_io_def by blast+
  then show ?thesis using count by (cases "ret = -1") auto
qed


section \<open>The pipe and the two directions of the socket\<close>

text \<open>The system calls with what is known of them, as a part of the state that never changes.\<close>

record 'k env =
  env_io :: "'k io"
  env_peer :: "int \<Rightarrow> int"
  env_rx :: "'k \<Rightarrow> int \<Rightarrow> nat"

definition with_env :: "('k io \<Rightarrow> 'a \<times> 'k \<Rightarrow> ('a \<times> 'k) result) \<Rightarrow> 'k env \<times> 'a \<times> 'k \<Rightarrow> ('k env \<times> 'a \<times> 'k) result" where
  "with_env f s = and_then (f (env_io (fst s)) (snd s)) (\<lambda>s'. returns (fst s, s'))"

datatype pipe_op = PSend int | PRead int | PClose

fun pipe_exec :: "pipe_op \<Rightarrow> 'k env \<times> pipe_read_end \<times> 'k \<Rightarrow> ('k env \<times> pipe_read_end \<times> 'k) result" where
  "pipe_exec (PSend n) s = with_env (\<lambda>K. PipeReadEnd_send K n) s"
| "pipe_exec (PRead n) s = with_env (\<lambda>K. PipeReadEnd_read K n) s"
| "pipe_exec PClose s = with_env PipeReadEnd_close_send s"

datatype socket_op = Send int | Recv int | Write int | Read int | CloseSend

fun socket_exec :: "socket_op \<Rightarrow> 'k env \<times> socket \<times> 'k \<Rightarrow> ('k env \<times> socket \<times> 'k) result" where
  "socket_exec (Send n) s = with_env (\<lambda>K. Socket_send K n) s"
| "socket_exec (Recv n) s = with_env (\<lambda>K. Socket_recv K n) s"
| "socket_exec (Write n) s = with_env (\<lambda>K. Socket_write K n) s"
| "socket_exec (Read n) s = with_env (\<lambda>K. Socket_read K n) s"
| "socket_exec CloseSend s = with_env Socket_close_send s"

definition pipe_wf :: "'k env \<times> pipe_read_end \<times> 'k \<Rightarrow> bool" where
  "pipe_wf s = (case s of (E, self, k) \<Rightarrow>
     conforming_io (env_io E) (env_peer E) (env_rx E) \<and> env_peer E (m_pipefd1 self) = m_pipefd0 self)"

definition socket_wf :: "'k env \<times> socket \<times> 'k \<Rightarrow> bool" where
  "socket_wf s = (case s of (E, self, k) \<Rightarrow>
     conforming_io (env_io E) (env_peer E) (env_rx E) \<and> m_client_fd self \<noteq> m_accept_fd self \<and>
     env_peer E (m_accept_fd self) = m_client_fd self \<and> env_peer E (m_client_fd self) = m_accept_fd self)"

definition flying_to :: "('a \<Rightarrow> int) \<Rightarrow> 'k env \<times> 'a \<times> 'k \<Rightarrow> nat" where
  "flying_to fd s = (case s of (E, self, k) \<Rightarrow> env_rx E k (fd self))"

lemma close_counts:
  "conforming_io K peer rx \<Longrightarrow> close_fd K fd k = Inr k' \<Longrightarrow> rx k' = rx k"
  by (auto simp: close_fd_def conforming_io_def split: prod.splits if_splits)

lemma balance_sent: "c' - r' = c - (r :: u64) \<Longrightarrow> c' - g - r' = c - g - r"
  by (simp add: algebra_simps)

lemma balance_got: "c' + r' = c + (r :: u64) \<Longrightarrow> g - c' - r' = g - c - r"
  by (metis diff_diff_eq)

lemma balance_got_only: "c' + r' = c + (r :: u64) \<Longrightarrow> - c' - r' = - c - r"
  using balance_got [of c' r' c r 0] by simp

lemmas channel_defs =
  with_env_def flying_to_def PipeReadEnd_send_def PipeReadEnd_read_def PipeReadEnd_close_send_def
  Socket_send_def Socket_recv_def Socket_write_def Socket_read_def Socket_close_send_def

interpretation pipe: counted_channel pipe_exec pipe_wf
  "\<lambda>s. p_sent (fst (snd s))" "\<lambda>s. p_read (fst (snd s))" "flying_to m_pipefd0"
proof
  fix s op s'
  assume wf: "pipe_wf s" and run: "pipe_exec op s = returns s'"
  obtain E self k where s: "s = (E, self, k)" by (cases s)
  have C: "conforming_io (env_io E) (env_peer E) (env_rx E)"
    and peer: "env_peer E (m_pipefd1 self) = m_pipefd0 self"
    using wf by (simp_all add: s pipe_wf_def)
  show "pipe_wf s'"
    using run wf by (cases op) (auto simp: s pipe_wf_def channel_defs)
  show "p_sent (fst (snd s')) - p_read (fst (snd s')) - of_nat (flying_to m_pipefd0 s') =
      p_sent (fst (snd s)) - p_read (fst (snd s)) - of_nat (flying_to m_pipefd0 s)"
    using run peer
    by (cases op) (auto simp: s channel_defs dest!: write_bytes_counts [OF C] read_bytes_counts [OF C]
        close_counts [OF C] intro: balance_sent balance_got balance_got_only)
qed

interpretation downstream: counted_channel socket_exec socket_wf
  "\<lambda>s. m_sent (fst (snd s))" "\<lambda>s. m_read (fst (snd s))" "flying_to m_client_fd"
proof
  fix s op s'
  assume wf: "socket_wf s" and run: "socket_exec op s = returns s'"
  obtain E self k where s: "s = (E, self, k)" by (cases s)
  have C: "conforming_io (env_io E) (env_peer E) (env_rx E)" and ends: "m_client_fd self \<noteq> m_accept_fd self"
    and peer: "env_peer E (m_accept_fd self) = m_client_fd self" "env_peer E (m_client_fd self) = m_accept_fd self"
    using wf by (simp_all add: s socket_wf_def)
  show "socket_wf s'"
    using run wf by (cases op) (auto simp: s socket_wf_def channel_defs)
  show "m_sent (fst (snd s')) - m_read (fst (snd s')) - of_nat (flying_to m_client_fd s') =
      m_sent (fst (snd s)) - m_read (fst (snd s)) - of_nat (flying_to m_client_fd s)"
    using run peer ends
    by (cases op) (auto simp: s channel_defs dest!: write_bytes_counts [OF C] read_bytes_counts [OF C]
        close_counts [OF C] intro: balance_sent balance_got balance_got_only)
qed


interpretation upstream: counted_channel socket_exec socket_wf
  "\<lambda>s. m_written (fst (snd s))" "\<lambda>s. m_received (fst (snd s))" "flying_to m_accept_fd"
proof
  fix s op s'
  assume wf: "socket_wf s" and run: "socket_exec op s = returns s'"
  obtain E self k where s: "s = (E, self, k)" by (cases s)
  have C: "conforming_io (env_io E) (env_peer E) (env_rx E)" and ends: "m_client_fd self \<noteq> m_accept_fd self"
    and peer: "env_peer E (m_accept_fd self) = m_client_fd self" "env_peer E (m_client_fd self) = m_accept_fd self"
    using wf by (simp_all add: s socket_wf_def)
  show "socket_wf s'" using downstream.exec_wf [OF wf run] .
  show "m_written (fst (snd s')) - m_received (fst (snd s')) - of_nat (flying_to m_accept_fd s') =
      m_written (fst (snd s)) - m_received (fst (snd s)) - of_nat (flying_to m_accept_fd s)"
    using run peer ends
    by (cases op) (auto simp: s channel_defs dest!: write_bytes_counts [OF C] read_bytes_counts [OF C]
        close_counts [OF C] intro: balance_sent balance_got balance_got_only)
qed

section \<open>A conforming environment\<close>

text \<open>Descriptors 3 and 4 are connected; a write takes everything, a read of nothing fails.\<close>

definition tank :: "(int \<Rightarrow> nat) io" where
  "tank =
     \<lparr>io_read = (\<lambda>fd n k. if k fd = 0 then (-1, k) else (int (min n (k fd)), k(fd := k fd - min n (k fd)))),
      io_write = (\<lambda>fd n k. (int n, 0, k((if fd = 4 then 3 else 4) := k (if fd = 4 then 3 else 4) + n))),
      io_close = (\<lambda>fd k. (0, k))\<rparr>"

definition tank_env :: "(int \<Rightarrow> nat) env" where
  "tank_env = \<lparr>env_io = tank, env_peer = (\<lambda>fd. if fd = 4 then 3 else 4), env_rx = (\<lambda>k. k)\<rparr>"

lemma tank_conforming: "conforming_io (env_io tank_env) (env_peer tank_env) (env_rx tank_env)"
  by (auto simp: conforming_io_def tank_def tank_env_def split: if_splits)

lemma tank_empty: "k fd = 0 \<Longrightarrow> after_reads tank fd n i k = k"
  by (induction i) (simp_all add: tank_def)

section \<open>Properties\<close>

text \<open>
  \<^bold>\<open>C35\<close>. \<^verbatim>\<open>PipeReadEnd::read\<close> returns exactly if some call of \<^verbatim>\<open>read\<close> succeeds: it counts
  what the first such call gave, and it spins for ever if there is none, be the error
  \<^verbatim>\<open>EAGAIN\<close> on an empty pipe or \<^verbatim>\<open>EBADF\<close>.
\<close>

theorem PipeReadEnd_read_result:
  assumes "0 \<le> n" and "n < s_buffer_size"
  shows "PipeReadEnd_read K n (self, k) =
    (let ready = (\<lambda>i. fst (io_read K (m_pipefd0 self) (nat n) (after_reads K (m_pipefd0 self) (nat n) i k)) \<noteq> -1)
     in if \<exists>i. ready i
        then let (ret, k') = io_read K (m_pipefd0 self) (nat n)
                               (after_reads K (m_pipefd0 self) (nat n) (LEAST i. ready i) k)
             in returns (self\<lparr>p_read := p_read self + word_of_int ret\<rparr>, k')
        else None)"
  using assms
  by (auto simp: PipeReadEnd_read_def read_bytes_def read_retry_eq Let_def split: prod.split)

theorem PipeReadEnd_read_result_witness:
  "PipeReadEnd_read tank 2048 (PipeReadEnd_ctor 3 4, \<lambda>_. 0) = None"
  using PipeReadEnd_read_result [of 2048 tank "PipeReadEnd_ctor 3 4" "\<lambda>_. 0"]
  by (simp add: s_buffer_size_def tank_empty) (simp add: tank_def)

text \<open>
  \<^bold>\<open>C33\<close>. \<^verbatim>\<open>PipeReadEnd\<close> accounts for every byte: after any operations on a new object that
  come back, \<^verbatim>\<open>m_sent\<close> is \<^verbatim>\<open>m_read\<close> and what is in the pipe, modulo \<open>2^64\<close>.
\<close>

theorem pipe_accounts:
  assumes "conforming_io (env_io E) (env_peer E) (env_rx E)" and "env_peer E fd1 = fd0"
    and "env_rx E k fd0 = 0"
    and "run_ops pipe_exec ops (E, PipeReadEnd_ctor fd0 fd1, k) = returns (E', self, k')"
  shows "p_sent self = p_read self + of_nat (env_rx E' k' (m_pipefd0 self))"
proof -
  have "pipe_wf (E, PipeReadEnd_ctor fd0 fd1, k)"
    using assms(1,2) by (simp add: pipe_wf_def PipeReadEnd_ctor_def)
  from pipe.run_balance [OF this assms(4)] assms(3) show ?thesis
    by (simp add: flying_to_def PipeReadEnd_ctor_def diff_eq_eq add.commute)
qed

theorem pipe_accounts_witness:
  "\<exists>self k. run_ops pipe_exec [PSend 10000, PRead 2048, PClose] (tank_env, PipeReadEnd_ctor 3 4, \<lambda>_. 0) =
       returns (tank_env, self, k) \<and>
     p_sent self = p_read self + of_nat (env_rx tank_env k (m_pipefd0 self)) \<and> p_read self = 2048"
proof -
  have run: "run_ops pipe_exec [PSend 10000, PRead 2048, PClose] (tank_env, PipeReadEnd_ctor 3 4, \<lambda>_. 0) =
    returns (tank_env, \<lparr>m_pipefd0 = 3, m_pipefd1 = 4, p_sent = 10000, p_read = 2048\<rparr>, (\<lambda>_. 0)(3 := 7952))"
    by (simp add: channel_defs PipeReadEnd_ctor_def write_bytes_def read_bytes_def read_retry.simps
        close_fd_def s_buffer_size_def tank_env_def tank_def)
  from pipe_accounts [OF tank_conforming _ _ run] run show ?thesis
    by (simp add: tank_env_def)
qed

text \<open>
  \<^bold>\<open>C31\<close>. \<^verbatim>\<open>Socket\<close> accounts for every byte in both directions: \<^verbatim>\<open>m_sent\<close> against \<^verbatim>\<open>m_read\<close>
  and \<^verbatim>\<open>m_written\<close> against \<^verbatim>\<open>m_received\<close>, whatever the order of the operations.
\<close>

theorem socket_accounts:
  assumes "conforming_io (env_io E) (env_peer E) (env_rx E)" and "client \<noteq> accept"
    and "env_peer E accept = client" and "env_peer E client = accept"
    and "env_rx E k client = 0" and "env_rx E k accept = 0"
    and "run_ops socket_exec ops (E, Socket_ctor client accept, k) = returns (E', self, k')"
  shows "m_sent self = m_read self + of_nat (env_rx E' k' (m_client_fd self)) \<and>
    m_written self = m_received self + of_nat (env_rx E' k' (m_accept_fd self))"
proof -
  have "socket_wf (E, Socket_ctor client accept, k)"
    using assms(1-4) by (simp add: socket_wf_def Socket_ctor_def)
  from downstream.run_balance [OF this assms(7)] upstream.run_balance [OF this assms(7)] assms(5,6)
  show ?thesis
    by (simp add: flying_to_def Socket_ctor_def diff_eq_eq add.commute)
qed

theorem socket_accounts_witness:
  "\<exists>self k. run_ops socket_exec [Send 500, Write 70, Read 100, Recv 100] (tank_env, Socket_ctor 3 4, \<lambda>_. 0) =
       returns (tank_env, self, k) \<and>
     m_sent self = m_read self + of_nat (env_rx tank_env k (m_client_fd self)) \<and>
     m_written self = m_received self + of_nat (env_rx tank_env k (m_accept_fd self)) \<and> m_read self = 100"
proof -
  have run: "run_ops socket_exec [Send 500, Write 70, Read 100, Recv 100]
      (tank_env, Socket_ctor 3 4, \<lambda>_. 0) =
    returns (tank_env,
      \<lparr>m_client_fd = 3, m_accept_fd = 4, m_sent = 500, m_received = 70, m_written = 70, m_read = 100\<rparr>,
      (\<lambda>_. 0)(4 := 0, 3 := 400))"
    by (simp add: channel_defs Socket_ctor_def write_bytes_def read_bytes_def read_retry.simps
        s_buffer_size_def tank_env_def tank_def fun_eq_iff)
  from socket_accounts [OF tank_conforming _ _ _ _ _ run] run show ?thesis
    by (simp add: tank_env_def)
qed

end
