(* ===== verification/EpollReg.thy ===== *)
theory EpollReg
  imports EpollClient
begin

text \<open>
  \<^verbatim>\<open>struct Epoll\<close> of \<^verbatim>\<open>src/epoll_states.cxx\<close>: the registration of one watched descriptor,
  always edge triggered. Each operation returns the calls of \<^verbatim>\<open>epoll_ctl\<close> it makes and the
  updated object, or the failed assertion.
\<close>

record epoll =
  m_epoll_fd :: int
  m_watched_fd :: int
  m_added :: bool
  m_current_events :: u32

text \<open>The constructor; the descriptor that \<^verbatim>\<open>epoll_create(1)\<close> returned is an argument.\<close>

definition Epoll_ctor :: "int \<Rightarrow> int \<Rightarrow> epoll" where
  "Epoll_ctor created watched_fd =
     \<lparr>m_epoll_fd = created, m_watched_fd = watched_fd, m_added = False, m_current_events = 0\<rparr>"

definition add_fd_with_events :: "u32 \<Rightarrow> epoll \<Rightarrow> fault + ctl list \<times> epoll" where
  "add_fd_with_events events ep =
     (if m_added ep then Inl AssertFailed
      else if m_current_events ep \<noteq> 0 then Inl AssertFailed
      else
        let ep' = ep\<lparr>m_current_events := events OR EPOLLET\<rparr>
        in Inr ([CTL_ADD (m_current_events ep')], ep'\<lparr>m_added := True\<rparr>))"

definition mod_fd :: "u32 \<Rightarrow> epoll \<Rightarrow> fault + ctl list \<times> epoll" where
  "mod_fd new_events ep =
     (if \<not> m_added ep then Inl AssertFailed
      else
        let new_events' = new_events OR EPOLLET
        in if m_current_events ep = new_events' then Inl AssertFailed
           else Inr ([CTL_MOD new_events'], ep\<lparr>m_current_events := new_events'\<rparr>))"

definition del_fd :: "epoll \<Rightarrow> fault + ctl list \<times> epoll" where
  "del_fd ep =
     (if \<not> m_added ep then Inl AssertFailed
      else Inr ([CTL_DEL], ep\<lparr>m_current_events := 0, m_added := False\<rparr>))"

datatype reg_op = Add u32 | Mod u32 | Del

fun reg_exec :: "reg_op \<Rightarrow> epoll \<Rightarrow> fault + ctl list \<times> epoll" where
  "reg_exec (Add events) ep = add_fd_with_events events ep"
| "reg_exec (Mod events) ep = mod_fd events ep"
| "reg_exec Del ep = del_fd ep"

text \<open>
  Well-formedness: the mask is 0 exactly while the descriptor is not registered, and a
  registered mask is edge triggered.
\<close>

definition reg_wf :: "epoll \<Rightarrow> bool" where
  "reg_wf ep \<longleftrightarrow>
     (if m_added ep then m_current_events ep AND EPOLLET = EPOLLET
      else m_current_events ep = 0)"

definition reg_interest :: "epoll \<Rightarrow> u32 option" where
  "reg_interest ep = (if m_added ep then Some (m_current_events ep) else None)"

lemmas reg_op_defs [run_simps] =
  add_fd_with_events_def mod_fd_def del_fd_def Let_def

fun_cases reg_exec_returns: "reg_exec op ep = Inr r"

lemma or_absorbs: "(m OR e) AND e = (e :: u32)"
  by (rule bit_word_eqI) (auto simp: bit_simps)

lemma reg_wf_ctor: "reg_wf (Epoll_ctor created watched)"
  by (simp add: reg_wf_def Epoll_ctor_def)

interpretation reg: ctl_client reg_exec reg_wf reg_interest
proof
  fix s op cs s'
  assume wf: "reg_wf s" and run: "reg_exec op s = Inr (cs, s')"
  show "reg_wf s'"
    using wf run
    by (cases op) (auto simp: reg_wf_def reg_op_defs or_absorbs split: if_splits)
  show "ctl_run (reg_interest s) cs = Some (reg_interest s')"
    using wf run
    by (cases op) (auto simp: reg_interest_def reg_op_defs split: if_splits)
qed



text \<open>
  The assertions accept exactly the sequences in which adding and deleting alternate and no
  \<^verbatim>\<open>mod_fd\<close> repeats the mask in force.
\<close>

lemma reg_exec_accepts_iff:
  assumes "reg_wf ep"
  shows "(\<exists>r. reg_exec op ep = Inr r) \<longleftrightarrow>
    (case op of
       Add _ \<Rightarrow> reg_interest ep = None
     | Mod events \<Rightarrow> \<exists>m. reg_interest ep = Some m \<and> m \<noteq> events OR EPOLLET
     | Del \<Rightarrow> reg_interest ep \<noteq> None)"
  using assms
  by (cases op) (auto simp: reg_interest_def reg_wf_def reg_op_defs)

end
