(* ===== verification/EpollMain.thy ===== *)
theory EpollMain
  imports EpollThread EpollIO EpollReg
begin

text \<open>
  The main program of \<^verbatim>\<open>src/epoll_states.cxx\<close>: the pipe, the registration of its read end and the
  worker with its event loop, together. The calls of \<^verbatim>\<open>main\<close> are executed one after the other, the
  steps of the worker in between.
\<close>

section \<open>State\<close>

text \<open>\<open>Start\<close> and \<open>Stop\<close> are the constructor and the destructor of \<^verbatim>\<open>epoll_thread\<close>.\<close>

datatype epoll_call = Start | AddFd u32 | Send int | CloseSend | Enter | Read int | Stop

definition epoll_calls :: "epoll_call list" where
  "epoll_calls =
     [Start, AddFd EPOLLIN, Send 10000, CloseSend, Enter, Enter, Read 2048, Enter, Enter, Stop]"

text \<open>
  The descriptor is registered edge triggered: \<open>edge\<close> says that something happened to the pipe
  that \<^verbatim>\<open>epoll_wait\<close> has not reported yet.
\<close>

record 'k epoll_main =
  the_thread :: epoll_thread
  edge :: bool
  the_epoll :: epoll
  the_pipe :: pipe_read_end
  the_kernel :: 'k
  todo :: "epoll_call list"

definition main_start :: "int \<Rightarrow> int \<Rightarrow> int \<Rightarrow> 'k \<Rightarrow> 'k epoll_main" where
  "main_start epfd fd0 fd1 k =
     \<lparr>the_thread = EpollThread_init, edge = False, the_epoll = Epoll_ctor epfd fd0,
      the_pipe = PipeReadEnd_ctor fd0 fd1, the_kernel = k, todo = epoll_calls\<rparr>"

section \<open>Steps\<close>

text \<open>A call on the pipe; one that never returns has no result. \<open>happens\<close> says whether it makes an edge.\<close>

definition pipe_call ::
    "(pipe_read_end \<times> 'k) result \<Rightarrow> (pipe_read_end \<Rightarrow> bool) \<Rightarrow> 'k epoll_main \<Rightarrow> (fault + 'k epoll_main) list" where
  "pipe_call result happens s =
     (case result of
        None \<Rightarrow> []
      | Some (Inl e) \<Rightarrow> [Inl e]
      | Some (Inr (self, k)) \<Rightarrow>
          [Inr (s\<lparr>the_pipe := self, the_kernel := k,
                  edge := edge s \<or> m_added (the_epoll s) \<and> happens self\<rparr>)])"

fun exec_call :: "'k io \<Rightarrow> epoll_call \<Rightarrow> 'k epoll_main \<Rightarrow> (fault + 'k epoll_main) list" where
  "exec_call K Start s = [Inr (s\<lparr>the_thread := start (the_thread s)\<rparr>)]"
| "exec_call K (AddFd events) s =
     (case add_fd_with_events events (the_epoll s) of
        Inl e \<Rightarrow> [Inl e]
      | Inr (ctls, ep) \<Rightarrow> [Inr (s\<lparr>the_epoll := ep\<rparr>)])"
| "exec_call K (Send n) s =
     pipe_call (PipeReadEnd_send K n (the_pipe s, the_kernel s)) (\<lambda>self. p_sent self \<noteq> p_sent (the_pipe s)) s"
| "exec_call K CloseSend s =
     pipe_call (PipeReadEnd_close_send K (the_pipe s, the_kernel s)) (\<lambda>_. True) s"
| "exec_call K Enter s = map (\<lambda>e. Inr (s\<lparr>the_thread := e\<rparr>)) (enter_epoll_wait (the_thread s))"
| "exec_call K (Read n) s =
     pipe_call (PipeReadEnd_read K n (the_pipe s, the_kernel s)) (\<lambda>_. False) s"
| "exec_call K Stop s = [Inr (s\<lparr>the_thread := stop_call (the_thread s)\<rparr>)]"

text \<open>
  What the worker does, and the main thread inside a call. \<^verbatim>\<open>epoll_wait\<close> reports an event if there
  was an edge, and only then; it is consumed.
\<close>

inductive run_step :: "bool \<times> epoll_thread \<Rightarrow> bool \<times> epoll_thread \<Rightarrow> bool" where
  first_pause: "worker e = Starting \<Longrightarrow> run_step (b, e) (b, pause_call yielding False e)"
| pause: "worker e = Pausing st no_wait \<Longrightarrow> f \<in> set (pause_section st no_wait e) \<Longrightarrow> run_step (b, e) (b, f)"
| recheck: "worker e = Woken st \<Longrightarrow> run_step (b, e) (b, wait_not_paused st e)"
| spurious: "worker e = Waiting st \<Longrightarrow> run_step (b, e) (b, e\<lparr>worker := Woken st\<rparr>)"
| main_recheck: "main_thread e = WokenUp c \<Longrightarrow> run_step (b, e) (b, wait_paused c e)"
| main_spurious: "main_thread e = WaitPaused c \<Longrightarrow> run_step (b, e) (b, e\<lparr>main_thread := WokenUp c\<rparr>)"
| stop_section: "main_thread e = Stopping \<Longrightarrow> f \<in> set (stop_section e) \<Longrightarrow> run_step (b, e) (b, f)"
| stop_wakeup: "main_thread e = Signalling \<Longrightarrow> run_step (b, e) (b, (wakeup e)\<lparr>main_thread := Joining\<rparr>)"
| join: "main_thread e = Joining \<Longrightarrow> worker e = Exited \<Longrightarrow> run_step (b, e) (b, e\<lparr>main_thread := Joined\<rparr>)"
| loop_test: "worker e = Testing \<Longrightarrow> loop_pc e = LoopTest \<Longrightarrow> run_step (b, e) (b, loop_test e)"
| do_body: "worker e = Testing \<Longrightarrow> loop_pc e = DoBody t \<Longrightarrow> run_step (b, e) (b, do_body t e)"
| timeout: "worker e = Testing \<Longrightarrow> loop_pc e = InEpollWait t False \<Longrightarrow> 0 \<le> t \<Longrightarrow>
    run_step (False, e) (False, epoll_wait_returns 0 e)"
| interrupted: "worker e = Testing \<Longrightarrow> loop_pc e = InEpollWait t True \<Longrightarrow>
    run_step (b, e) (b, epoll_wait_returns (-1) e)"
| event: "worker e = Testing \<Longrightarrow> loop_pc e = InEpollWait t i \<Longrightarrow>
    run_step (True, e) (False, epoll_wait_returns 1 e)"
| got_event: "worker e = Testing \<Longrightarrow> loop_pc e = GotEvent \<Longrightarrow> run_step (b, e) (b, got_event e)"
| after_pause: "worker e = Testing \<Longrightarrow> loop_pc e = AfterPause \<Longrightarrow> run_step (b, e) (b, after_pause e)"

inductive_cases run_stepE: "run_step (b, e) (c, f)"

inductive main_step :: "'k io \<Rightarrow> 'k epoll_main \<Rightarrow> fault + 'k epoll_main \<Rightarrow> bool" for K where
  call: "main_thread (the_thread s) = Idle \<Longrightarrow> todo s = c # cs \<Longrightarrow> r \<in> set (exec_call K c s) \<Longrightarrow>
    main_step K s (map_sum id (\<lambda>s'. s'\<lparr>todo := cs\<rparr>) r)"
| run: "run_step (edge s, the_thread s) (b, e) \<Longrightarrow> main_step K s (Inr (s\<lparr>edge := b, the_thread := e\<rparr>))"

definition main_steps :: "'k io \<Rightarrow> 'k epoll_main \<Rightarrow> 'k epoll_main \<Rightarrow> bool" where
  "main_steps K = (\<lambda>s s'. main_step K s (Inr s'))\<^sup>*\<^sup>*"

text \<open>These are steps of the thread on its own: its properties hold here.\<close>

lemma run_step_epoll: "run_step (b, e) (c, f) \<Longrightarrow> epoll_step e f"
  by (erule run_stepE) (auto intro: epoll_step.intros sync_step.intros)

section \<open>The phases of main\<close>

text \<open>Until the first \<open>Enter\<close>: the worker goes to its first pause.\<close>

definition starting :: "epoll_thread \<Rightarrow> bool" where
  "starting e \<longleftrightarrow>
     loop_pc e = LoopTest \<and> m_state e = yielding \<and> returned e = None \<and>
     (if m_paused e
      then worker e \<in> {Waiting yielding, Woken yielding} \<and> main_thread e \<in> {Idle, WokenUp InStart}
      else worker e \<in> {Starting, Pausing yielding False} \<and>
        main_thread e \<in> {WaitPaused InStart, WokenUp InStart})"

text \<open>The first \<open>Enter\<close>: the edge is reported and the worker pauses.\<close>

definition first_event :: "bool \<Rightarrow> epoll_thread \<Rightarrow> bool" where
  "first_event b e \<longleftrightarrow>
     m_state e = yielding \<and>
     (if m_paused e
      then \<not> b \<and> loop_pc e = AfterPause \<and> worker e \<in> {Waiting yielding, Woken yielding} \<and>
        (main_thread e = WokenUp InStep \<or> main_thread e = Idle \<and> returned e = Some yielding)
      else main_thread e \<in> {WaitPaused InStep, WokenUp InStep} \<and>
        (worker e = Woken yielding \<and> loop_pc e = LoopTest \<and> b \<or>
         worker e = Testing \<and> (if b then loop_pc e \<in> {LoopTest, DoBody 1, InEpollWait 1 False} else loop_pc e = GotEvent) \<or>
         worker e = Pausing yielding False \<and> loop_pc e = AfterPause \<and> \<not> b))"

text \<open>From the second one on: there are only timeouts, and the worker no longer waits in its pauses.\<close>

definition poll_place :: "epoll_thread \<Rightarrow> bool" where
  "poll_place e \<longleftrightarrow>
     worker e = Testing \<and> loop_pc e \<in> {InEpollWait 1 False, DoBody (-1)} \<or>
     worker e = Pausing blocking True \<and> loop_pc e = InEpollWait 1 False"

definition polling :: "epoll_thread \<Rightarrow> bool" where
  "polling e \<longleftrightarrow>
     (worker e = Pausing blocking True \<longrightarrow> m_state e = blocking) \<and>
     (if m_paused e
      then m_state e = blocking \<and> poll_place e \<and>
        (main_thread e = WokenUp InStep \<or> main_thread e = Idle \<and> returned e = Some blocking)
      else main_thread e \<in> {WaitPaused InStep, WokenUp InStep} \<and>
        (worker e = Woken yielding \<and> loop_pc e = AfterPause \<or>
         worker e = Testing \<and> loop_pc e \<in> {AfterPause, LoopTest, DoBody 1} \<or> poll_place e))"

definition stopping :: "epoll_thread \<Rightarrow> bool" where
  "stopping e \<longleftrightarrow> main_thread e \<in> {Stopping, Signalling, Joining, Joined}"

text \<open>\<open>k\<close> calls have been made.\<close>

definition phase :: "nat \<Rightarrow> bool \<Rightarrow> epoll_thread \<Rightarrow> bool" where
  "phase k b e \<longleftrightarrow>
     (if k = 0 then e = EpollThread_init
      else if k \<le> 4 then starting e \<and> (k = 4 \<longrightarrow> b)
      else if k = 5 then first_event b e
      else if k \<le> 9 then polling e \<and> \<not> b
      else stopping e)"

definition main_at :: "int \<Rightarrow> int \<Rightarrow> nat \<Rightarrow> 'k epoll_main \<Rightarrow> bool" where
  "main_at fd0 fd1 k s \<longleftrightarrow>
     k \<le> 10 \<and> todo s = drop k epoll_calls \<and> phase k (edge s) (the_thread s) \<and>
     (k \<le> 9 \<longrightarrow> \<not> m_last_permutation (the_thread s) \<and> \<not> m_wait_for_returned_from_epoll_wait (the_thread s)) \<and>
     (k < 2 \<longrightarrow> \<not> m_added (the_epoll s) \<and> m_current_events (the_epoll s) = 0) \<and>
     (2 \<le> k \<longrightarrow> m_added (the_epoll s)) \<and>
     m_pipefd0 (the_pipe s) = fd0 \<and> m_pipefd1 (the_pipe s) = fd1"

lemmas phase_defs = starting_def first_event_def poll_place_def polling_def stopping_def

text \<open>The steps within a phase.\<close>

lemma quiet_calls:
  "f \<in> set (pause_section st nw e) \<Longrightarrow> m_last_permutation f = m_last_permutation e \<and>
     m_wait_for_returned_from_epoll_wait f = m_wait_for_returned_from_epoll_wait e"
  "f \<in> set (stop_section e) \<Longrightarrow> m_last_permutation f = m_last_permutation e \<and>
     m_wait_for_returned_from_epoll_wait f = m_wait_for_returned_from_epoll_wait e"
  "m_last_permutation (wakeup e) = m_last_permutation e"
  "m_wait_for_returned_from_epoll_wait (wakeup e) = m_wait_for_returned_from_epoll_wait e"
  by (auto simp: thread_op_defs wakeup_def split: worker_pc.splits main_pc.splits loop_pc.splits if_splits)

lemma quiet_flags:
  assumes "run_step (b, e) (c, f)"
  shows "m_last_permutation f = m_last_permutation e \<and>
    m_wait_for_returned_from_epoll_wait f = m_wait_for_returned_from_epoll_wait e"
  using assms
  by (rule run_stepE)
    (simp_all add: quiet_calls wait_not_paused_def wait_paused_def pause_call_def loop_test_def do_body_def
      epoll_wait_returns_def got_event_def after_pause_def split: loop_pc.splits)

lemma starting_run: "run_step (b, e) (c, f) \<Longrightarrow> starting e \<Longrightarrow> starting f \<and> c = b"
  by (erule run_stepE) (auto simp: starting_def thread_op_defs split: if_splits)

lemma first_event_run:
  "run_step (b, e) (c, f) \<Longrightarrow> first_event b e \<Longrightarrow> \<not> m_last_permutation e \<Longrightarrow> first_event c f"
  by (erule run_stepE) (auto simp: first_event_def thread_op_defs loop_op_defs split: if_splits)

lemma polling_run:
  assumes "run_step (False, e) (c, f)" "polling e" "\<not> m_last_permutation e"
    "\<not> m_wait_for_returned_from_epoll_wait e"
  shows "polling f \<and> \<not> c"
  using assms(1)
proof cases
  case (pause st no_wait)
  then have "st = blocking" "no_wait" using assms(2) by (simp_all add: polling_def poll_place_def split: if_splits)
  with pause have "f \<in> set (pause_section blocking True e)" "\<not> c" by simp_all
  with assms(2) pause(2) \<open>st = blocking\<close> show ?thesis
    by (auto simp: polling_def poll_place_def pause_section_def notify_one_def split: if_splits)
qed (use assms(2-) in \<open>auto simp: polling_def poll_place_def thread_op_defs loop_op_defs split: if_splits\<close>)

lemma stopping_run: "run_step (b, e) (c, f) \<Longrightarrow> stopping e \<Longrightarrow> stopping f"
  by (erule run_stepE)
    (auto simp: stopping_def thread_op_defs loop_op_defs split: worker_pc.splits main_pc.splits caller.splits)

lemma phase_run:
  assumes "run_step (b, e) (c, f)" "phase k b e"
    and "k \<le> 9 \<longrightarrow> \<not> m_last_permutation e \<and> \<not> m_wait_for_returned_from_epoll_wait e"
  shows "phase k c f"
proof -
  have "\<not> run_step (b, EpollThread_init) (c, f)"
    by (auto elim!: run_stepE simp: EpollThread_init_def permuter.extend_def Thread_init_def)
  then show ?thesis
    using assms starting_run [OF assms(1)] first_event_run [OF assms(1)] polling_run [of e c f]
      stopping_run [OF assms(1)]
    by (auto simp: phase_def split: if_splits)
qed

lemma main_at_run:
  assumes "run_step (edge s, the_thread s) (b, e)" "main_at fd0 fd1 k s"
  shows "main_at fd0 fd1 k (s\<lparr>edge := b, the_thread := e\<rparr>)"
  using assms(2) phase_run [OF assms(1), of k] quiet_flags [OF assms(1)] by (simp add: main_at_def)

text \<open>What is needed of the calls on the writing end: \<^verbatim>\<open>write\<close> can only fail with \<^verbatim>\<open>EAGAIN\<close>, \<^verbatim>\<open>close\<close> not at all.\<close>

definition pipe_calls_ok :: "'k io \<Rightarrow> int \<Rightarrow> bool" where
  "pipe_calls_ok K fd1 \<longleftrightarrow>
     (\<forall>n k r e k'. io_write K fd1 n k = (r, e, k') \<longrightarrow> r = -1 \<longrightarrow> e = EAGAIN) \<and>
     (\<forall>k r k'. io_close K fd1 k = (r, k') \<longrightarrow> 0 \<le> r)"

lemma pipe_call_ok:
  assumes "r \<in> set (pipe_call result happens s)" "\<And>e. result \<noteq> faults e"
  obtains self k where "result = returns (self, k)"
    "r = Inr (s\<lparr>the_pipe := self, the_kernel := k, edge := edge s \<or> m_added (the_epoll s) \<and> happens self\<rparr>)"
proof (cases result)
  case None
  then show thesis using assms(1) by (simp add: pipe_call_def)
next
  case (Some x)
  then show thesis using assms that by (cases x) (auto simp: pipe_call_def)
qed

lemma pipe_ops_ok:
  assumes "pipe_calls_ok K (m_pipefd1 self)"
  shows "PipeReadEnd_send K 10000 (self, k) \<noteq> faults e"
    "PipeReadEnd_close_send K (self, k) \<noteq> faults e"
    "PipeReadEnd_read K 2048 (self, k) \<noteq> faults e"
proof -
  have wr: "r = -1 \<Longrightarrow> err = EAGAIN" if "io_write K (m_pipefd1 self) n k = (r, err, k')" for n r err k'
    using assms that unfolding pipe_calls_ok_def by blast
  have cl: "0 \<le> r" if "io_close K (m_pipefd1 self) k = (r, k')" for r k'
    using assms that unfolding pipe_calls_ok_def by blast
  show "PipeReadEnd_send K 10000 (self, k) \<noteq> faults e"
    by (auto simp: PipeReadEnd_send_def write_bytes_def s_buffer_size_def and_then_def dest: wr
        split: prod.splits)
  show "PipeReadEnd_close_send K (self, k) \<noteq> faults e"
    by (auto simp: PipeReadEnd_close_send_def close_fd_def and_then_def dest: cl split: prod.splits)
  show "PipeReadEnd_read K 2048 (self, k) \<noteq> faults e"
    by (auto simp: PipeReadEnd_read_def read_bytes_def s_buffer_size_def and_then_def
        split: prod.splits option.splits)
qed

lemma pipe_ops_fds:
  "PipeReadEnd_send K n (self, k) = returns (self', k') \<Longrightarrow>
     m_pipefd0 self' = m_pipefd0 self \<and> m_pipefd1 self' = m_pipefd1 self"
  "PipeReadEnd_close_send K (self, k) = returns (self', k') \<Longrightarrow> self' = self"
  "PipeReadEnd_read K n (self, k) = returns (self', k') \<Longrightarrow>
     m_pipefd0 self' = m_pipefd0 self \<and> m_pipefd1 self' = m_pipefd1 self"
  by (auto simp: PipeReadEnd_send_def PipeReadEnd_close_send_def PipeReadEnd_read_def)

lemma enter_phase:
  assumes "main_thread e = Idle" "f \<in> set (enter_epoll_wait e)"
  shows "starting e \<Longrightarrow> first_event True f" "first_event b e \<Longrightarrow> polling f \<and> \<not> b" "polling e \<Longrightarrow> polling f"
    "m_last_permutation f = m_last_permutation e"
    "m_wait_for_returned_from_epoll_wait f = m_wait_for_returned_from_epoll_wait e"
  using assms
  by (auto simp: phase_defs enter_epoll_wait_def thread_op_defs split: if_splits worker_pc.splits)

lemma next_call:
  assumes "drop k epoll_calls = c # cs"
  shows "k < 10" "c = epoll_calls ! k" "cs = drop (Suc k) epoll_calls"
proof -
  have "k < length epoll_calls" using assms by (metis drop_eq_Nil leI list.distinct(1))
  then show "k < 10" "c = epoll_calls ! k" "cs = drop (Suc k) epoll_calls"
    using assms Cons_nth_drop_Suc [of k epoll_calls] by (simp_all add: epoll_calls_def del: drop_Suc_Cons)
qed

text \<open>Each call goes to the next phase.\<close>

lemma main_at_call:
  assumes K: "pipe_calls_ok K fd1" and at: "main_at fd0 fd1 k s"
    and idle: "main_thread (the_thread s) = Idle"
    and c: "todo s = c # cs" "r \<in> set (exec_call K c s)"
  shows "\<exists>s'. r = Inr s' \<and> main_at fd0 fd1 (Suc k) (s'\<lparr>todo := cs\<rparr>)"
proof -
  have n: "k < 10" "c = epoll_calls ! k" "cs = drop (Suc k) epoll_calls"
    using next_call [of k c cs] at c(1) by (simp_all add: main_at_def)
  have fd: "m_pipefd0 (the_pipe s) = fd0" "m_pipefd1 (the_pipe s) = fd1"
    using at by (simp_all add: main_at_def)
  have ops: "pipe_calls_ok K (m_pipefd1 (the_pipe s))" using K fd by simp
  consider "k = 0" | "k = 1" | "k = 2" | "k = 3" | "k \<in> {4, 5, 7, 8}" | "k = 6" | "k = 9"
    using n(1) by fastforce
  then show ?thesis
  proof cases
    case 1
    then have "r = Inr (s\<lparr>the_thread := start EpollThread_init\<rparr>)"
      using c(2) n(2) at by (simp add: epoll_calls_def main_at_def phase_def)
    moreover have "starting (start EpollThread_init)"
      "\<not> m_last_permutation (start EpollThread_init)"
      "\<not> m_wait_for_returned_from_epoll_wait (start EpollThread_init)"
      by (simp_all add: starting_def thread_op_defs EpollThread_init_def permuter.extend_def Thread_init_def)
    ultimately show ?thesis
      using 1 at n(3) by (simp add: main_at_def phase_def)
  next
    case 2
    then have "r = Inr (s\<lparr>the_epoll := (the_epoll s)\<lparr>m_current_events := EPOLLIN OR EPOLLET, m_added := True\<rparr>\<rparr>)"
      using c(2) n(2) at by (simp add: epoll_calls_def main_at_def add_fd_with_events_def Let_def)
    then show ?thesis
      using 2 at n(3) by (simp add: main_at_def phase_def)
  next
    case 3
    then have "r \<in> set (pipe_call (PipeReadEnd_send K 10000 (the_pipe s, the_kernel s))
        (\<lambda>self. p_sent self \<noteq> p_sent (the_pipe s)) s)"
      using c(2) n(2) by (simp add: epoll_calls_def)
    then obtain self k where "r = Inr (s\<lparr>the_pipe := self, the_kernel := k,
        edge := edge s \<or> m_added (the_epoll s) \<and> p_sent self \<noteq> p_sent (the_pipe s)\<rparr>)"
      and ret: "PipeReadEnd_send K 10000 (the_pipe s, the_kernel s) = returns (self, k)"
      by (rule pipe_call_ok [OF _ pipe_ops_ok(1) [OF ops]]) blast
    then show ?thesis
      using 3 at n(3) pipe_ops_fds(1) [OF ret] by (auto simp: main_at_def phase_def)
  next
    case 4
    then have "r \<in> set (pipe_call (PipeReadEnd_close_send K (the_pipe s, the_kernel s)) (\<lambda>_. True) s)"
      using c(2) n(2) by (simp add: epoll_calls_def)
    then obtain self k where "r = Inr (s\<lparr>the_pipe := self, the_kernel := k,
        edge := edge s \<or> m_added (the_epoll s) \<and> True\<rparr>)"
      and ret: "PipeReadEnd_close_send K (the_pipe s, the_kernel s) = returns (self, k)"
      by (rule pipe_call_ok [OF _ pipe_ops_ok(2) [OF ops]]) blast
    then show ?thesis
      using 4 at n(3) pipe_ops_fds(2) [OF ret] by (auto simp: main_at_def phase_def)
  next
    case 5
    then have "c = Enter" using n(2) by (auto simp: epoll_calls_def)
    then obtain f where f: "f \<in> set (enter_epoll_wait (the_thread s))" "r = Inr (s\<lparr>the_thread := f\<rparr>)"
      using c(2) by auto
    note enter = enter_phase [OF idle f(1)]
    have "phase k (edge s) (the_thread s)" using at by (simp add: main_at_def)
    then have "phase (Suc k) (edge s) f"
      using 5 enter(1,3) enter(2) [of "edge s"] by (auto simp: phase_def)
    then show ?thesis
      using 5 at n(3) f(2) enter(4,5) by (auto simp: main_at_def)
  next
    case 6
    then have "r \<in> set (pipe_call (PipeReadEnd_read K 2048 (the_pipe s, the_kernel s)) (\<lambda>_. False) s)"
      using c(2) n(2) by (simp add: epoll_calls_def)
    then obtain self k where "r = Inr (s\<lparr>the_pipe := self, the_kernel := k,
        edge := edge s \<or> m_added (the_epoll s) \<and> False\<rparr>)"
      and ret: "PipeReadEnd_read K 2048 (the_pipe s, the_kernel s) = returns (self, k)"
      by (rule pipe_call_ok [OF _ pipe_ops_ok(3) [OF ops]]) blast
    then show ?thesis
      using 6 at n(3) pipe_ops_fds(3) [OF ret] by (auto simp: main_at_def phase_def)
  next
    case 7
    then have "r = Inr (s\<lparr>the_thread := stop_call (the_thread s)\<rparr>)"
      using c(2) n(2) by (simp add: epoll_calls_def)
    then show ?thesis
      using 7 at n(3) by (simp add: main_at_def phase_def stopping_def stop_call_def)
  qed
qed

definition main_reachable :: "'k io \<Rightarrow> int \<Rightarrow> int \<Rightarrow> int \<Rightarrow> 'k \<Rightarrow> 'k epoll_main \<Rightarrow> bool" where
  "main_reachable K epfd fd0 fd1 k = main_steps K (main_start epfd fd0 fd1 k)"

lemma main_at_step:
  assumes "pipe_calls_ok K fd1" "main_at fd0 fd1 k s" "main_step K s r"
  shows "\<exists>s' l. r = Inr s' \<and> main_at fd0 fd1 l s'"
  using assms(3)
proof cases
  case (call c cs r')
  from main_at_call [OF assms(1,2) call(2,3,4)] show ?thesis
    using call(1) by auto
next
  case (run b e)
  then show ?thesis using main_at_run [OF run(2) assms(2)] by blast
qed

lemma main_at_start: "main_at fd0 fd1 0 (main_start epfd fd0 fd1 k)"
  by (simp add: main_at_def main_start_def phase_def EpollThread_init_def permuter.extend_def
      Thread_init_def Epoll_ctor_def PipeReadEnd_ctor_def)

lemma main_reachable_at:
  assumes "pipe_calls_ok K fd1" "main_reachable K epfd fd0 fd1 k0 s"
  shows "\<exists>k. main_at fd0 fd1 k s"
  using assms(2) unfolding main_reachable_def main_steps_def
proof (induction rule: rtranclp_induct)
  case base
  show ?case by (rule exI, rule main_at_start)
next
  case (step s s')
  then show ?case using main_at_step [OF assms(1)] by fastforce
qed

lemma phase_returned:
  assumes "phase k b e" "main_thread e = Idle"
  shows "returned e = (if k \<le> 4 then None else if k = 5 then Some yielding else Some blocking)"
proof -
  consider "k = 0" | "k \<noteq> 0" "k \<le> 4" | "k = 5" | "5 < k" "k \<le> 9" | "9 < k" by linarith
  then show ?thesis
    using assms by cases (auto simp: phase_def phase_defs EpollThread_init_def permuter.extend_def
        Thread_init_def split: if_splits)
qed

section \<open>Properties\<close>

text \<open>
  \<^bold>\<open>C4\<close>. In every execution of \<^verbatim>\<open>main\<close> no assertion fails, and whenever \<^verbatim>\<open>main\<close> goes on after
  \<^verbatim>\<open>enter_epoll_wait\<close>, its \<^verbatim>\<open>step\<close> has returned \<^verbatim>\<open>yielding\<close> the first time, for the one event that the
  edge triggered descriptor reports, and \<^verbatim>\<open>blocking\<close> each time after that: the \<^verbatim>\<open>EPOLLHUP\<close> that the
  comments in \<^verbatim>\<open>main\<close> ask for does not come again.
\<close>

theorem epoll_main_results:
  assumes "pipe_calls_ok K fd1" and "main_reachable K epfd fd0 fd1 k0 s"
  shows "\<not> main_step K s (Inl e) \<and>
    (main_thread (the_thread s) = Idle \<longrightarrow>
       returned (the_thread s) =
         (let enters = 4 - length (filter (\<lambda>c. c = Enter) (todo s))
          in if enters = 0 then None else if enters = 1 then Some yielding else Some blocking))"
proof
  obtain k where at: "main_at fd0 fd1 k s"
    using main_reachable_at [OF assms] by blast
  show "\<not> main_step K s (Inl e)"
    using main_at_step [OF assms(1) at] by fastforce
  have "k \<le> 10" using at by (simp add: main_at_def)
  then have "k \<in> set [0..<11]" by simp
  moreover have "list_all (\<lambda>k. 4 - length (filter (\<lambda>c. c = Enter) (drop k epoll_calls)) =
      (if k \<le> 4 then 0 else if k = 5 then 1 else if k \<le> 7 then 2 else if k = 8 then 3 else 4)) [0..<11]"
    by (simp add: upt_rec epoll_calls_def)
  ultimately have "4 - length (filter (\<lambda>c. c = Enter) (drop k epoll_calls)) =
      (if k \<le> 4 then 0 else if k = 5 then 1 else if k \<le> 7 then 2 else if k = 8 then 3 else 4)"
    unfolding list_all_iff by blast
  moreover have "todo s = drop k epoll_calls" using at by (simp add: main_at_def)
  moreover have "k \<le> 10" "phase k (edge s) (the_thread s)" using at by (simp_all add: main_at_def)
  ultimately show "main_thread (the_thread s) = Idle \<longrightarrow>
       returned (the_thread s) =
         (let enters = 4 - length (filter (\<lambda>c. c = Enter) (todo s))
          in if enters = 0 then None else if enters = 1 then Some yielding else Some blocking)"
    using phase_returned by (auto simp: Let_def)
qed

text \<open>
  Runs with a given schedule: the next call of \<^verbatim>\<open>main\<close>, the rest of the call the main thread is in,
  or the worker.
\<close>

datatype actor = Call | MainGoesOn | WorkerGoesOn

fun worker_go :: "bool \<times> epoll_thread \<Rightarrow> (bool \<times> epoll_thread) option" where
  "worker_go (b, e) =
     (case worker e of
        Starting \<Rightarrow> Some (b, pause_call yielding False e)
      | Pausing st no_wait \<Rightarrow> Some (b, hd (pause_section st no_wait e))
      | Woken st \<Rightarrow> Some (b, wait_not_paused st e)
      | Testing \<Rightarrow>
          (case loop_pc e of
             LoopTest \<Rightarrow> Some (b, loop_test e)
           | DoBody t \<Rightarrow> Some (b, do_body t e)
           | InEpollWait t i \<Rightarrow>
               if i then Some (b, epoll_wait_returns (-1) e)
               else if b then Some (False, epoll_wait_returns 1 e)
               else if 0 \<le> t then Some (False, epoll_wait_returns 0 e) else None
           | GotEvent \<Rightarrow> Some (b, got_event e)
           | AfterPause \<Rightarrow> Some (b, after_pause e))
      | _ \<Rightarrow> None)"

fun main_go :: "bool \<times> epoll_thread \<Rightarrow> (bool \<times> epoll_thread) option" where
  "main_go (b, e) =
     (case main_thread e of
        WokenUp c \<Rightarrow> Some (b, wait_paused c e)
      | Stopping \<Rightarrow> Some (b, hd (stop_section e))
      | Signalling \<Rightarrow> Some (b, (wakeup e)\<lparr>main_thread := Joining\<rparr>)
      | Joining \<Rightarrow> if worker e = Exited then Some (b, e\<lparr>main_thread := Joined\<rparr>) else None
      | _ \<Rightarrow> None)"

fun actor_go :: "'k io \<Rightarrow> actor \<Rightarrow> 'k epoll_main \<Rightarrow> 'k epoll_main option" where
  "actor_go K Call s =
     (if main_thread (the_thread s) = Idle
      then (case todo s of
              [] \<Rightarrow> None
            | c # cs \<Rightarrow> (case exec_call K c s of Inr s' # _ \<Rightarrow> Some (s'\<lparr>todo := cs\<rparr>) | _ \<Rightarrow> None))
      else None)"
| "actor_go K MainGoesOn s =
     map_option (\<lambda>(b, e). s\<lparr>edge := b, the_thread := e\<rparr>) (main_go (edge s, the_thread s))"
| "actor_go K WorkerGoesOn s =
     map_option (\<lambda>(b, e). s\<lparr>edge := b, the_thread := e\<rparr>) (worker_go (edge s, the_thread s))"

fun schedule :: "'k io \<Rightarrow> actor list \<Rightarrow> 'k epoll_main \<Rightarrow> 'k epoll_main option" where
  "schedule K [] s = Some s"
| "schedule K (a # acts) s = (case actor_go K a s of None \<Rightarrow> None | Some s' \<Rightarrow> schedule K acts s')"

lemma sections_nonempty: "pause_section st nw e \<noteq> []" "stop_section e \<noteq> []"
  by (simp_all add: pause_section_def stop_section_def notify_one_def split: worker_pc.split main_pc.split)

lemma worker_go_step: "worker_go (b, e) = Some x \<Longrightarrow> run_step (b, e) x"
  using sections_nonempty(1) [THEN hd_in_set]
  by (cases b) (auto split: worker_pc.splits loop_pc.splits if_splits intro: run_step.intros)

lemma main_go_step: "main_go (b, e) = Some x \<Longrightarrow> run_step (b, e) x"
  using sections_nonempty(2) [THEN hd_in_set]
  by (auto split: main_pc.splits if_splits intro: run_step.intros)

declare worker_go.simps [simp del] main_go.simps [simp del]

lemma actor_go_step: "actor_go K a s = Some s' \<Longrightarrow> main_step K s (Inr s')"
proof (cases a)
  case Call
  assume go: "actor_go K a s = Some s'"
  then obtain c cs s1 rs where "todo s = c # cs" "exec_call K c s = Inr s1 # rs"
    "main_thread (the_thread s) = Idle" "s' = s1\<lparr>todo := cs\<rparr>"
    using Call by (auto split: if_splits list.splits sum.splits)
  then show ?thesis using main_step.call [of s c cs "Inr s1" K] by simp
qed (auto intro!: main_step.run dest!: worker_go_step main_go_step)

lemma schedule_steps: "schedule K acts s = Some s' \<Longrightarrow> main_steps K s s'"
proof (induction acts arbitrary: s)
  case Nil
  then show ?case by (simp add: main_steps_def)
next
  case (Cons a acts)
  then obtain s1 where s1: "actor_go K a s = Some s1" "schedule K acts s1 = Some s'"
    by (cases "actor_go K a s") auto
  show ?case
    using actor_go_step [OF s1(1)] Cons.IH [OF s1(2)] unfolding main_steps_def
    by (rule converse_rtranclp_into_rtranclp)
qed

text \<open>
  The two schedules differ in when the signal of \<^verbatim>\<open>stop\<close> arrives: between two calls of \<^verbatim>\<open>epoll_wait\<close>,
  or during one.
\<close>

definition to_event :: "actor list" where
  "to_event =
     [Call] @ replicate 2 WorkerGoesOn @ [MainGoesOn, Call, Call, Call] @
     [Call] @ replicate 6 WorkerGoesOn @ [MainGoesOn]"

definition to_stop :: "actor list" where
  "to_stop = to_event @
     [Call] @ replicate 7 WorkerGoesOn @ [MainGoesOn, Call] @
     [Call] @ replicate 3 WorkerGoesOn @ [MainGoesOn] @
     [Call] @ replicate 3 WorkerGoesOn @ [MainGoesOn, Call, MainGoesOn]"

lemma schedule_append:
  "schedule K (xs @ ys) s = (case schedule K xs s of None \<Rightarrow> None | Some s' \<Rightarrow> schedule K ys s')"
  by (induction xs arbitrary: s) (auto split: option.split)

lemmas schedule_defs =
  to_event_def to_stop_def numeral_eq_Suc main_start_def epoll_calls_def EpollThread_init_def
  permuter.extend_def Thread_init_def Epoll_ctor_def add_fd_with_events_def pipe_call_def
  worker_go.simps main_go.simps thread_op_defs loop_op_defs

lemma to_event_result:
  assumes "PipeReadEnd_send K 10000 (PipeReadEnd_ctor fd0 fd1, k) = returns (p1, k1)"
    and "PipeReadEnd_close_send K (p1, k1) = returns (p2, k2)"
  shows "\<exists>s. schedule K to_event (main_start epfd fd0 fd1 k) = Some s \<and>
    main_thread (the_thread s) = Idle \<and> todo s = [Enter, Read 2048, Enter, Enter, Stop]"
  using assms by (simp add: schedule_defs)

lemma to_stop_result:
  assumes "PipeReadEnd_send K 10000 (PipeReadEnd_ctor fd0 fd1, k) = returns (p1, k1)"
    and "PipeReadEnd_close_send K (p1, k1) = returns (p2, k2)"
    and "PipeReadEnd_read K 2048 (p2, k2) = returns (p3, k3)"
  shows "\<exists>s. schedule K to_stop (main_start epfd fd0 fd1 k) = Some s \<and> \<not> edge s \<and>
    the_thread s = \<lparr>worker = Testing, main_thread = Signalling, m_paused = False, m_state = blocking,
      m_last_permutation = True, returned = Some blocking, loop_pc = InEpollWait 1 False,
      m_enter_epoll_wait = True, m_wait_for_returned_from_epoll_wait = False\<rparr>"
  using assms by (simp add: schedule_defs)

text \<open>A worker that misses the signal polls for ever.\<close>

definition signal_lost :: "bool \<Rightarrow> epoll_thread \<Rightarrow> bool" where
  "signal_lost b e \<longleftrightarrow> \<not> b \<and> main_thread e = Joining \<and> poll_place e"

lemma signal_lost_run: "run_step (b, e) (c, f) \<Longrightarrow> signal_lost b e \<Longrightarrow> signal_lost c f"
  by (erule run_stepE)
    (auto simp: signal_lost_def poll_place_def thread_op_defs loop_op_defs split: if_splits)

lemma signal_lost_steps:
  assumes "main_steps K s s'" "signal_lost (edge s) (the_thread s)"
  shows "signal_lost (edge s') (the_thread s')"
  using assms unfolding main_steps_def
proof (induction rule: rtranclp_induct)
  case (step s' s'')
  from step(2) show ?case
  proof cases
    case (call c cs r)
    then show ?thesis using step.IH step.prems by (simp add: signal_lost_def)
  next
    case (run b e)
    then show ?thesis using signal_lost_run step.IH step.prems by auto
  qed
qed simp

text \<open>
  \<^bold>\<open>C10\<close>. If the three calls on the pipe come back, \<^verbatim>\<open>main\<close> can end, and it can also hang: when the
  signal of \<^verbatim>\<open>stop\<close> arrives between two calls of \<^verbatim>\<open>epoll_wait\<close> there is no execution in which the join
  returns any more.
\<close>

theorem epoll_main_may_hang:
  assumes "PipeReadEnd_send K 10000 (PipeReadEnd_ctor fd0 fd1, k) = returns (p1, k1)"
    and "PipeReadEnd_close_send K (p1, k1) = returns (p2, k2)"
    and "PipeReadEnd_read K 2048 (p2, k2) = returns (p3, k3)"
  shows "(\<exists>s. main_reachable K epfd fd0 fd1 k s \<and> main_thread (the_thread s) = Joined) \<and>
    (\<exists>s. main_reachable K epfd fd0 fd1 k s \<and> main_thread (the_thread s) = Joining \<and>
       \<not> (\<exists>s'. main_steps K s s' \<and> main_thread (the_thread s') = Joined))"
proof -
  obtain s where s: "schedule K to_stop (main_start epfd fd0 fd1 k) = Some s" "\<not> edge s"
    "the_thread s = \<lparr>worker = Testing, main_thread = Signalling, m_paused = False, m_state = blocking,
      m_last_permutation = True, returned = Some blocking, loop_pc = InEpollWait 1 False,
      m_enter_epoll_wait = True, m_wait_for_returned_from_epoll_wait = False\<rparr>"
    using to_stop_result [OF assms] by blast
  have reach: "main_reachable K epfd fd0 fd1 k t" if "schedule K acts s = Some t" for acts t
    using schedule_steps [of K "to_stop @ acts" "main_start epfd fd0 fd1 k" t] s(1) that
    by (simp add: main_reachable_def schedule_append)
  have "\<exists>t. schedule K [MainGoesOn, WorkerGoesOn, WorkerGoesOn, MainGoesOn] s = Some t \<and>
      main_thread (the_thread t) = Joined"
    using s(2,3) by (simp add: worker_go.simps main_go.simps loop_op_defs)
  moreover have "\<exists>t. schedule K [WorkerGoesOn, MainGoesOn] s = Some t \<and> signal_lost (edge t) (the_thread t)"
    using s(2,3)
    by (simp add: worker_go.simps main_go.simps loop_op_defs signal_lost_def poll_place_def)
  ultimately obtain t u where t: "main_reachable K epfd fd0 fd1 k t" "main_thread (the_thread t) = Joined"
    and u: "main_reachable K epfd fd0 fd1 k u" "signal_lost (edge u) (the_thread u)"
    using reach by blast
  have "\<not> (\<exists>s'. main_steps K u s' \<and> main_thread (the_thread s') = Joined)"
    using signal_lost_steps [OF _ u(2)] by (fastforce simp: signal_lost_def)
  moreover have "main_thread (the_thread u) = Joining" using u(2) by (simp add: signal_lost_def)
  ultimately show ?thesis using t u(1) by blast
qed

text \<open>On the pipe of \<open>EpollIO\<close>, which takes everything.\<close>

lemma tank_calls:
  "PipeReadEnd_send tank 10000 (PipeReadEnd_ctor 3 4, \<lambda>_. 0) =
     returns (\<lparr>m_pipefd0 = 3, m_pipefd1 = 4, p_sent = 10000, p_read = 0\<rparr>, (\<lambda>_. 0)(3 := 10000))"
  "PipeReadEnd_close_send tank (self, k) = returns (self, k)"
  "PipeReadEnd_read tank 2048 (\<lparr>m_pipefd0 = 3, m_pipefd1 = 4, p_sent = 10000, p_read = 0\<rparr>, (\<lambda>_. 0)(3 := 10000)) =
     returns (\<lparr>m_pipefd0 = 3, m_pipefd1 = 4, p_sent = 10000, p_read = 2048\<rparr>, (\<lambda>_. 0)(3 := 7952))"
  by (simp_all add: PipeReadEnd_send_def PipeReadEnd_close_send_def PipeReadEnd_read_def PipeReadEnd_ctor_def
      write_bytes_def read_bytes_def read_retry.simps close_fd_def s_buffer_size_def tank_def)

theorem epoll_main_may_hang_witness:
  "\<exists>s. main_reachable tank 5 3 4 (\<lambda>_. 0) s \<and> main_thread (the_thread s) = Joined"
  using epoll_main_may_hang [OF tank_calls(1) tank_calls(2) tank_calls(3), of 5] by blast

theorem epoll_main_results_witness:
  "\<exists>s. main_reachable tank 5 3 4 (\<lambda>_. 0) s \<and> todo s = [Enter, Read 2048, Enter, Enter, Stop] \<and>
     returned (the_thread s) = Some yielding"
proof -
  have "\<exists>s. schedule tank to_event (main_start 5 3 4 (\<lambda>_. 0)) = Some s \<and>
      main_thread (the_thread s) = Idle \<and> todo s = [Enter, Read 2048, Enter, Enter, Stop]"
    by (rule to_event_result [OF tank_calls(1) tank_calls(2)])
  then obtain s where s: "main_reachable tank 5 3 4 (\<lambda>_. 0) s" "main_thread (the_thread s) = Idle"
    "todo s = [Enter, Read 2048, Enter, Enter, Stop]"
    using schedule_steps unfolding main_reachable_def by blast
  have "pipe_calls_ok tank 4" by (simp add: pipe_calls_ok_def tank_def)
  from epoll_main_results [OF this s(1)] s(2,3) have "returned (the_thread s) = Some yielding"
    by (simp add: Let_def)
  then show ?thesis using s by blast
qed

end
