(* ===== verification/EpollSetup.thy ===== *)
theory EpollSetup
  imports EpollThread EpollIO
begin

text \<open>
  How the objects of \<^verbatim>\<open>src/epoll_states.cxx\<close> come to be: the signal that \<^verbatim>\<open>thread_permuter::Thread\<close>
  sets up for \<^verbatim>\<open>wakeup\<close>, and the system calls of the constructors of \<^verbatim>\<open>Socket\<close> and
  \<^verbatim>\<open>PipeReadEnd\<close>, whose results they do not test.
\<close>

section \<open>The signal of a thread\<close>

text \<open>
  What the process does with each signal, and which ones its threads have blocked; the worker does
  not exist before \<^verbatim>\<open>start\<close>, and then begins with the mask of the thread that creates it.
\<close>

datatype disposition = DefaultAction | Ignored | CallsHandler

record signal_setup =
  sigactions :: "int \<Rightarrow> disposition"
  main_mask :: "int set"
  worker_mask :: "int set option"

definition Thread_ctor_signals :: "int \<Rightarrow> signal_setup \<Rightarrow> signal_setup" where
  "Thread_ctor_signals m_signum g =
     g\<lparr>sigactions := (sigactions g)(m_signum := Ignored), main_mask := insert m_signum (main_mask g)\<rparr>"

definition start_signals :: "int \<Rightarrow> signal_setup \<Rightarrow> signal_setup" where
  "start_signals m_signum g =
     (let g1 = g\<lparr>sigactions := (sigactions g)(m_signum := CallsHandler), main_mask := main_mask g - {m_signum}\<rparr>
      in g1\<lparr>worker_mask := Some (main_mask g1)\<rparr>)"

text \<open>
  What \<^verbatim>\<open>pthread_kill(m_thread, m_signum)\<close> does to the worker. A blocked signal stays pending and an
  ignored one is dropped; neither interrupts a system call. The handler is empty, but that it was
  called ends \<^verbatim>\<open>epoll_wait\<close>. The default action of a real-time signal ends the process, \<open>None\<close>, and
  so would it be an error if there were no thread.
\<close>

definition kill_worker :: "int \<Rightarrow> signal_setup \<Rightarrow> epoll_thread \<Rightarrow> epoll_thread option" where
  "kill_worker m_signum g e =
     (case worker_mask g of
        None \<Rightarrow> None
      | Some blocked \<Rightarrow>
          if m_signum \<in> blocked then Some e
          else (case sigactions g m_signum of
                  DefaultAction \<Rightarrow> None
                | Ignored \<Rightarrow> Some e
                | CallsHandler \<Rightarrow> Some (wakeup e)))"

text \<open>
  Whatever was blocked or installed before, after the constructor and \<^verbatim>\<open>start\<close> the signal has the
  effect of \<open>wakeup\<close> on the worker, and no other signal is touched. Without the second call of
  \<^verbatim>\<open>sigprocmask\<close>, or of \<^verbatim>\<open>sigaction\<close>, it would have none.
\<close>

lemma kill_worker_wakes:
  defines "ready sig g \<equiv> start_signals sig (Thread_ctor_signals sig g)"
  shows "kill_worker sig (ready sig g) e = Some (wakeup e)"
    and "s \<noteq> sig \<Longrightarrow> sigactions (ready sig g) s = sigactions g s \<and>
      (s \<in> main_mask (ready sig g) \<longleftrightarrow> s \<in> main_mask g)"
    and "kill_worker sig ((ready sig g)\<lparr>worker_mask := Some (main_mask (Thread_ctor_signals sig g))\<rparr>) e = Some e"
    and "kill_worker sig ((ready sig g)\<lparr>sigactions := sigactions (Thread_ctor_signals sig g)\<rparr>) e = Some e"
  by (simp_all add: ready_def kill_worker_def start_signals_def Thread_ctor_signals_def Let_def)

text \<open>Interrupted in \<^verbatim>\<open>epoll_wait\<close> it goes back to the test of its outer loop; elsewhere nothing happens.\<close>

lemma kill_worker_interrupts:
  assumes "worker e = Testing" "loop_pc e = InEpollWait t i"
  shows "\<exists>f. kill_worker sig (start_signals sig (Thread_ctor_signals sig g)) e = Some f \<and>
    epoll_step f (f\<lparr>loop_pc := LoopTest\<rparr>)"
proof -
  let ?f = "e\<lparr>loop_pc := InEpollWait t True\<rparr>"
  have "wakeup e = ?f" using assms by (simp add: wakeup_def)
  moreover have "epoll_step ?f (epoll_wait_returns (-1) ?f)"
    using assms(1) by (intro epoll_step.interrupted) simp_all
  then have "epoll_step ?f (?f\<lparr>loop_pc := LoopTest\<rparr>)" by (simp add: epoll_wait_returns_def)
  ultimately show ?thesis by (simp add: kill_worker_wakes)
qed

section \<open>The system calls of the constructors\<close>

text \<open>
  The address is that of the loopback device, and a port has the same bytes in \<^verbatim>\<open>bind\<close> and in
  \<^verbatim>\<open>connect\<close>. \<open>True\<close> stands for \<^verbatim>\<open>SOCK_NONBLOCK\<close>.
\<close>

datatype sock_option = SO_REUSEADDR | SO_SNDBUF | SO_RCVBUF

datatype net_call =
    SocketCall bool
  | SetSockOpt int sock_option int
  | BindPort int nat
  | ListenCall int nat
  | ConnectPort int nat
  | Accept4 int bool

text \<open>A system call gives its value, \<^verbatim>\<open>errno\<close>, and the next state; one that blocks for ever is \<open>None\<close>.\<close>

type_synonym 'k net = "net_call \<Rightarrow> 'k \<Rightarrow> (int \<times> int \<times> 'k) option"

definition EINPROGRESS :: int where "EINPROGRESS = 115"

text \<open>A call whose value the code looks at, and one whose value it drops.\<close>

definition with_result :: "'k net \<Rightarrow> net_call \<Rightarrow> 'k \<Rightarrow> (int \<Rightarrow> int \<Rightarrow> 'k \<Rightarrow> 'a option) \<Rightarrow> 'a option" where
  "with_result N c k f = (case N c k of None \<Rightarrow> None | Some (ret, errno, k') \<Rightarrow> f ret errno k')"

fun drop_results :: "'k net \<Rightarrow> net_call list \<Rightarrow> 'k \<Rightarrow> ('k \<Rightarrow> 'a option) \<Rightarrow> 'a option" where
  "drop_results N [] k f = f k"
| "drop_results N (c # cs) k f = with_result N c k (\<lambda>_ _ k'. drop_results N cs k' f)"

text \<open>\<^verbatim>\<open>Socket::Socket\<close>: the object, whether \<^verbatim>\<open>perror\<close> was called, and the state behind it.\<close>

definition Socket_Socket :: "'k net \<Rightarrow> 'k \<Rightarrow> (socket \<times> bool \<times> 'k) option" where
  "Socket_Socket N k =
     with_result N (SocketCall False) k (\<lambda>listen_fd _ k.
     drop_results N
       [SetSockOpt listen_fd SO_REUSEADDR 1, SetSockOpt listen_fd SO_SNDBUF 4096,
        SetSockOpt listen_fd SO_RCVBUF 4096, BindPort listen_fd 9002, ListenCall listen_fd 4] k (\<lambda>k.
     with_result N (SocketCall True) k (\<lambda>client_fd _ k.
     drop_results N [SetSockOpt client_fd SO_SNDBUF 4096, SetSockOpt client_fd SO_RCVBUF 4096] k (\<lambda>k.
     with_result N (ConnectPort client_fd 9002) k (\<lambda>res errno k.
     let perror = (res = -1 \<and> errno \<noteq> EINPROGRESS) in
     with_result N (Accept4 listen_fd True) k (\<lambda>accept_fd _ k.
     Some (Socket_ctor client_fd accept_fd, perror, k)))))))"

text \<open>
  \<^verbatim>\<open>PipeReadEnd::PipeReadEnd\<close> makes one call, which gives the two descriptors; it fills in nothing if
  it fails, and the object keeps what was in its memory.
\<close>

definition PipeReadEnd_PipeReadEnd ::
  "('k \<Rightarrow> int \<times> int \<times> int \<times> 'k) \<Rightarrow> int \<Rightarrow> int \<Rightarrow> 'k \<Rightarrow> pipe_read_end \<times> 'k" where
  "PipeReadEnd_PipeReadEnd pipe2 garbage0 garbage1 k =
     (case pipe2 k of (ret, fd0, fd1, k') \<Rightarrow>
        if ret = 0 then (PipeReadEnd_ctor fd0 fd1, k') else (PipeReadEnd_ctor garbage0 garbage1, k'))"

section \<open>Sockets of one machine\<close>

text \<open>
  What the manual pages say of these calls for the loopback device. \<open>taken\<close> are the ports that
  other processes listen to. \<open>listeners\<close> has the sockets of this process that were bound, with their
  port, and \<open>waiting\<close> the connections of a listening socket that are not accepted yet, the oldest first.
  \<^verbatim>\<open>listen\<close> on a socket without a port gives it an unused one, so that nobody finds it;
  \<^verbatim>\<open>connect\<close> on a non-blocking socket fails with \<^verbatim>\<open>EINPROGRESS\<close> if somebody listens; \<^verbatim>\<open>accept4\<close>
  on a blocking socket waits, and for ever if no connection can come.
\<close>

record loopback =
  next_fd :: int
  taken :: "nat list"
  listeners :: "(int \<times> nat) list"
  waiting :: "int \<Rightarrow> int list option"
  other_end :: "int \<Rightarrow> int option"

definition ECONNREFUSED :: int where "ECONNREFUSED = 111"
definition EADDRINUSE :: int where "EADDRINUSE = 98"
definition EINVAL :: int where "EINVAL = 22"

fun loopback_call :: "loopback net" where
  "loopback_call (SocketCall nonblock) k = Some (next_fd k, 0, k\<lparr>next_fd := next_fd k + 1\<rparr>)"
| "loopback_call (SetSockOpt fd opt v) k = Some (0, 0, k)"
| "loopback_call (BindPort fd port) k =
     (if port \<in> set (taken k) \<or> port \<in> snd ` set (listeners k) then Some (-1, EADDRINUSE, k)
      else Some (0, 0, k\<lparr>listeners := (fd, port) # listeners k\<rparr>))"
| "loopback_call (ListenCall fd n) k = Some (0, 0, k\<lparr>waiting := (waiting k)(fd := Some [])\<rparr>)"
| "loopback_call (ConnectPort fd port) k =
     (case filter (\<lambda>(l, p). p = port \<and> waiting k l \<noteq> None) (listeners k) of
        (l, _) # _ \<Rightarrow> Some (-1, EINPROGRESS, k\<lparr>waiting := (waiting k)(l := map_option (\<lambda>q. q @ [fd]) (waiting k l))\<rparr>)
      | [] \<Rightarrow> Some (-1, if port \<in> set (taken k) then EINPROGRESS else ECONNREFUSED, k))"
| "loopback_call (Accept4 fd nonblock) k =
     (case waiting k fd of
        None \<Rightarrow> Some (-1, EINVAL, k)
      | Some [] \<Rightarrow> None
      | Some (c # cs) \<Rightarrow>
          Some (next_fd k, 0, k\<lparr>next_fd := next_fd k + 1, waiting := (waiting k)(fd := Some cs),
            other_end := (other_end k)(next_fd k := Some c, c := Some (next_fd k))\<rparr>))"

definition loopback_start :: "int \<Rightarrow> nat list \<Rightarrow> loopback" where
  "loopback_start fd ports =
     \<lparr>next_fd = fd, taken = ports, listeners = [], waiting = (\<lambda>_. None), other_end = (\<lambda>_. None)\<rparr>"

text \<open>
  The constructor of \<^verbatim>\<open>Socket\<close> comes back exactly if no other process listens to port 9002: it
  does not test what \<^verbatim>\<open>bind\<close> returns, and then waits in \<^verbatim>\<open>accept4\<close> for a connection that went to the
  other process. When it comes back, its two descriptors are the ends of one connection, nothing was
  printed by \<^verbatim>\<open>perror\<close>, and all counters are 0.
\<close>

lemma Socket_Socket_returns_iff:
  "case Socket_Socket loopback_call (loopback_start fd ports) of
     None \<Rightarrow> 9002 \<in> set ports
   | Some (self, perror, k) \<Rightarrow>
       9002 \<notin> set ports \<and> \<not> perror \<and> self = Socket_ctor (m_client_fd self) (m_accept_fd self) \<and>
       m_client_fd self \<noteq> m_accept_fd self \<and>
       other_end k (m_client_fd self) = Some (m_accept_fd self) \<and>
       other_end k (m_accept_fd self) = Some (m_client_fd self)"
  by (simp add: Socket_Socket_def with_result_def loopback_start_def Socket_ctor_def Let_def EINPROGRESS_def)

section \<open>A race\<close>

text \<open>
  \<^verbatim>\<open>stop\<close> writes \<^verbatim>\<open>m_last_permutation\<close> before it takes the mutex, and \<^verbatim>\<open>event_loop\<close> reads it without. The
  two accesses can be next to each other: after an \<open>Enter\<close> that found no event the main thread has
  returned from \<^verbatim>\<open>step\<close> while the worker goes on, and an event takes it to the test.
\<close>

definition race_place :: epoll_thread where
  "race_place = EpollThread_init\<lparr>worker := Testing, m_paused := True, m_state := blocking, returned := Some blocking,
     loop_pc := GotEvent, m_enter_epoll_wait := True\<rparr>"

lemma reach_step: "epoll_reachable e \<Longrightarrow> epoll_step e f \<Longrightarrow> f = g \<Longrightarrow> epoll_reachable g"
  unfolding epoll_reachable_def by (auto intro: rtranclp.rtrancl_into_rtrancl)

lemma last_permutation_race:
  "epoll_reachable race_place \<and> main_thread race_place = Idle \<and>
   epoll_step race_place (got_event race_place) \<and>
   got_event race_place \<noteq> got_event (race_place\<lparr>m_last_permutation := True\<rparr>)"
proof -
  let ?e = "\<lambda>w m b s r l n. EpollThread_init\<lparr>worker := w, main_thread := m, m_paused := b, m_state := s,
    returned := r, loop_pc := l, m_enter_epoll_wait := n\<rparr>"
  note ops = thread_op_defs loop_op_defs EpollThread_init_def Thread_init_def permuter.defs
  have 0: "epoll_reachable EpollThread_init" by (simp add: epoll_reachable_def)
  have 1: "epoll_reachable (?e Starting (WaitPaused InStart) False yielding None LoopTest False)"
    by (rule reach_step[OF 0 epoll_step.sync[OF sync_step.start]]) (simp_all add: ops)
  have 2: "epoll_reachable (?e (Pausing yielding False) (WaitPaused InStart) False yielding None LoopTest False)"
    by (rule reach_step[OF 1 epoll_step.sync[OF sync_step.first_pause]]) (simp_all add: ops)
  have 3: "epoll_reachable (?e (Waiting yielding) (WokenUp InStart) True yielding None LoopTest False)"
    by (rule reach_step[OF 2 epoll_step.sync[OF sync_step.pause[of _ yielding False]]]) (simp_all add: ops)
  have 4: "epoll_reachable (?e (Waiting yielding) Idle True yielding None LoopTest False)"
    by (rule reach_step[OF 3 epoll_step.sync[OF sync_step.main_recheck[of _ InStart]]]) (simp_all add: ops)
  have 5: "epoll_reachable (?e (Woken yielding) (WaitPaused InStep) False yielding None LoopTest True)"
    by (rule reach_step[OF 4 epoll_step.enter]) (simp_all add: ops)
  have 6: "epoll_reachable (?e Testing (WaitPaused InStep) False yielding None LoopTest True)"
    by (rule reach_step[OF 5 epoll_step.sync[OF sync_step.recheck]]) (simp_all add: ops)
  have 7: "epoll_reachable (?e Testing (WaitPaused InStep) False yielding None (DoBody 1) True)"
    by (rule reach_step[OF 6 epoll_step.loop_test]) (simp_all add: ops)
  have 8: "epoll_reachable (?e Testing (WaitPaused InStep) False yielding None (InEpollWait 1 False) True)"
    by (rule reach_step[OF 7 epoll_step.do_body[of _ 1]]) (simp_all add: ops)
  have 9: "epoll_reachable (?e Testing (WaitPaused InStep) False yielding None (DoBody (-1)) True)"
    by (rule reach_step[OF 8 epoll_step.timeout[of _ 1]]) (simp_all add: ops)
  have 10: "epoll_reachable
      (?e (Pausing blocking True) (WaitPaused InStep) False blocking None (InEpollWait 1 False) True)"
    by (rule reach_step[OF 9 epoll_step.do_body[of _ "-1"]]) (simp_all add: ops)
  have 11: "epoll_reachable (?e Testing (WokenUp InStep) True blocking None (InEpollWait 1 False) True)"
    by (rule reach_step[OF 10 epoll_step.sync[OF sync_step.pause[of _ blocking True]]]) (simp_all add: ops)
  have 12: "epoll_reachable (?e Testing Idle True blocking (Some blocking) (InEpollWait 1 False) True)"
    by (rule reach_step[OF 11 epoll_step.sync[OF sync_step.main_recheck[of _ InStep]]]) (simp_all add: ops)
  have "epoll_reachable race_place"
    by (rule reach_step[OF 12 epoll_step.event[of _ 1 False]]) (simp_all add: race_place_def ops)
  moreover have "epoll_step race_place (got_event race_place)"
    by (rule epoll_step.got_event) (simp_all add: race_place_def)
  ultimately show ?thesis by (simp add: race_place_def ops)
qed

end
