(* ===== verification/Connect.thy ===== *)
theory Connect
  imports Prelude "HOL-Library.Sublist"
begin

text \<open>
  Making a connection: \<^verbatim>\<open>MySocket\<close> and the timer callback of \<^verbatim>\<open>src/connect.cxx\<close>, with the
  callback of \<^verbatim>\<open>src/listen_socket.cxx\<close> beside it, and \<^verbatim>\<open>Socket::connect_to_server\<close> of
  \<^verbatim>\<open>src/socket_fd.cxx\<close> with the results of its system calls as an argument.
\<close>

section \<open>MySocket\<close>

text \<open>
  \<open>device_closes\<close> counts the calls of \<^verbatim>\<open>close\<close>. The bits \<^verbatim>\<open>is_connected\<close> and \<^verbatim>\<open>is_disconnected\<close> and
  the flags at the time of a call belong to the library and are arguments.
\<close>

record my_socket =
  m_connected :: bool
  device_closes :: nat

definition MySocket_ctor :: my_socket where
  "MySocket_ctor = \<lparr>m_connected = False, device_closes = 0\<rparr>"

definition MySocket_connected ::
  "u32 \<Rightarrow> u32 \<Rightarrow> u32 \<Rightarrow> bool \<Rightarrow> my_socket \<Rightarrow> fault + my_socket" where
  "MySocket_connected is_connected is_disconnected flags success s =
     (if flags AND (is_connected OR is_disconnected) = (if success then is_connected else is_disconnected)
      then Inr (s\<lparr>m_connected := True, device_closes := device_closes s + 1\<rparr>)
      else Inl AssertFailed)"

definition MySocket_dtor :: "my_socket \<Rightarrow> fault + unit" where
  "MySocket_dtor s = (if m_connected s then Inr () else Inl AssertFailed)"

text \<open>The callbacks of one socket, each with the flags and \<^verbatim>\<open>success\<close>; then its end.\<close>

fun connected_calls :: "u32 \<Rightarrow> u32 \<Rightarrow> (u32 \<times> bool) list \<Rightarrow> my_socket \<Rightarrow> fault + my_socket" where
  "connected_calls ic ib [] s = Inr s"
| "connected_calls ic ib ((flags, success) # cs) s =
     (case MySocket_connected ic ib flags success s of
        Inl e \<Rightarrow> Inl e
      | Inr s' \<Rightarrow> connected_calls ic ib cs s')"

definition MySocket_life :: "u32 \<Rightarrow> u32 \<Rightarrow> (u32 \<times> bool) list \<Rightarrow> fault + nat" where
  "MySocket_life ic ib cs =
     (case connected_calls ic ib cs MySocket_ctor of
        Inl e \<Rightarrow> Inl e
      | Inr s \<Rightarrow> (case MySocket_dtor s of Inl e \<Rightarrow> Inl e | Inr _ \<Rightarrow> Inr (device_closes s)))"

lemma connected_calls_result:
  "connected_calls ic ib cs s =
     (if \<forall>c \<in> set cs. fst c AND (ic OR ib) = (if snd c then ic else ib)
      then Inr (s\<lparr>m_connected := m_connected s \<or> cs \<noteq> [], device_closes := device_closes s + length cs\<rparr>)
      else Inl AssertFailed)"
  by (induction ic ib cs s rule: connected_calls.induct) (auto simp: MySocket_connected_def)

text \<open>
  No assertion of a \<^verbatim>\<open>MySocket\<close> fails exactly if it was told at least once, and each
  time with the flag that belongs to the outcome; it has then closed itself once per call.
\<close>

lemma MySocket_life_ok:
  "MySocket_life ic ib cs =
     (if cs \<noteq> [] \<and> (\<forall>c \<in> set cs. fst c AND (ic OR ib) = (if snd c then ic else ib))
      then Inr (length cs) else Inl AssertFailed)"
  by (simp add: MySocket_life_def connected_calls_result MySocket_ctor_def MySocket_dtor_def)

section \<open>The timer callbacks\<close>

text \<open>
  The callback is a lambda that holds a reference to the timer and a pointer to the listen
  socket. \<^verbatim>\<open>release_callback\<close> destroys the lambda, as the comment in \<^verbatim>\<open>listen_socket.cxx\<close> says:
  from then on its captured variables must not be used.
\<close>

datatype callback_action = CloseListen | ReleaseCallback | BumpTerminate

fun uses_capture :: "callback_action \<Rightarrow> bool" where
  "uses_capture CloseListen = True"
| "uses_capture ReleaseCallback = True"
| "uses_capture BumpTerminate = False"

fun run_callback :: "bool \<Rightarrow> callback_action list \<Rightarrow> fault + callback_action list" where
  "run_callback alive [] = Inr []"
| "run_callback alive (a # as) =
     (if uses_capture a \<and> \<not> alive then Inl OutOfBounds
      else case run_callback (alive \<and> a \<noteq> ReleaseCallback) as of
             Inl e \<Rightarrow> Inl e
           | Inr done_calls \<Rightarrow> Inr (a # done_calls))"

definition listen_callback :: "callback_action list" where
  "listen_callback = [CloseListen, ReleaseCallback, BumpTerminate]"

definition connect_callback :: "callback_action list" where
  "connect_callback = [ReleaseCallback, CloseListen, BumpTerminate]"

text \<open>
  The callback of \<^verbatim>\<open>listen_socket.cxx\<close> runs to its end; the one of \<^verbatim>\<open>connect.cxx\<close>, which
  releases itself first, uses its captured pointer after that.
\<close>

lemma callback_order:
  "run_callback True listen_callback = Inr [CloseListen, ReleaseCallback, BumpTerminate] \<and>
   run_callback True connect_callback = Inl OutOfBounds"
  by (simp add: listen_callback_def connect_callback_def)

section \<open>connect_to_server\<close>

text \<open>What the calls returned. \<open>host_addr\<close> is the first address of the \<^verbatim>\<open>hostent\<close>, if there is one.\<close>

record connect_results =
  host_addr :: "(8 word list) option"
  print_failed :: bool
  socket_fd :: int
  sndbuf_result :: int
  rcvbuf_result :: int
  connect_result :: int
  connect_errno_in_progress :: bool

datatype connect_call =
    GetHostByName string | PrintHostent | CreateSocket | SetSndBuf int int | SetRcvBuf int int
  | ConnectCall int "8 word list" "8 word list" | FdInit int | StartInput | StartOutput

text \<open>\<^verbatim>\<open>htons\<close> of an \<^verbatim>\<open>int\<close>: converted to 16 bits, the higher byte first.\<close>

definition htons_bytes :: "int \<Rightarrow> 8 word list" where
  "htons_bytes port = (let p = word_of_int port :: 16 word in [ucast (drop_bit 8 p), ucast p])"

text \<open>
  The calls made and whether the function came back; otherwise it has called \<^verbatim>\<open>exit(-1)\<close>. The
  address is the first four bytes of what \<^verbatim>\<open>gethostbyname\<close> found.
\<close>

definition connect_to_server ::
  "connect_results \<Rightarrow> string \<Rightarrow> int \<Rightarrow> connect_call list \<times> bool" where
  "connect_to_server r remote_host remote_port =
     (case host_addr r of
        None \<Rightarrow> ([GetHostByName remote_host], False)
      | Some addr \<Rightarrow>
          let c1 = [GetHostByName remote_host, PrintHostent] in
          if print_failed r then (c1, False) else
          let c2 = c1 @ [CreateSocket] in
          if socket_fd r = -1 then (c2, False) else
          let c3 = c2 @ [SetSndBuf (socket_fd r) 512] in
          if sndbuf_result r < 0 then (c3, False) else
          let c4 = c3 @ [SetRcvBuf (socket_fd r) 512] in
          if rcvbuf_result r < 0 then (c4, False) else
          let c5 = c4 @ [ConnectCall (socket_fd r) (take 4 addr) (htons_bytes remote_port)] in
          if connect_result r < 0 \<and> \<not> connect_errno_in_progress r then (c5, False)
          else (c5 @ [FdInit (socket_fd r), StartInput, StartOutput], True))"

text \<open>The calls of a run without failure.\<close>

definition full_connect :: "connect_results \<Rightarrow> 8 word list \<Rightarrow> string \<Rightarrow> int \<Rightarrow> connect_call list" where
  "full_connect r addr remote_host remote_port =
     [GetHostByName remote_host, PrintHostent, CreateSocket, SetSndBuf (socket_fd r) 512,
      SetRcvBuf (socket_fd r) 512, ConnectCall (socket_fd r) (take 4 addr) (htons_bytes remote_port),
      FdInit (socket_fd r), StartInput, StartOutput]"

lemma htons_bytes_value:
  assumes "0 \<le> port" "port < 65536"
  shows "\<exists>hi lo. htons_bytes port = [hi, lo] \<and> 256 * uint hi + uint lo = port"
proof -
  let ?p = "word_of_int port :: 16 word"
  have p: "uint ?p = port"
    using assms by (simp add: uint_word_of_int)
  have hi: "uint (ucast (drop_bit 8 ?p) :: 8 word) = port div 256"
  proof -
    have "uint (drop_bit 8 ?p) = port div 256"
      by (simp only: unsigned_drop_bit_eq p) (use assms in \<open>simp add: drop_bit_eq_div take_bit_int_eq_self\<close>)
    moreover have "port div 256 < 256" using assms by linarith
    ultimately show ?thesis
      using assms by (simp add: unsigned_ucast_eq take_bit_int_eq_self)
  qed
  have lo: "uint (ucast ?p :: 8 word) = port mod 256"
    by (simp only: unsigned_ucast_eq p) (simp add: take_bit_eq_mod)
  show ?thesis
    using hi lo by (auto simp: htons_bytes_def Let_def)
qed

text \<open>
  \<^verbatim>\<open>connect_to_server\<close> starts the device exactly if no call before failed, where a
  connection that is still in progress counts as made; it otherwise stops at the first call that
  failed, having made the calls before it in order and none after it. The bytes it passes as port
  are those of \<^verbatim>\<open>remote_port\<close>, the higher one first.
\<close>

lemma connect_to_server_calls:
  assumes "host_addr r = Some addr" and "0 \<le> remote_port" and "remote_port < 65536"
  shows "(snd (connect_to_server r remote_host remote_port) \<longleftrightarrow>
      \<not> print_failed r \<and> socket_fd r \<noteq> -1 \<and> 0 \<le> sndbuf_result r \<and> 0 \<le> rcvbuf_result r \<and>
      (0 \<le> connect_result r \<or> connect_errno_in_progress r)) \<and>
    prefix (fst (connect_to_server r remote_host remote_port))
      (full_connect r addr remote_host remote_port) \<and>
    (StartOutput \<in> set (fst (connect_to_server r remote_host remote_port)) \<longleftrightarrow>
      snd (connect_to_server r remote_host remote_port)) \<and>
    (\<exists>hi lo. htons_bytes remote_port = [hi, lo] \<and> 256 * uint hi + uint lo = remote_port)"
  using htons_bytes_value[OF assms(2,3)]
  by (auto simp: connect_to_server_def full_connect_def assms(1) Let_def)

end
