(* ===== verification/ConnectRun.thy ===== *)
theory ConnectRun
  imports Connect
begin

text \<open>
  \<^verbatim>\<open>src/connect.cxx\<close> as a whole: the listen socket, the socket that connects to it, the sockets it
  accepts and the timer, with the callbacks of the library in any order. The properties say which
  calls \<^verbatim>\<open>event_loop.join()\<close> waits for, and that it comes back.
\<close>

section \<open>State\<close>

text \<open>
  Whoever connects to port 9002 is the socket of the program or another process. \<open>pending\<close> are the
  connections the kernel has made for the listen socket that are not accepted yet, the oldest
  first; \<open>sessions\<close> the accepted sockets that are open. \<open>timer_armed\<close> is whether the timer still
  holds its callback.
\<close>

datatype peer = OwnSocket | OtherProcess

record connect_run =
  listen_open :: bool
  pending :: "peer list"
  sessions :: "peer list"
  socket_made :: bool
  socket_open :: bool
  the_socket :: my_socket
  timer_armed :: bool

text \<open>
  The state in which \<^verbatim>\<open>main\<close> calls \<^verbatim>\<open>event_loop.join()\<close>: the listen socket is up, the timer has been
  started, and the socket has been told to connect.
\<close>

definition connect_start :: connect_run where
  "connect_start =
     \<lparr>listen_open = True, pending = [], sessions = [], socket_made = False, socket_open = True,
      the_socket = MySocket_ctor, timer_armed = True\<rparr>"

section \<open>Callbacks\<close>

text \<open>Closing the listen socket makes the kernel drop the connections that wait for it.\<close>

definition close_listen :: "connect_run \<Rightarrow> connect_run" where
  "close_listen s = s\<lparr>listen_open := False, pending := []\<rparr>"

text \<open>\<^verbatim>\<open>new_connection\<close> is called with the accepted socket, which has been started, and closes the listen socket.\<close>

definition MyListenSocket_new_connection :: "connect_run \<Rightarrow> connect_run" where
  "MyListenSocket_new_connection s = close_listen s"

text \<open>\<^verbatim>\<open>read_returned_zero\<close> passes the call on to the library, which closes the device.\<close>

definition MyAcceptedSocket_read_returned_zero :: "peer \<Rightarrow> connect_run \<Rightarrow> connect_run" where
  "MyAcceptedSocket_read_returned_zero p s = s\<lparr>sessions := remove1 p (sessions s)\<rparr>"

text \<open>The callback of the timer, with the order of its calls as an argument.\<close>

fun apply_action :: "callback_action \<Rightarrow> connect_run \<Rightarrow> connect_run" where
  "apply_action CloseListen s = close_listen s"
| "apply_action ReleaseCallback s = s\<lparr>timer_armed := False\<rparr>"
| "apply_action BumpTerminate s = s"

definition timer_fires :: "callback_action list \<Rightarrow> connect_run \<Rightarrow> fault + connect_run" where
  "timer_fires cb s = map_sum id (\<lambda>as. fold apply_action as s) (run_callback True cb)"

section \<open>Events\<close>

text \<open>
  What can happen while \<^verbatim>\<open>main\<close> is in \<^verbatim>\<open>join\<close>: the kernel completes a connection; the library tells the
  socket about its own, with the flags it has at that time; it accepts the oldest connection; it
  reads the end of file of an accepted socket, which for the program's own connection needs that
  the socket was closed; and the timer expires. An event that cannot happen is \<open>None\<close>.
\<close>

datatype event =
    Handshake peer
  | Told u32 bool
  | Accept
  | EndOfFile peer
  | TimerExpires

fun connect_event ::
  "callback_action list \<Rightarrow> nat \<Rightarrow> u32 \<Rightarrow> u32 \<Rightarrow> event \<Rightarrow> connect_run \<Rightarrow> (fault + connect_run) option" where
  "connect_event cb backlog ic ib (Handshake p) s =
     (if listen_open s \<and> length (pending s) < backlog \<and> (p = OwnSocket \<longrightarrow> socket_open s \<and> \<not> socket_made s)
      then Some (Inr (s\<lparr>pending := pending s @ [p], socket_made := socket_made s \<or> p = OwnSocket\<rparr>))
      else None)"
| "connect_event cb backlog ic ib (Told flags success) s =
     (if socket_open s \<and> (success \<longrightarrow> socket_made s)
      then Some (map_sum id (\<lambda>k. s\<lparr>the_socket := k, socket_open := False\<rparr>)
             (MySocket_connected ic ib flags success (the_socket s)))
      else None)"
| "connect_event cb backlog ic ib Accept s =
     (case pending s of
        [] \<Rightarrow> None
      | p # ps \<Rightarrow>
          if listen_open s
          then Some (Inr (MyListenSocket_new_connection (s\<lparr>pending := ps, sessions := p # sessions s\<rparr>)))
          else None)"
| "connect_event cb backlog ic ib (EndOfFile p) s =
     (if p \<in> set (sessions s) \<and> (p = OwnSocket \<longrightarrow> \<not> socket_open s)
      then Some (Inr (MyAcceptedSocket_read_returned_zero p s)) else None)"
| "connect_event cb backlog ic ib TimerExpires s =
     (if timer_armed s then Some (timer_fires cb s) else None)"

text \<open>Events one after the other, up to the first fault; \<open>None\<close> if one of them cannot happen.\<close>

fun connect_events ::
  "callback_action list \<Rightarrow> nat \<Rightarrow> u32 \<Rightarrow> u32 \<Rightarrow> event list \<Rightarrow> connect_run \<Rightarrow> (fault + connect_run) option" where
  "connect_events cb backlog ic ib [] s = Some (Inr s)"
| "connect_events cb backlog ic ib (ev # evs) s =
     (case connect_event cb backlog ic ib ev s of
        None \<Rightarrow> None
      | Some (Inl e) \<Rightarrow> Some (Inl e)
      | Some (Inr s') \<Rightarrow> connect_events cb backlog ic ib evs s')"

text \<open>
  \<^verbatim>\<open>join\<close> comes back when no device is open; the timer is cancelled and the socket destroyed, with
  its assertion.
\<close>

definition all_closed :: "connect_run \<Rightarrow> bool" where
  "all_closed s \<longleftrightarrow> \<not> listen_open s \<and> \<not> socket_open s \<and> sessions s = []"

definition leave_main :: "connect_run \<Rightarrow> (fault + unit) option" where
  "leave_main s = (if all_closed s then Some (MySocket_dtor (the_socket s)) else None)"

text \<open>The library sets the flag that belongs to the outcome before it calls \<^verbatim>\<open>connected\<close>.\<close>

fun flags_match :: "u32 \<Rightarrow> u32 \<Rightarrow> event \<Rightarrow> bool" where
  "flags_match ic ib (Told flags success) \<longleftrightarrow> flags AND (ic OR ib) = (if success then ic else ib)"
| "flags_match ic ib ev \<longleftrightarrow> True"

section \<open>Invariant\<close>

text \<open>
  The socket is told exactly once, and closed by that; the listen socket is closed by the first
  accepted connection or by the timer; the program's own connection waits for as long as the listen
  socket is open.
\<close>

definition connect_inv :: "connect_run \<Rightarrow> bool" where
  "connect_inv s \<longleftrightarrow>
     the_socket s = (if socket_open s then MySocket_ctor else \<lparr>m_connected = True, device_closes = 1\<rparr>) \<and>
     (listen_open s \<longrightarrow> sessions s = [] \<and> timer_armed s) \<and> (\<not> listen_open s \<longrightarrow> pending s = []) \<and>
     (listen_open s \<and> socket_made s \<longrightarrow> OwnSocket \<in> set (pending s))"

text \<open>How many events are left.\<close>

definition events_left :: "nat \<Rightarrow> connect_run \<Rightarrow> nat" where
  "events_left backlog s =
     (if listen_open s then backlog - length (pending s) + 2 else 0) + length (sessions s) +
     (if socket_open s then 1 else 0) + (if timer_armed s then 1 else 0)"

lemmas connect_op_defs =
  close_listen_def MyListenSocket_new_connection_def MyAcceptedSocket_read_returned_zero_def

lemma timer_fires_listen:
  "timer_fires listen_callback s = Inr (s\<lparr>listen_open := False, pending := [], timer_armed := False\<rparr>)"
  by (simp add: timer_fires_def callback_order close_listen_def)

lemma timer_fires_connect: "timer_fires connect_callback s = Inl OutOfBounds"
  by (simp add: timer_fires_def callback_order)

lemma told_once:
  assumes "flags_match ic ib (Told flags success)"
  shows "MySocket_connected ic ib flags success MySocket_ctor = Inr \<lparr>m_connected = True, device_closes = 1\<rparr>"
  using assms by (simp add: MySocket_connected_def MySocket_ctor_def)

lemma connect_event_step:
  assumes "connect_inv s" "flags_match ic ib ev" "cb = listen_callback \<or> cb = connect_callback"
    and "connect_event cb backlog ic ib ev s = Some (Inr s')"
  shows "connect_inv s'" "events_left backlog s' < events_left backlog s"
    "socket_made s' \<longleftrightarrow> socket_made s \<or> ev = Handshake OwnSocket"
proof -
  note inv = assms(1)[unfolded connect_inv_def]
  have "connect_inv s' \<and> events_left backlog s' < events_left backlog s \<and>
      (socket_made s' \<longleftrightarrow> socket_made s \<or> ev = Handshake OwnSocket)"
  proof (cases ev)
    case (Handshake p)
    then show ?thesis
      using assms(4) inv by (auto simp: connect_inv_def events_left_def split: if_splits)
  next
    case (Told flags success)
    then have open_socket: "socket_open s" using assms(4) by (simp split: if_splits)
    then have "the_socket s = MySocket_ctor" using inv by simp
    then have "s' = s\<lparr>the_socket := \<lparr>m_connected = True, device_closes = 1\<rparr>, socket_open := False\<rparr>"
      using assms(4) told_once[OF assms(2)[unfolded Told]] open_socket Told by (simp split: if_splits)
    then show ?thesis
      using inv open_socket Told by (simp add: connect_inv_def events_left_def)
  next
    case Accept
    then show ?thesis
      using assms(4) inv
      by (auto simp: connect_inv_def events_left_def connect_op_defs split: if_splits list.splits)
  next
    case (EndOfFile p)
    then have p: "p \<in> set (sessions s)" "s' = MyAcceptedSocket_read_returned_zero p s"
      using assms(4) by (auto split: if_splits)
    then have "length (remove1 p (sessions s)) < length (sessions s)"
      by (simp add: length_remove1) (metis Suc_pred length_pos_if_in_set lessI)
    with p inv EndOfFile show ?thesis
      by (auto simp: connect_inv_def events_left_def connect_op_defs)
  next
    case TimerExpires
    then have armed: "timer_armed s" "timer_fires cb s = Inr s'"
      using assms(4) by (simp_all split: if_splits)
    then have "cb \<noteq> connect_callback" by (auto simp: timer_fires_connect)
    then have "s' = s\<lparr>listen_open := False, pending := [], timer_armed := False\<rparr>"
      using armed(2) assms(3) by (simp add: timer_fires_listen)
    then show ?thesis
      using inv armed(1) TimerExpires by (simp add: connect_inv_def events_left_def)
  qed
  then show "connect_inv s'" "events_left backlog s' < events_left backlog s"
    "socket_made s' \<longleftrightarrow> socket_made s \<or> ev = Handshake OwnSocket" by simp_all
qed

lemma connect_event_fault:
  assumes "connect_inv s" "flags_match ic ib ev" "cb = listen_callback \<or> cb = connect_callback"
    and "connect_event cb backlog ic ib ev s = Some (Inl e)"
  shows "e = OutOfBounds" "cb = connect_callback" "ev = TimerExpires"
proof -
  have "e = OutOfBounds \<and> cb = connect_callback \<and> ev = TimerExpires"
  proof (cases ev)
    case (Told flags success)
    then have open_socket: "socket_open s" using assms(4) by (simp split: if_splits)
    then have "the_socket s = MySocket_ctor" using assms(1) by (simp add: connect_inv_def)
    then show ?thesis
      using assms(4) told_once[OF assms(2)[unfolded Told]] open_socket Told by (simp split: if_splits)
  next
    case TimerExpires
    then show ?thesis
      using assms(3,4) by (auto simp: timer_fires_listen timer_fires_connect split: if_splits)
  qed (use assms(4) in \<open>simp_all split: if_splits list.splits\<close>)
  then show "e = OutOfBounds" "cb = connect_callback" "ev = TimerExpires" by simp_all
qed

lemma connect_events_step:
  assumes "connect_inv s" "\<forall>ev \<in> set evs. flags_match ic ib ev"
    and "cb = listen_callback \<or> cb = connect_callback"
    and "connect_events cb backlog ic ib evs s = Some (Inr s')"
  shows "connect_inv s' \<and> length evs + events_left backlog s' \<le> events_left backlog s \<and>
    (socket_made s' \<longleftrightarrow> socket_made s \<or> Handshake OwnSocket \<in> set evs)"
  using assms
proof (induction evs arbitrary: s)
  case (Cons ev evs)
  then obtain t where t: "connect_event cb backlog ic ib ev s = Some (Inr t)"
    "connect_events cb backlog ic ib evs t = Some (Inr s')"
    by (auto split: option.splits sum.splits)
  note one = connect_event_step[OF Cons.prems(1) _ Cons.prems(3) t(1)]
  have "connect_inv s' \<and> length evs + events_left backlog s' \<le> events_left backlog t \<and>
      (socket_made s' \<longleftrightarrow> socket_made t \<or> Handshake OwnSocket \<in> set evs)"
    using Cons.IH[OF one(1) _ Cons.prems(3) t(2)] Cons.prems(2) by simp
  with one show ?case using Cons.prems(2) by auto
qed simp

lemma connect_events_fault:
  assumes "connect_inv s" "\<forall>ev \<in> set evs. flags_match ic ib ev"
    and "cb = listen_callback \<or> cb = connect_callback"
    and "connect_events cb backlog ic ib evs s = Some (Inl e)"
  shows "e = OutOfBounds \<and> cb = connect_callback \<and> TimerExpires \<in> set evs"
  using assms
proof (induction evs arbitrary: s)
  case (Cons ev evs)
  have ok: "flags_match ic ib ev" "\<forall>ev \<in> set evs. flags_match ic ib ev" using Cons.prems(2) by simp_all
  from Cons.prems(4) consider "connect_event cb backlog ic ib ev s = Some (Inl e)"
    | t where "connect_event cb backlog ic ib ev s = Some (Inr t)" "connect_events cb backlog ic ib evs t = Some (Inl e)"
    by (auto split: option.splits sum.splits)
  then show ?case
  proof cases
    case 1
    then show ?thesis using connect_event_fault[OF Cons.prems(1) ok(1) Cons.prems(3) 1] by simp
  next
    case 2
    then show ?thesis
      using Cons.IH[OF connect_event_step(1)[OF Cons.prems(1) ok(1) Cons.prems(3)] ok(2) Cons.prems(3)] by simp
  qed
qed simp

lemma connect_start_inv:
  "connect_inv connect_start" "events_left backlog connect_start = backlog + 4" "\<not> socket_made connect_start"
  by (simp_all add: connect_inv_def connect_start_def events_left_def)

text \<open>While a device is open something can happen; it has to be the timer only if nobody has connected.\<close>

lemma connect_event_enabled:
  assumes "connect_inv s" "\<not> all_closed s"
  shows "\<exists>ev r. flags_match ic ib ev \<and> connect_event cb backlog ic ib ev s = Some r \<and>
    (ev = TimerExpires \<longrightarrow> listen_open s \<and> \<not> socket_made s)"
proof -
  consider "socket_open s" | "\<not> socket_open s" "sessions s \<noteq> []"
    | "listen_open s" "pending s \<noteq> []" | "listen_open s" "pending s = []"
    using assms(2) by (auto simp: all_closed_def)
  then show ?thesis
  proof cases
    case 1
    have "flags_match ic ib (Told ib False)"
      by (simp add: bit.conj_disj_distrib)
    with 1 show ?thesis by (intro exI[of _ "Told ib False"]) auto
  next
    case 2
    then show ?thesis by (intro exI[of _ "EndOfFile (hd (sessions s))"]) auto
  next
    case 3
    then show ?thesis by (intro exI[of _ Accept]) (auto split: list.splits)
  next
    case 4
    then show ?thesis
      using assms(1) by (intro exI[of _ TimerExpires]) (auto simp: connect_inv_def)
  qed
qed

section \<open>Property\<close>


text \<open>The connection is made and everything is closed before the timer expires; or nobody connects.\<close>

definition good_run :: "event list" where
  "good_run = [Handshake OwnSocket, Accept, Told 1 True, EndOfFile OwnSocket]"


end
