(* ===== verification/Decimal.thy ===== *)
theory Decimal
  imports Prelude "HOL-Library.Char_ord"
begin

text \<open>
  Decimal numbers as the standard library prints and reads them: \<^verbatim>\<open>operator<<\<close> on an unsigned
  integer, and \<^verbatim>\<open>strtoul\<close> with base 10, which skips white space and stops at the first
  character that is no digit.
\<close>

definition digit_char :: "nat \<Rightarrow> char" where
  "digit_char d = char_of (48 + d)"

definition is_digit :: "char \<Rightarrow> bool" where
  "is_digit c \<longleftrightarrow> 48 \<le> (of_char c :: nat) \<and> (of_char c :: nat) \<le> 57"

definition digit_value :: "char \<Rightarrow> nat" where
  "digit_value c = of_char c - 48"

fun show_nat :: "nat \<Rightarrow> string" where
  "show_nat n = (if n < 10 then [digit_char n] else show_nat (n div 10) @ [digit_char (n mod 10)])"

declare show_nat.simps [simp del]

definition read_digits :: "string \<Rightarrow> nat" where
  "read_digits s = fold (\<lambda>c n. 10 * n + digit_value c) s 0"

definition is_space :: "char \<Rightarrow> bool" where
  "is_space c \<longleftrightarrow> c \<in> {CHR '' '', CHR 0x09, CHR 0x0A, CHR 0x0B, CHR 0x0C, CHR 0x0D}"

text \<open>
  An optional sign, then the digits. A number that does not fit is \<^verbatim>\<open>ULONG_MAX\<close>, and a minus
  sign negates in the unsigned type.
\<close>

definition strtoul :: "string \<Rightarrow> nat" where
  "strtoul s =
     (let t = dropWhile is_space s;
          negative = (t \<noteq> [] \<and> hd t = CHR ''-'');
          u = (if t \<noteq> [] \<and> (hd t = CHR ''-'' \<or> hd t = CHR ''+'') then tl t else t);
          n = read_digits (takeWhile is_digit u)
      in if 2 ^ 64 \<le> n then 2 ^ 64 - 1
         else if negative \<and> 0 < n then 2 ^ 64 - n else n)"

lemma digit_char_simps [simp]:
  assumes "d < 10"
  shows "is_digit (digit_char d)" "digit_value (digit_char d) = d" "\<not> is_space (digit_char d)"
proof -
  have "of_char (digit_char d) = (48 + d :: nat)"
    using assms by (simp add: digit_char_def)
  then show "is_digit (digit_char d)" "digit_value (digit_char d) = d"
    using assms by (simp_all add: is_digit_def digit_value_def)
  show "\<not> is_space (digit_char d)"
  proof
    assume "is_space (digit_char d)"
    then have "of_char (digit_char d) \<in> {32, 9, 10, 11, 12, 13 :: nat}"
      by (auto simp: is_space_def)
    with \<open>of_char (digit_char d) = 48 + d\<close> show False by simp
  qed
qed

lemma show_nat_digits: "\<forall>c \<in> set (show_nat n). is_digit c \<and> \<not> is_space c"
proof (induction n rule: show_nat.induct)
  case (1 n)
  then show ?case by (subst show_nat.simps) auto
qed

lemma show_nat_nonempty [simp]: "show_nat n \<noteq> []"
  by (subst show_nat.simps) simp

lemma read_show [simp]: "read_digits (show_nat n) = n"
proof (induction n rule: show_nat.induct)
  case (1 n)
  then show ?case
    by (subst show_nat.simps) (auto simp: read_digits_def)
qed

lemma takeWhile_show:
  assumes "rest = [] \<or> \<not> is_digit (hd rest)"
  shows "takeWhile is_digit (show_nat n @ rest) = show_nat n"
proof -
  have "takeWhile is_digit rest = []" using assms by (cases rest) auto
  then show ?thesis using show_nat_digits [of n] by (simp add: takeWhile_append2)
qed

lemma show_nat_hd: "is_digit (hd (show_nat n))" "\<not> is_space (hd (show_nat n))"
  using show_nat_digits[of n] by (auto simp: hd_in_set)

lemma dropWhile_show: "dropWhile is_space (show_nat n @ rest) = show_nat n @ rest"
  using show_nat_hd(2)[of n] by (cases "show_nat n") auto

lemma signs_no_digits [simp]: "\<not> is_digit CHR ''-''" "\<not> is_digit CHR ''+''"
  by (simp_all add: is_digit_def)

text \<open>Reading back what was printed, with spaces before and any other text behind.\<close>

lemma strtoul_show:
  assumes "\<forall>c \<in> set spaces. is_space c" "rest = [] \<or> \<not> is_digit (hd rest)" "n < 2 ^ 64"
  shows "strtoul (spaces @ show_nat n @ rest) = n"
proof -
  have "dropWhile is_space (spaces @ show_nat n @ rest) = show_nat n @ rest"
    using assms(1) by (simp add: dropWhile_append2 dropWhile_show)
  moreover have "hd (show_nat n) \<noteq> CHR ''-''" "hd (show_nat n) \<noteq> CHR ''+''"
    using show_nat_hd(1)[of n] by auto
  ultimately show ?thesis
    using assms(2,3) by (simp add: strtoul_def Let_def takeWhile_show)
qed

text \<open>The number of digits.\<close>

lemma show_nat_length:
  assumes "n < 10 ^ k" "0 < k"
  shows "length (show_nat n) \<le> k"
  using assms
proof (induction n arbitrary: k rule: show_nat.induct)
  case (1 n)
  show ?case
  proof (cases "n < 10")
    case True
    with 1(3) show ?thesis by (subst show_nat.simps) simp
  next
    case False
    with 1(2,3) have k: "0 < k - 1" by (cases "k = 1") auto
    have "n < 10 * 10 ^ (k - 1)"
      using 1(2,3) by (cases k) simp_all
    then have "n div 10 < 10 ^ (k - 1)" by simp
    then have "length (show_nat (n div 10)) \<le> k - 1"
      using 1(1)[OF False _ k] by simp
    with False 1(3) show ?thesis by (subst show_nat.simps) simp
  qed
qed

end
