(* ===== verification/Decoders.thy ===== *)
theory Decoders
  imports Decimal "HOL-Library.Sublist"
begin

text \<open>
  The decoders and device handlers of the small programs: \<^verbatim>\<open>src/listen_socket.cxx\<close>,
  \<^verbatim>\<open>src/socket.cxx\<close>, \<^verbatim>\<open>src/pipe.cxx\<close>, \<^verbatim>\<open>src/unix_socket.cxx\<close>, \<^verbatim>\<open>src/tls_socket.cxx\<close>,
  \<^verbatim>\<open>src/filedescriptor.cxx\<close> and \<^verbatim>\<open>src/socket_fd.cxx\<close>. The library calls them with the
  messages it cut out of the input; a handler returns its new state and whether it called
  \<^verbatim>\<open>close_input_device\<close>.
\<close>

section \<open>Comparing memory\<close>

text \<open>
  \<^verbatim>\<open>strncmp (mem + at, pattern, n) == 0\<close>, one character after the other, where \<open>mem\<close> is the
  object that contains the address. A negative offset, or one beyond its end, is a fault.
\<close>

fun strncmp_eq :: "char list \<Rightarrow> int \<Rightarrow> char list \<Rightarrow> nat \<Rightarrow> fault + bool" where
  "strncmp_eq mem at pattern 0 = Inr True"
| "strncmp_eq mem at [] (Suc n) = Inl OutOfBounds"
| "strncmp_eq mem at (p # ps) (Suc n) =
     (if at < 0 \<or> at \<ge> int (length mem) then Inl OutOfBounds
      else if mem ! nat at \<noteq> p then Inr False
      else if p = CHR 0x00 then Inr True
      else strncmp_eq mem (at + 1) ps n)"

lemma strncmp_eq_inside:
  assumes "n \<le> length pattern" "CHR 0x00 \<notin> set pattern" "at + n \<le> length mem"
  shows "strncmp_eq mem (int at) pattern n = Inr (take n (drop at mem) = take n pattern)"
  using assms
proof (induction n arbitrary: at pattern)
  case (Suc n)
  then obtain p ps where pattern: "pattern = p # ps" by (cases pattern) auto
  have drop: "drop at mem = mem ! at # drop (Suc at) mem"
    using Suc.prems(3) by (simp add: Cons_nth_drop_Suc)
  have "strncmp_eq mem (int (Suc at)) ps n = Inr (take n (drop (Suc at) mem) = take n ps)"
    using Suc.prems pattern by (intro Suc.IH) auto
  then show ?case
    using Suc.prems pattern by (auto simp: drop add.commute)
qed simp

lemma strncmp_eq_before:
  "at < 0 \<Longrightarrow> pattern \<noteq> [] \<Longrightarrow> 0 < n \<Longrightarrow> strncmp_eq mem at pattern n = Inl OutOfBounds"
  by (cases pattern; cases n) auto

section \<open>Counting decoders\<close>

text \<open>
  The decoders of \<^verbatim>\<open>listen_socket.cxx\<close> add up the sizes of the messages and close the input
  when the sum is a fixed number: 22 for the accepted socket, 10000 for the other end.
\<close>

definition counting_decode :: "u64 \<Rightarrow> u64 \<Rightarrow> char list \<Rightarrow> u64 \<times> bool" where
  "counting_decode goal_size m_received msg =
     (let m_received' = m_received + of_nat (length msg) in (m_received', m_received' = goal_size))"

definition MyAcceptedSocketDecoder_decode :: "u64 \<Rightarrow> char list \<Rightarrow> u64 \<times> bool" where
  "MyAcceptedSocketDecoder_decode = counting_decode 22"

definition MyDecoder_decode :: "u64 \<Rightarrow> char list \<Rightarrow> u64 \<times> bool" where
  "MyDecoder_decode = counting_decode 10000"

text \<open>\<^verbatim>\<open>end_of_msg_finder\<close> of the accepted socket: every chunk is a message.\<close>

definition MyAcceptedSocketDecoder_end_of_msg_finder :: "char list \<Rightarrow> nat" where
  "MyAcceptedSocketDecoder_end_of_msg_finder chunk = length chunk"

text \<open>What the two ends write: \<^verbatim>\<open>write_burst\<close>, called twice, and \<^verbatim>\<open>new_connection\<close>.\<close>

definition write_burst :: "char list" where "write_burst = ''Burst data!''"

definition burst_line :: "char list" where
  "burst_line =
     ''START012345678901234567890123456789012345678901234567890123456789012345678901234567890123456789END.''
     @ [CHR 0x0A]"

definition new_connection_data :: "char list" where
  "new_connection_data = concat (replicate 100 burst_line)"

text \<open>The messages after which a decoder closes the input.\<close>

fun closes :: "('s \<Rightarrow> char list \<Rightarrow> 's \<times> bool) \<Rightarrow> 's \<Rightarrow> char list list \<Rightarrow> bool list" where
  "closes decode s [] = []"
| "closes decode s (msg # msgs) = (case decode s msg of (s', c) \<Rightarrow> c # closes decode s' msgs)"

lemma counting_decode_step:
  "counting_decode goal_size m msg =
     (m + of_nat (length msg), m + of_nat (length msg) = goal_size)"
  by (simp add: counting_decode_def Let_def)

lemma counting_closes:
  assumes "unat m + length (concat msgs) = unat goal_size" "\<forall>msg \<in> set msgs. msg \<noteq> []"
  shows "closes (counting_decode goal_size) m msgs =
    (if msgs = [] then [] else replicate (length msgs - 1) False @ [True])"
  using assms
proof (induction msgs arbitrary: m)
  case (Cons msg msgs)
  have lt: "unat m + length msg < 2 ^ 64"
  proof -
    have "unat goal_size < 2 ^ 64" using unsigned_less [of goal_size, where ?'a = nat] by simp
    with Cons.prems(1) show ?thesis by simp
  qed
  then have step: "unat (m + of_nat (length msg)) = unat m + length msg"
    by (simp add: unat_word_ariths unat_of_nat)
  have rest: "unat (m + of_nat (length msg)) + length (concat msgs) = unat goal_size"
    using Cons.prems(1) step by simp
  have IH: "closes (counting_decode goal_size) (m + of_nat (length msg)) msgs =
      (if msgs = [] then [] else replicate (length msgs - 1) False @ [True])"
    using Cons.prems(2) by (intro Cons.IH rest) simp
  have "m + of_nat (length msg) = goal_size \<longleftrightarrow> msgs = []"
    using rest Cons.prems(2) by (cases msgs) (auto simp: word_unat_eq_iff)
  moreover have "closes (counting_decode goal_size) m (msg # msgs) =
      (m + of_nat (length msg) = goal_size) #
      closes (counting_decode goal_size) (m + of_nat (length msg)) msgs"
    by (simp only: closes.simps counting_decode_step prod.case)
  ultimately show ?case
    using IH by (cases "msgs = []") (auto simp: Suc_diff_le simp flip: replicate_Suc)
qed simp

section \<open>Decoders that look for a text\<close>

definition hello_world :: "char list" where "hello_world = ''Hello world!'' @ [CHR 0x0A]"

text \<open>\<^verbatim>\<open>pipe.cxx\<close>, \<^verbatim>\<open>unix_socket.cxx\<close> and \<^verbatim>\<open>tls_socket.cxx\<close>.\<close>

definition hello_decode :: "u64 \<Rightarrow> char list \<Rightarrow> u64 \<times> bool" where
  "hello_decode m_received msg = (m_received + of_nat (length msg), msg = hello_world)"

text \<open>\<^verbatim>\<open>InputPrinter\<close> of \<^verbatim>\<open>socket.cxx\<close>.\<close>

definition last_reply :: "char list" where "last_reply = ''#5</body></html>'' @ [CHR 0x0A]"

definition InputPrinter_decode :: "char list \<Rightarrow> fault + bool" where
  "InputPrinter_decode msg =
     (if length msg \<ge> 17 then strncmp_eq msg (int (length msg) - 17) last_reply 17 else Inr False)"


section \<open>The end of a message of TLSSocket\<close>

definition html_end :: "char list" where "html_end = ''</html>''"

text \<open>\<^verbatim>\<open>memchr\<close> for a newline.\<close>

fun find_newline :: "char list \<Rightarrow> nat option" where
  "find_newline [] = None"
| "find_newline (c # cs) = (if c = CHR 0x0A then Some 0 else map_option Suc (find_newline cs))"

text \<open>
  \<^verbatim>\<open>end_of_msg_finder\<close>: the chunk \<^verbatim>\<open>new_data\<close>, of \<^verbatim>\<open>rlen\<close> characters, follows \<open>before\<close> in
  the same buffer. The result is what is returned and the new \<^verbatim>\<open>m_pn\<close>. The \<^verbatim>\<open>while\<close> loop
  looks for the last character among the first six of the pattern.
\<close>

fun pattern_index :: "char \<Rightarrow> char list \<Rightarrow> nat" where
  "pattern_index c [] = 0"
| "pattern_index c (p # ps) = (if p = c then 0 else Suc (pattern_index c ps))"

definition TLS_end_of_msg_finder ::
  "char list \<Rightarrow> char list \<Rightarrow> nat \<Rightarrow> fault + nat \<times> nat" where
  "TLS_end_of_msg_finder before new_data m_pn =
     (let rlen = length new_data; base = int (length before); mem = before @ new_data in
      case find_newline new_data of
        Some i \<Rightarrow> Inr (i + 1, m_pn)
      | None \<Rightarrow>
          if int rlen < 7 - int m_pn then Inr (0, m_pn)
          else
            (case strncmp_eq mem (base + int rlen - (7 - int m_pn)) (drop m_pn html_end) (7 - m_pn) of
               Inl e \<Rightarrow> Inl e
             | Inr True \<Rightarrow> Inr (rlen, m_pn)
             | Inr False \<Rightarrow>
                 let n = pattern_index (new_data ! (rlen - 1)) (take 6 html_end) + 1
                 in if n < 7
                    then (case strncmp_eq mem (base - int n) html_end n of
                            Inl e \<Rightarrow> Inl e
                          | Inr b \<Rightarrow> Inr (0, if b then n else 0))
                    else Inr (0, 0)))"

section \<open>Devices that read by themselves\<close>

text \<open>
  \<^verbatim>\<open>TestInputDevice::read_from_fd\<close> and \<^verbatim>\<open>Socket::read_from_fd\<close> share the loop that reads into
  \<^verbatim>\<open>buf[256]\<close> until less than 256 characters come. \<open>None\<close> is an error of \<^verbatim>\<open>read\<close>. The result
  is the last length, \<open>-1\<close> for an error, and the buffer; each read overwrites its beginning.
\<close>

fun read_blocks :: "char list \<Rightarrow> char list option list \<Rightarrow> (int \<times> char list) option" where
  "read_blocks buf [] = None"
| "read_blocks buf (None # rs) = Some (-1, buf)"
| "read_blocks buf (Some data # rs) =
     (let buf' = data @ drop (length data) buf
      in if length data = 256 then read_blocks buf' rs else Some (int (length data), buf'))"

definition quit_line :: "char list" where "quit_line = ''quit'' @ [CHR 0x0A]"

definition TestInputDevice_read_from_fd :: "char list \<Rightarrow> char list option list \<Rightarrow> bool result" where
  "TestInputDevice_read_from_fd buf reads =
     (case read_blocks buf reads of
        None \<Rightarrow> None
      | Some (len, buf') \<Rightarrow> Some (strncmp_eq buf' 0 quit_line 5))"

datatype device_call = CloseDevice | CloseInput | StopLoop | StopOutput

definition Socket_read_from_fd :: "char list \<Rightarrow> char list option list \<Rightarrow> device_call list result" where
  "Socket_read_from_fd buf reads =
     (case read_blocks buf reads of
        None \<Rightarrow> None
      | Some (len, buf') \<Rightarrow>
          if len = -1 then returns [CloseDevice]
          else
            (case strncmp_eq buf' (len - 17) last_reply 17 of
               Inl e \<Rightarrow> faults e
             | Inr b \<Rightarrow> returns (if b then [CloseInput, StopLoop] else [])))"

text \<open>
  \<^verbatim>\<open>Socket::write_to_fd\<close>: one request per call, then the output stops; and the request, which
  \<^verbatim>\<open>socket.cxx\<close> writes to its streams in the same form.
\<close>

definition crlf :: "char list" where "crlf = [CHR 0x0D, CHR 0x0A]"

definition request_text :: "nat \<Rightarrow> char list" where
  "request_text request =
     ''GET / HTTP/1.1'' @ crlf @ ''Host: localhost:9001'' @ crlf @ ''Accept: */*'' @ crlf @
     ''X-Request: '' @ show_nat request @ crlf @ ''X-Sleep: '' @ show_nat (200 * request) @ crlf @ crlf"

definition Socket_write_to_fd :: "nat \<Rightarrow> nat \<times> (char list + device_call)" where
  "Socket_write_to_fd m_request =
     (if m_request < 6 then (m_request + 1, Inl (request_text m_request))
      else (m_request, Inr StopOutput))"

text \<open>The calls of \<^verbatim>\<open>write_to_fd\<close> that the event loop makes, until the output is stopped.\<close>

fun write_calls :: "nat \<Rightarrow> nat \<Rightarrow> char list list" where
  "write_calls 0 m_request = []"
| "write_calls (Suc fuel) m_request =
     (case Socket_write_to_fd m_request of
        (m', Inl text) \<Rightarrow> text # write_calls fuel m'
      | (m', Inr _) \<Rightarrow> [])"

text \<open>The loop nest of \<^verbatim>\<open>main\<close> in \<^verbatim>\<open>socket.cxx\<close>: what it writes to each of the streams.\<close>

definition stream_requests :: "nat \<Rightarrow> (nat \<times> char list) list" where
  "stream_requests number_of_sockets =
     concat (map (\<lambda>request. map (\<lambda>i. (i, request_text request)) [0..<number_of_sockets]) [0..<6])"

end
