(* ===== verification/DecoderProps.thy ===== *)
theory DecoderProps
  imports Decoders
begin

text \<open>
  The properties of the decoders and device handlers: they close the input at the right
  message, however the input was cut into messages, and where they leave their buffers.
\<close>

section \<open>Counting\<close>

lemma burst_sizes:
  "length write_burst = 11" "length burst_line = 100" "length new_connection_data = 10000"
proof -
  show "length write_burst = 11" "length burst_line = 100"
    by (simp_all add: write_burst_def burst_line_def)
  then show "length new_connection_data = 10000"
    by (simp add: new_connection_data_def length_concat sum_list_replicate)
qed

section \<open>Looking for the end\<close>

lemma suffix_drop: "length p \<le> length xs \<Longrightarrow> suffix p xs \<longleftrightarrow> drop (length xs - length p) xs = p"
  by (metis append_eq_append_conv append_take_drop_id length_drop diff_diff_cancel suffix_def)

lemma last_reply_props: "length last_reply = 17" "CHR 0x00 \<notin> set last_reply"
  by (simp_all add: last_reply_def)

lemma strncmp_last_reply:
  assumes "17 \<le> n" "n \<le> length mem"
  shows "strncmp_eq mem (int n - 17) last_reply 17 = Inr (suffix last_reply (take n mem))"
proof -
  have "int n - 17 = int (n - 17)" using assms(1) by simp
  then have "strncmp_eq mem (int n - 17) last_reply 17 = Inr (take 17 (drop (n - 17) mem) = last_reply)"
    using strncmp_eq_inside [of 17 last_reply "n - 17" mem] last_reply_props assms by simp
  also have "take 17 (drop (n - 17) mem) = drop (n - 17) (take n mem)"
    using assms(1) by (simp add: take_drop)
  finally show ?thesis
    using assms suffix_drop [of last_reply "take n mem"] last_reply_props by simp
qed

lemma InputPrinter_suffix: "InputPrinter_decode msg = Inr (suffix last_reply msg)"
proof (cases "17 \<le> length msg")
  case True
  then show ?thesis
    using strncmp_last_reply [of "length msg" msg] by (simp add: InputPrinter_decode_def)
next
  case False
  then have "\<not> suffix last_reply msg"
    using last_reply_props by (auto dest: suffix_length_le)
  with False show ?thesis by (simp add: InputPrinter_decode_def)
qed

text \<open>What the loop over blocks of 256 characters leaves.\<close>

lemma read_blocks_result:
  assumes "length buf = 256" "\<forall>b \<in> set full. length b = 256"
  shows "read_blocks buf (map Some full @ None # rs) = Some (-1, if full = [] then buf else last full)"
    and "length data < 256 \<Longrightarrow> read_blocks buf (map Some full @ Some data # rs) =
      Some (int (length data), data @ drop (length data) (if full = [] then buf else last full))"
  using assms by (induction full arbitrary: buf) (auto simp: Let_def)

text \<open>
  \<^bold>\<open>C37\<close>. \<^verbatim>\<open>Socket::read_from_fd\<close> of \<^verbatim>\<open>socket_fd.cxx\<close> recognises the last reply at the end of
  its input, unless the last \<^verbatim>\<open>read\<close> gave less than 17 characters: then it compares memory
  in front of its buffer.
\<close>

theorem Socket_read_from_fd_result:
  assumes "length buf = 256" and "\<forall>b \<in> set full. length b = 256" and "length data < 256"
  shows "Socket_read_from_fd buf (map Some full @ Some data # rs) =
      (if length data < 17 then faults OutOfBounds
       else returns (if suffix last_reply data then [CloseInput, StopLoop] else [])) \<and>
    Socket_read_from_fd buf (map Some full @ None # rs) = returns [CloseDevice]"
proof -
  note blocks = read_blocks_result [OF assms(1,2)]
  let ?mem = "data @ drop (length data) (if full = [] then buf else last full)"
  have "strncmp_eq ?mem (int (length data) - 17) last_reply 17 =
      (if length data < 17 then Inl OutOfBounds else Inr (suffix last_reply data))"
  proof (cases "length data < 17")
    case True
    have "last_reply \<noteq> []" by (simp add: last_reply_def)
    with True strncmp_eq_before show ?thesis by simp
  next
    case False
    then show ?thesis using strncmp_last_reply [of "length data" ?mem] by simp
  qed
  then show ?thesis
    using blocks(1) blocks(2) [OF assms(3)] by (simp add: Socket_read_from_fd_def)
qed

theorem Socket_read_from_fd_result_witness:
  "Socket_read_from_fd (replicate 256 CHR ''?'') [Some (''<html><body>'' @ last_reply)] =
     returns [CloseInput, StopLoop] \<and>
   Socket_read_from_fd (replicate 256 CHR ''?'') [Some ''</html>''] = faults OutOfBounds"
proof -
  have "suffix last_reply (''<html><body>'' @ last_reply)" by (rule suffixI) simp
  then show ?thesis
    using Socket_read_from_fd_result [of "replicate 256 CHR ''?''" "[]" "''<html><body>'' @ last_reply" "[]"]
      Socket_read_from_fd_result [of "replicate 256 CHR ''?''" "[]" "''</html>''" "[]"]
    by (simp add: last_reply_props)
qed

text \<open>
  \<^verbatim>\<open>TestInputDevice::read_from_fd\<close> of \<^verbatim>\<open>filedescriptor.cxx\<close> decides on what its buffer
  begins with in the end: the last short read, and behind it what an earlier block left, or
  what the uninitialised array held if there was none.
\<close>

lemma TestInputDevice_decides_on_buffer:
  assumes "length buf = 256" and "\<forall>b \<in> set full. length b = 256" and "length data < 256"
  shows "TestInputDevice_read_from_fd buf (map Some full @ Some data # rs) =
      returns (prefix quit_line (data @ drop (length data) (if full = [] then buf else last full))) \<and>
    TestInputDevice_read_from_fd buf (map Some full @ None # rs) =
      returns (prefix quit_line (if full = [] then buf else last full))"
proof -
  have quit: "length quit_line = 5" "CHR 0x00 \<notin> set quit_line" by (simp_all add: quit_line_def)
  have cmp: "strncmp_eq mem 0 quit_line 5 = Inr (prefix quit_line mem)" if "length mem = 256" for mem
    using strncmp_eq_inside [of 5 quit_line 0 mem] quit that
    by (simp add: prefix_def) (metis append_take_drop_id append_eq_conv_conj)
  have "length (if full = [] then buf else last full) = 256" using assms(1,2) by simp
  then show ?thesis
    using read_blocks_result [OF assms(1,2)] assms(3) cmp
    by (simp add: TestInputDevice_read_from_fd_def)
qed

section \<open>TLSSocket\<close>

lemma find_newline_result:
  "find_newline s = (if CHR 0x0A \<in> set s then Some (length (takeWhile (\<lambda>c. c \<noteq> CHR 0x0A) s)) else None)"
  by (induction s) auto

lemma html_end_props:
  "length html_end = 7" "CHR 0x00 \<notin> set html_end" "take 7 html_end = html_end"
  by (simp_all add: html_end_def)

lemma pattern_index_less: "pattern_index c ps < length ps \<longleftrightarrow> c \<in> set ps"
  by (induction ps) auto

lemma pattern_index_le: "pattern_index c ps \<le> length ps"
  by (induction ps) auto

lemma strncmp_html_end:
  assumes "7 \<le> n" "n = length mem"
  shows "strncmp_eq mem (int n - 7) html_end 7 = Inr (suffix html_end mem)"
proof -
  have "int n - 7 = int (n - 7)" using assms(1) by simp
  then have "strncmp_eq mem (int n - 7) html_end 7 = Inr (take 7 (drop (n - 7) mem) = html_end)"
    using strncmp_eq_inside [of 7 html_end "n - 7" mem] html_end_props assms by simp
  also have "take 7 (drop (n - 7) mem) = drop (n - 7) mem"
    using assms by simp
  finally show ?thesis
    using assms suffix_drop [of html_end mem] html_end_props by simp
qed

text \<open>
  What \<^verbatim>\<open>end_of_msg_finder\<close> of \<^verbatim>\<open>tls_socket.cxx\<close> finds in the first chunk of a
  buffer: the first newline, or else \<^verbatim>\<open></html>\<close> at the end of the chunk. But when neither is
  there, and the last character of a chunk of at least seven is one of the first six of the
  pattern, it looks for the partial match in front of the chunk instead of at its end.
\<close>

lemma TLS_first_chunk:
  "TLS_end_of_msg_finder [] new_data 0 =
     (if CHR 0x0A \<in> set new_data
      then Inr (length (takeWhile (\<lambda>c. c \<noteq> CHR 0x0A) new_data) + 1, 0)
      else if suffix html_end new_data then Inr (length new_data, 0)
      else if 7 \<le> length new_data \<and> last new_data \<in> set (take 6 html_end) then Inl OutOfBounds
      else Inr (0, 0))"
proof (cases "CHR 0x0A \<in> set new_data")
  case True
  then show ?thesis by (simp add: TLS_end_of_msg_finder_def find_newline_result)
next
  case False
  show ?thesis
  proof (cases "7 \<le> length new_data")
    case short: False
    then have "\<not> suffix html_end new_data" using html_end_props by (auto dest: suffix_length_le)
    with False short show ?thesis by (simp add: TLS_end_of_msg_finder_def find_newline_result)
  next
    case True
    let ?i = "pattern_index (last new_data) (take 6 html_end)"
    have last: "new_data ! (length new_data - Suc 0) = last new_data"
      using True by (subst last_conv_nth) auto
    have cmp: "strncmp_eq new_data (int (length new_data) - 7) html_end 7 = Inr (suffix html_end new_data)"
      using strncmp_html_end [OF True refl] .
    have idx: "?i < 6 \<longleftrightarrow> last new_data \<in> set (take 6 html_end)"
      using pattern_index_less [of "last new_data" "take 6 html_end"] html_end_props(1) by simp
    have before: "strncmp_eq new_data (- 1 - int ?i) html_end (Suc ?i) = Inl OutOfBounds"
      by (rule strncmp_eq_before) (simp_all add: html_end_def)
    show ?thesis
      using False True cmp before idx
      by (auto simp: TLS_end_of_msg_finder_def find_newline_result Let_def last)
  qed
qed

text \<open>
  The closing tag is missed when it is split: after a chunk that ends in a proper
  beginning of it, \<^verbatim>\<open>m_pn\<close> is 0 whatever the chunk ends in, unless the same characters
  happen to stand in front of the chunk; and the rest of the tag alone ends no message.
\<close>

lemma TLS_split_tag_missed:
  assumes "CHR 0x0A \<notin> set new_data" and "7 \<le> length new_data" and "\<not> suffix html_end new_data"
    and "last new_data = html_end ! n" and "n < 6"
    and "Suc n \<le> length before" and "\<not> suffix (take (Suc n) html_end) before"
    and "length rest < 7" and "CHR 0x0A \<notin> set rest"
  shows "TLS_end_of_msg_finder before new_data 0 = Inr (0, 0) \<and>
    TLS_end_of_msg_finder (before @ new_data) rest 0 = Inr (0, 0)"
proof
  let ?mem = "before @ new_data"
  have last: "new_data ! (length new_data - Suc 0) = last new_data"
    using assms(2) by (subst last_conv_nth) auto
  have suff: "suffix html_end ?mem \<longleftrightarrow> suffix html_end new_data"
    using assms(2) html_end_props(1)
    by (simp add: suffix_drop)
  have cmp: "strncmp_eq ?mem (int (length before) + int (length new_data) - 7) html_end 7 = Inr False"
    using strncmp_html_end [of "length ?mem" ?mem] assms(2,3) suff by simp
  have distinct: "pattern_index (html_end ! n) (take 6 html_end) = n"
  proof -
    have "n = 0 \<or> n = 1 \<or> n = 2 \<or> n = 3 \<or> n = 4 \<or> n = 5" using assms(5) by arith
    then show ?thesis by (auto simp: html_end_def)
  qed
  have at: "int (length before) - int (Suc n) = int (length before - Suc n)" using assms(6) by simp
  have "strncmp_eq ?mem (int (length before) - int (Suc n)) html_end (Suc n) =
      Inr (take (Suc n) (drop (length before - Suc n) ?mem) = take (Suc n) html_end)"
    unfolding at using assms(5,6) html_end_props by (intro strncmp_eq_inside) auto
  also have "take (Suc n) (drop (length before - Suc n) ?mem) = drop (length before - Suc n) before"
    using assms(6) by simp
  also have "(drop (length before - Suc n) before = take (Suc n) html_end) = False"
    using assms(5,6,7) suffix_drop [of "take (Suc n) html_end" before] html_end_props(1) by simp
  finally have pre: "strncmp_eq ?mem (int (length before) - int (Suc n)) html_end (Suc n) = Inr False" .
  show "TLS_end_of_msg_finder before new_data 0 = Inr (0, 0)"
    using assms(1,2,5) cmp pre
    by (simp add: TLS_end_of_msg_finder_def find_newline_result Let_def last assms(4) distinct)
  show "TLS_end_of_msg_finder (before @ new_data) rest 0 = Inr (0, 0)"
    using assms(8,9) by (simp add: TLS_end_of_msg_finder_def find_newline_result)
qed

lemma TLS_split_tag_missed_example:
  "TLS_end_of_msg_finder ''<html>'' ''<body>bye</ht'' 0 = Inr (0, 0) \<and>
   TLS_end_of_msg_finder (''<html>'' @ ''<body>bye</ht'') ''ml>'' 0 = Inr (0, 0)"
  by (rule TLS_split_tag_missed [where n = 3]) (simp_all add: html_end_def suffix_to_prefix)

section \<open>The requests\<close>

lemma write_calls_from:
  "m \<le> 6 \<Longrightarrow> write_calls fuel m = map request_text [m..<min (m + fuel) 6]"
proof (induction fuel arbitrary: m)
  case (Suc fuel)
  show ?case
  proof (cases "m < 6")
    case True
    then have less: "m < min (Suc m + fuel) 6" and same: "min (m + Suc fuel) 6 = min (Suc m + fuel) 6"
      by simp_all
    have "[m..<min (m + Suc fuel) 6] = m # [Suc m..<min (Suc m + fuel) 6]"
      unfolding same by (rule upt_conv_Cons [OF less])
    with True Suc.IH [of "Suc m"] show ?thesis by (simp add: Socket_write_to_fd_def)
  qed (use Suc.prems in \<open>simp add: Socket_write_to_fd_def\<close>)
qed simp

lemma stream_requests_of:
  assumes "i < k"
  shows "map snd (filter (\<lambda>x. fst x = i) (stream_requests k)) = map request_text [0..<6]"
proof -
  have one: "map snd (filter (\<lambda>x. fst x = i) (map (\<lambda>j. (j, request_text r)) [0..<k])) = [request_text r]" for r
  proof -
    have "filter (\<lambda>j. j = i) [0..<k] = [i]"
      using assms by (induction k) (auto simp: less_Suc_eq)
    then show ?thesis by (simp add: filter_map comp_def)
  qed
  have "map snd (filter (\<lambda>x. fst x = i) (concat (map (\<lambda>r. map (\<lambda>j. (j, request_text r)) [0..<k]) rs))) =
      map request_text rs" for rs
    by (induction rs) (simp_all add: one)
  then show ?thesis by (simp add: stream_requests_def)
qed

text \<open>
  The socket of \<^verbatim>\<open>socket_fd.cxx\<close> writes the requests 0 to 5, in this order and nothing
  else, however often the event loop calls \<^verbatim>\<open>write_to_fd\<close>; and the loops of \<^verbatim>\<open>socket.cxx\<close>
  write the same six requests in this order to each of the sockets.
\<close>

lemma six_requests:
  assumes "i < number_of_sockets" and "6 \<le> calls"
  shows "write_calls calls 0 = map request_text [0..<6] \<and>
    map snd (filter (\<lambda>x. fst x = i) (stream_requests number_of_sockets)) = map request_text [0..<6]"
  using write_calls_from [of 0 calls] stream_requests_of [OF assms(1)] assms(2) by simp

text \<open>
  The numbers of a request can be read back with \<^verbatim>\<open>strtoul\<close> behind their header names,
  as the server does.
\<close>

lemma request_fields_roundtrip:
  assumes "200 * request < 2 ^ 64"
  shows "\<exists>a b c. request_text request = a @ ''X-Request:'' @ b @ ''X-Sleep:'' @ c \<and>
    strtoul (b @ ''X-Sleep:'' @ c) = request \<and> strtoul c = 200 * request"
proof -
  let ?a = "''GET / HTTP/1.1'' @ crlf @ ''Host: localhost:9001'' @ crlf @ ''Accept: */*'' @ crlf"
  let ?b = "'' '' @ show_nat request @ crlf"
  let ?c = "'' '' @ show_nat (200 * request) @ crlf @ crlf"
  have "request_text request = ?a @ ''X-Request:'' @ ?b @ ''X-Sleep:'' @ ?c"
    by (simp add: request_text_def)
  moreover have "strtoul ('' '' @ show_nat n @ crlf @ rest) = n" if "n < 2 ^ 64" for n rest
  proof (rule strtoul_show [OF _ _ that])
    show "\<forall>c \<in> set '' ''. is_space c" by (simp add: is_space_def)
    show "crlf @ rest = [] \<or> \<not> is_digit (hd (crlf @ rest))" by (simp add: crlf_def is_digit_def)
  qed
  ultimately show ?thesis
    using assms by (intro exI [of _ ?a] exI [of _ ?b] exI [of _ ?c]) simp
qed

end
