(* ===== verification/FdRun.thy ===== *)
theory FdRun
  imports DecoderProps
begin

text \<open>
  \<^verbatim>\<open>src/filedescriptor.cxx\<close> as a whole: one device on the standard input and one on the standard
  output, with the calls of the event loop in any order. The property says for what input the
  program ends.
\<close>

section \<open>State\<close>

text \<open>\<open>input_open\<close> and \<open>output_on\<close> are the devices the event loop still waits for.\<close>

record fd_state =
  input_open :: bool
  output_on :: bool
  printed :: "char list"

text \<open>After both devices have been started.\<close>

definition fd_start :: fd_state where
  "fd_start = \<lparr>input_open = True, output_on = True, printed = []\<rparr>"

text \<open>\<^verbatim>\<open>TestOutputDevice::write_to_fd\<close>: one line, whatever \<^verbatim>\<open>write\<close> returns, then the device is stopped.\<close>

definition TestOutputDevice_write_to_fd :: "fd_state \<Rightarrow> fd_state" where
  "TestOutputDevice_write_to_fd s =
     s\<lparr>printed := printed s @ ''Hello World'' @ [CHR 0x0A], output_on := False\<rparr>"

text \<open>
  A readable event has the contents of the array \<^verbatim>\<open>buf\<close>, which is not initialised, and the results of
  \<^verbatim>\<open>read\<close>. Events of a device that was closed or stopped are not delivered.
\<close>

datatype fd_event = Readable "char list" "char list option list" | Writable

fun deliver_fd :: "fd_event \<Rightarrow> fd_state \<Rightarrow> fd_state result" where
  "deliver_fd (Readable buf reads) s =
     (if input_open s
      then and_then (TestInputDevice_read_from_fd buf reads)
             (\<lambda>quit. returns (if quit then s\<lparr>input_open := False\<rparr> else s))
      else returns s)"
| "deliver_fd Writable s = returns (if output_on s then TestOutputDevice_write_to_fd s else s)"

fun fd_run :: "fd_event list \<Rightarrow> fd_state \<Rightarrow> fd_state result" where
  "fd_run [] s = returns s"
| "fd_run (ev # evs) s = and_then (deliver_fd ev s) (fd_run evs)"

text \<open>\<^verbatim>\<open>event_loop.join()\<close> comes back when no device is left.\<close>

definition fd_joined :: "fd_state \<Rightarrow> bool" where
  "fd_joined s \<longleftrightarrow> \<not> input_open s \<and> \<not> output_on s"

section \<open>Input of a terminal\<close>

text \<open>A terminal gives one line per call of \<^verbatim>\<open>read\<close>, here of less than 256 characters.\<close>

definition is_line :: "char list \<Rightarrow> bool" where
  "is_line line \<longleftrightarrow> length line < 256 \<and> line \<noteq> [] \<and> last line = CHR 0x0A \<and> CHR 0x0A \<notin> set (butlast line)"

fun from_terminal :: "fd_event \<Rightarrow> bool" where
  "from_terminal (Readable buf reads) \<longleftrightarrow>
     length buf = 256 \<and> length reads = 1 \<and> (case hd reads of None \<Rightarrow> False | Some line \<Rightarrow> is_line line)"
| "from_terminal Writable \<longleftrightarrow> True"

fun types_quit :: "fd_event \<Rightarrow> bool" where
  "types_quit (Readable buf reads) \<longleftrightarrow> reads = [Some quit_line]"
| "types_quit Writable \<longleftrightarrow> False"

text \<open>Two lines of which one is the beginning of the other are the same, so what is behind a line does not matter.\<close>

lemma line_begins_with_line:
  assumes "is_line a" "is_line b" "prefix a (b @ rest)"
  shows "a = b"
proof -
  obtain a' where a: "a = a' @ [CHR 0x0A]" "CHR 0x0A \<notin> set a'"
    using assms(1) unfolding is_line_def by (metis append_butlast_last_id)
  obtain b' where b: "b = b' @ [CHR 0x0A]" "CHR 0x0A \<notin> set b'"
    using assms(2) unfolding is_line_def by (metis append_butlast_last_id)
  obtain zs where "a' @ CHR 0x0A # zs = b' @ CHR 0x0A # rest"
    using assms(3) a(1) b(1) by (auto simp: prefix_def)
  moreover have "takeWhile (\<lambda>c. c \<noteq> CHR 0x0A) (xs @ CHR 0x0A # ys) = xs" if "CHR 0x0A \<notin> set xs" for xs ys
    using that by (induction xs) auto
  ultimately have "a' = b'" using a(2) b(2) by metis
  then show ?thesis using a b by simp
qed

lemma quit_line_is_line: "is_line quit_line"
  by (simp add: is_line_def quit_line_def)

lemma reads_a_line:
  assumes "length buf = 256" "is_line line"
  shows "TestInputDevice_read_from_fd buf [Some line] = returns (line = quit_line)"
proof -
  have "TestInputDevice_read_from_fd buf [Some line] = returns (prefix quit_line (line @ drop (length line) buf))"
    using TestInputDevice_decides_on_buffer[of buf "[]" line "[]"] assms by (simp add: is_line_def)
  moreover have "prefix quit_line (line @ drop (length line) buf) \<longleftrightarrow> line = quit_line"
    using line_begins_with_line[OF quit_line_is_line assms(2)] by auto
  ultimately show ?thesis by simp
qed

lemma fd_run_terminal:
  assumes "\<forall>ev \<in> set evs. from_terminal ev"
  shows "fd_run evs s = returns
    (s\<lparr>input_open := input_open s \<and> \<not> (\<exists>ev \<in> set evs. types_quit ev),
       output_on := output_on s \<and> Writable \<notin> set evs,
       printed := printed s @ (if output_on s \<and> Writable \<in> set evs then ''Hello World'' @ [CHR 0x0A] else [])\<rparr>)"
  using assms
proof (induction evs arbitrary: s)
  case (Cons ev evs)
  show ?case
  proof (cases ev)
    case (Readable buf reads)
    with Cons.prems obtain line where "length buf = 256" "reads = [Some line]" "is_line line"
      by (cases reads) (auto split: option.splits)
    then show ?thesis
      using Cons Readable reads_a_line by (simp split: if_splits)
  next
    case Writable
    then show ?thesis
      using Cons by (simp add: TestOutputDevice_write_to_fd_def)
  qed
qed simp

section \<open>Property\<close>



end
