(* ===== verification/RAMachine.thy ===== *)
theory RAMachine
  imports Prelude
begin

text \<open>
  An operational model of C11 atomics without fences and read-modify-writes: each location
  has messages at time stamps, each thread a view of how much of a location it has seen. A
  load takes any message that is not older than the view; an acquire load also takes over
  the view that came with the message. A store picks any free time stamp above the view; a
  release store sends the view along, a relaxed one only its own time stamp. This is the
  behaviour of the release/acquire fragment of RC11, in which genmc explores the programs.
\<close>

type_synonym 'l view = "'l \<Rightarrow> nat"
type_synonym 'l memory = "'l \<Rightarrow> nat \<Rightarrow> (int \<times> 'l view) option"

definition join_view :: "'l view \<Rightarrow> 'l view \<Rightarrow> 'l view" where
  "join_view V W = (\<lambda>l. max (V l) (W l))"

text \<open>\<open>acq\<close> and \<open>rel\<close> tell \<^verbatim>\<open>memory_order_acquire\<close> and \<^verbatim>\<open>release\<close> from \<^verbatim>\<open>relaxed\<close>.\<close>

definition atomic_load :: "bool \<Rightarrow> 'l \<Rightarrow> nat \<Rightarrow> 'l memory \<Rightarrow> 'l view \<Rightarrow> (int \<times> 'l view) option" where
  "atomic_load acq l t M V =
     (case M l t of
        None \<Rightarrow> None
      | Some (x, W) \<Rightarrow>
          if t < V l then None else Some (x, if acq then join_view V W else V(l := t)))"

definition atomic_store ::
  "bool \<Rightarrow> 'l \<Rightarrow> int \<Rightarrow> nat \<Rightarrow> 'l memory \<Rightarrow> 'l view \<Rightarrow> ('l memory \<times> 'l view) option" where
  "atomic_store rel l x t M V =
     (if t \<le> V l \<or> M l t \<noteq> None then None
      else
        let V' = V(l := t); W = (if rel then V' else (\<lambda>_. 0)(l := t))
        in Some (M(l := (M l)(t \<mapsto> (x, W))), V'))"

lemma atomic_loadE:
  assumes "atomic_load acq l t M V = Some (x, V')"
  obtains W where "M l t = Some (x, W)" "V l \<le> t"
    "V' = (if acq then join_view V W else V(l := t))"
  using assms by (auto simp: atomic_load_def split: option.splits if_splits)

lemma atomic_storeD:
  "atomic_store rel l x t M V = Some (M', V') \<Longrightarrow>
   V l < t \<and> M l t = None \<and> V' = V(l := t) \<and>
   M' = M(l := (M l)(t \<mapsto> (x, if rel then V(l := t) else (\<lambda>_. 0)(l := t))))"
  by (cases "M l t") (auto simp: atomic_store_def Let_def split: if_splits)

lemma join_view_simps [simp]:
  "V l \<le> join_view V W l" "W l \<le> join_view V W l"
  "join_view V W l \<le> n \<longleftrightarrow> V l \<le> n \<and> W l \<le> n"
  "n \<le> join_view V W l \<longleftrightarrow> n \<le> V l \<or> n \<le> W l"
  "0 < join_view V W l \<longleftrightarrow> 0 < V l \<or> 0 < W l"
  by (auto simp: join_view_def)

text \<open>The memory of initialised locations, each with a message at time 0.\<close>

definition init_memory :: "('l \<Rightarrow> int) \<Rightarrow> 'l memory" where
  "init_memory x = (\<lambda>l t. if t = 0 then Some (x l, \<lambda>_. 0) else None)"

section \<open>Progress\<close>

text \<open>
  Every entry of a view names a message, of which there are finitely many: then a thread can
  always load and always finds a free time stamp for a store.
\<close>

definition wf_view :: "'l memory \<Rightarrow> 'l view \<Rightarrow> bool" where
  "wf_view M V \<longleftrightarrow> (\<forall>l. M l (V l) \<noteq> None)"

definition wf_memory :: "'l memory \<Rightarrow> bool" where
  "wf_memory M \<longleftrightarrow>
     (\<forall>l. finite (dom (M l))) \<and> (\<forall>l. M l 0 \<noteq> None) \<and> (\<forall>l t x W. M l t = Some (x, W) \<longrightarrow> wf_view M W)"

lemma wf_init_memory: "wf_memory (init_memory x)" "wf_view (init_memory x) (\<lambda>_. 0)"
proof -
  have "dom (init_memory x l) = {0}" for l
    by (auto simp: init_memory_def split: if_splits)
  then show "wf_memory (init_memory x)"
    by (auto simp: wf_memory_def wf_view_def init_memory_def split: if_splits)
qed (simp add: wf_view_def init_memory_def)

lemma wf_view_store:
  "wf_view M V \<Longrightarrow> wf_view (M(l := (M l)(t \<mapsto> m))) V"
  "wf_view M V \<Longrightarrow> wf_view (M(l := (M l)(t \<mapsto> m))) (V(l := t))"
  by (auto simp: wf_view_def)

lemma wf_view_join: "wf_view M V \<Longrightarrow> wf_view M W \<Longrightarrow> wf_view M (join_view V W)"
  by (auto simp: wf_view_def join_view_def max_def)

lemma atomic_store_wf:
  assumes "atomic_store rel l x t M V = Some (M', V')" "wf_memory M" "wf_view M V"
  shows "wf_memory M'" "wf_view M' V'" "wf_view M W \<Longrightarrow> wf_view M' W"
proof -
  note s = atomic_storeD[OF assms(1)]
  have z: "wf_view M (\<lambda>_. 0)" using assms(2) by (simp add: wf_memory_def wf_view_def)
  show "wf_view M' V'" "wf_view M W \<Longrightarrow> wf_view M' W"
    using s assms(3) wf_view_store by auto
  show "wf_memory M'"
    using s assms(2,3) z wf_view_store[of M] unfolding wf_memory_def by (auto split: if_splits)
qed

lemma atomic_load_wf:
  assumes "atomic_load acq l t M V = Some (x, V')" "wf_memory M" "wf_view M V"
  shows "wf_view M V'"
proof -
  obtain W where W: "M l t = Some (x, W)"
    and V': "V' = (if acq then join_view V W else V(l := t))"
    using assms(1) by (rule atomic_loadE)
  have "wf_view M W"
    using assms(2) W by (auto simp: wf_memory_def)
  moreover have "wf_view M (V(l := t))"
    using assms(3) W by (auto simp: wf_view_def)
  ultimately show ?thesis
    using V' assms(3) by (simp add: wf_view_join)
qed

lemma atomic_load_enabled:
  assumes "wf_view M V"
  shows "\<exists>t x V'. atomic_load acq l t M V = Some (x, V')"
proof -
  have "M l (V l) \<noteq> None"
    using assms unfolding wf_view_def by blast
  then obtain x W where "M l (V l) = Some (x, W)"
    by (cases "M l (V l)") auto
  then have "atomic_load acq l (V l) M V = Some (x, if acq then join_view V W else V(l := V l))"
    by (simp add: atomic_load_def)
  then show ?thesis by blast
qed

lemma atomic_store_enabled:
  assumes "wf_memory M"
  shows "\<exists>t M' V'. atomic_store rel l x t M V = Some (M', V')"
proof -
  obtain t where "t \<notin> dom (M l) \<union> {..V l}"
    using assms ex_new_if_finite[of "dom (M l) \<union> {..V l}"] by (auto simp: wf_memory_def)
  then have "\<not> t \<le> V l" "M l t = None"
    by auto
  then show ?thesis
    by (intro exI[of _ t]) (simp add: atomic_store_def Let_def)
qed

end
