(* ===== verification/ResetAlgo.thy ===== *)
theory ResetAlgo
  imports RAMachine
begin

text \<open>
  \<^verbatim>\<open>src/genmc_reset_algo.c\<close>: the protocol by which the producer of a buffer resets its write
  pointer while the consumer reads, on the memory of \<open>RAMachine\<close>. Each step of a thread is a
  function of the state and of the time stamp that the memory chooses.
\<close>

section \<open>The two threads\<close>

datatype loc = m_resetting | m_last_pptr

record reset =
  mem :: "loc memory"
  p_pc :: nat
  p_view :: "loc view"
  total_written :: int
  c_pc :: nat
  c_view :: "loc view"
  is_resetting :: int
  cur_pptr :: int
  gptr :: int
  total_read :: int

definition reset_init :: reset where
  "reset_init =
     \<lparr>mem = init_memory (\<lambda>l. case l of m_resetting \<Rightarrow> 0 | m_last_pptr \<Rightarrow> 5),
      p_pc = 0, p_view = (\<lambda>_. 0), total_written = 0,
      c_pc = 0, c_view = (\<lambda>_. 0), is_resetting = 0, cur_pptr = 0, gptr = 5, total_read = 0\<rparr>"

definition p_store :: "bool \<Rightarrow> loc \<Rightarrow> int \<Rightarrow> nat \<Rightarrow> reset \<Rightarrow> reset option" where
  "p_store rel l x t s =
     (case atomic_store rel l x t (mem s) (p_view s) of
        None \<Rightarrow> None
      | Some (M, V) \<Rightarrow> Some (s\<lparr>mem := M, p_view := V, p_pc := p_pc s + 1\<rparr>))"

text \<open>\<^verbatim>\<open>producer_thread\<close>, statement by statement; 5 is its end.\<close>

definition producer_step :: "nat \<Rightarrow> reset \<Rightarrow> reset option" where
  "producer_step t s =
     (if p_pc s = 0 then p_store False m_last_pptr 0 t s
      else if p_pc s = 1 then p_store True m_resetting 1 t s
      else if p_pc s = 2 then p_store True m_last_pptr 2 t s
      else if p_pc s = 3 then p_store True m_last_pptr 8 t s
      else if p_pc s = 4 then
        (case atomic_load False m_last_pptr t (mem s) (p_view s) of
           None \<Rightarrow> None
         | Some (x, V) \<Rightarrow> Some (s\<lparr>total_written := x, p_view := V, p_pc := 5\<rparr>))
      else None)"

definition c_load :: "bool \<Rightarrow> loc \<Rightarrow> nat \<Rightarrow> (int \<Rightarrow> reset \<Rightarrow> reset) \<Rightarrow> reset \<Rightarrow> (fault + reset) option" where
  "c_load acq l t f s =
     (case atomic_load acq l t (mem s) (c_view s) of
        None \<Rightarrow> None
      | Some (x, V) \<Rightarrow> Some (Inr (f x (s\<lparr>c_view := V\<rparr>))))"

text \<open>\<^verbatim>\<open>consumer_thread\<close>; the assertions can fail. 8 is its end.\<close>

definition consumer_step :: "nat \<Rightarrow> reset \<Rightarrow> (fault + reset) option" where
  "consumer_step t s =
     (if c_pc s = 0 then c_load True m_resetting t (\<lambda>x s. s\<lparr>is_resetting := x, c_pc := 1\<rparr>) s
      else if c_pc s = 1 then c_load True m_last_pptr t (\<lambda>x s. s\<lparr>cur_pptr := x, c_pc := 2\<rparr>) s
      else if c_pc s = 2 then
        let r = (is_resetting s) OR (if cur_pptr s = 0 \<and> gptr s \<noteq> 0 then 1 else 0)
        in Some (Inr (s\<lparr>is_resetting := r, c_pc := (if r = 0 then 3 else 5)\<rparr>))
      else if c_pc s = 3 then
        c_load True m_resetting t
          (\<lambda>x s. if x \<noteq> 0 then s\<lparr>is_resetting := 1, c_pc := 4\<rparr> else s\<lparr>c_pc := 5\<rparr>) s
      else if c_pc s = 4 then c_load False m_last_pptr t (\<lambda>x s. s\<lparr>cur_pptr := x, c_pc := 5\<rparr>) s
      else if c_pc s = 5 then
        (if is_resetting s = 0
         then (if cur_pptr s = 5 then Some (Inr (s\<lparr>c_pc := 7\<rparr>)) else Some (Inl AssertFailed))
         else if cur_pptr s = 0 \<or> cur_pptr s = 2 \<or> cur_pptr s = 8
              then Some (Inr (s\<lparr>total_read := total_read s + cur_pptr s, c_pc := 6\<rparr>))
              else Some (Inl AssertFailed))
      else if c_pc s = 6 then
        (case atomic_store False m_resetting 0 t (mem s) (c_view s) of
           None \<Rightarrow> None
         | Some (M, V) \<Rightarrow> Some (Inr (s\<lparr>mem := M, c_view := V, gptr := 0, c_pc := 7\<rparr>)))
      else if c_pc s = 7 then Some (Inr (s\<lparr>gptr := cur_pptr s, c_pc := 8\<rparr>))
      else None)"

text \<open>The interleavings; a failed assertion is a step without a successor.\<close>

inductive reset_step :: "reset \<Rightarrow> fault + reset \<Rightarrow> bool" where
  producer: "producer_step t s = Some s' \<Longrightarrow> reset_step s (Inr s')"
| consumer: "consumer_step t s = Some r \<Longrightarrow> reset_step s r"

inductive reset_reachable :: "reset \<Rightarrow> bool" where
  init: "reset_reachable reset_init"
| step: "reset_reachable s \<Longrightarrow> reset_step s (Inr s') \<Longrightarrow> reset_reachable s'"

text \<open>
  \<^verbatim>\<open>main\<close> after joining both threads: its view is that of both, and its last assertion reads
  both locations once more.
\<close>

definition final_assert :: "nat \<Rightarrow> nat \<Rightarrow> reset \<Rightarrow> bool option" where
  "final_assert t t' s =
     (let V = join_view (p_view s) (c_view s) in
      case (atomic_load False m_last_pptr t (mem s) V, atomic_load False m_resetting t' (mem s) V) of
        (Some (pptr, _), Some (resetting, _)) \<Rightarrow>
          Some (pptr - (if resetting \<noteq> 0 then 0 else gptr s) = total_written s - total_read s)
      | _ \<Rightarrow> None)"

section \<open>Runs with a given schedule\<close>

text \<open>
  A schedule lists the thread that moves (\<open>True\<close> for the producer) and the time stamp it uses.
\<close>

fun reset_run :: "(bool \<times> nat) list \<Rightarrow> reset \<Rightarrow> reset option" where
  "reset_run [] s = Some s"
| "reset_run ((True, t) # ts) s = (case producer_step t s of Some s' \<Rightarrow> reset_run ts s' | None \<Rightarrow> None)"
| "reset_run ((False, t) # ts) s =
     (case consumer_step t s of Some (Inr s') \<Rightarrow> reset_run ts s' | _ \<Rightarrow> None)"

lemma reset_run_reachable:
  "reset_run ts s = Some s' \<Longrightarrow> reset_reachable s \<Longrightarrow> reset_reachable s'"
  by (induction ts s rule: reset_run.induct)
    (auto split: option.splits sum.splits intro: reset_reachable.step reset_step.intros)

end
