(* ===== verification/ResetInv.thy ===== *)
theory ResetInv
  imports ResetAlgo
begin

text \<open>
  Why the reset protocol of \<open>ResetAlgo\<close> is right: the invariant of its reachable states, which
  says what each message carries and what each thread knows at each of its statements, and the
  properties that follow from it.
\<close>

section \<open>The invariant\<close>

text \<open>What the producer has written, by its position.\<close>

definition producer_inv :: "reset \<Rightarrow> bool" where
  "producer_inv s \<longleftrightarrow>
     p_pc s \<le> 5 \<and>
     (\<forall>t. p_view s m_last_pptr < t \<longrightarrow> mem s m_last_pptr t = None) \<and>
     (\<exists>W. mem s m_last_pptr (p_view s m_last_pptr) =
        Some ((if p_pc s = 0 then 5 else if p_pc s \<le> 2 then 0 else if p_pc s = 3 then 2 else 8), W)) \<and>
     (0 < p_pc s \<longrightarrow> 0 < p_view s m_last_pptr) \<and>
     (if p_pc s < 2 then p_view s m_resetting = 0
      else 0 < p_view s m_resetting \<and> (\<exists>W. mem s m_resetting (p_view s m_resetting) = Some (1, W))) \<and>
     (p_pc s = 5 \<longrightarrow> total_written s = 8)"

text \<open>
  The messages: a new value of the pointer above 0 brings the view that has seen the reset
  flag, and the flag brings a view that has seen a reset pointer.
\<close>

definition pptr_message :: "reset \<Rightarrow> nat \<Rightarrow> int \<Rightarrow> loc view \<Rightarrow> bool" where
  "pptr_message s t x W \<longleftrightarrow>
     W m_last_pptr = t \<and> (if t = 0 then x = 5 else x = 0 \<or> x = 2 \<or> x = 8) \<and>
     (x = 2 \<or> x = 8 \<longrightarrow> 2 \<le> p_pc s \<and> W m_resetting = p_view s m_resetting)"

definition flag_message :: "reset \<Rightarrow> nat \<Rightarrow> int \<Rightarrow> loc view \<Rightarrow> bool" where
  "flag_message s t x W \<longleftrightarrow>
     W m_resetting = t \<and>
     (x = 1 \<and> 0 < t \<and> 2 \<le> p_pc s \<and> t = p_view s m_resetting \<and> 0 < W m_last_pptr \<or>
      x = 0 \<and> t = 0 \<or>
      x = 0 \<and> 0 < t \<and> 7 \<le> c_pc s \<and> is_resetting s \<noteq> 0 \<and> t = c_view s m_resetting)"

definition messages_inv :: "reset \<Rightarrow> bool" where
  "messages_inv s \<longleftrightarrow>
     (\<forall>t x W. mem s m_last_pptr t = Some (x, W) \<longrightarrow> pptr_message s t x W) \<and>
     (\<forall>t x W. mem s m_resetting t = Some (x, W) \<longrightarrow> flag_message s t x W)"

lemma messages_inv_store:
  assumes "messages_inv s"
    and "mem s' = (mem s)(l := (mem s l)(t \<mapsto> (x, W)))"
    and "l = m_last_pptr \<Longrightarrow> pptr_message s' t x W"
    and "l = m_resetting \<Longrightarrow> flag_message s' t x W"
    and "\<And>t x W. mem s m_last_pptr t = Some (x, W) \<Longrightarrow> pptr_message s t x W \<Longrightarrow> pptr_message s' t x W"
    and "\<And>t x W. mem s m_resetting t = Some (x, W) \<Longrightarrow> flag_message s t x W \<Longrightarrow> flag_message s' t x W"
  shows "messages_inv s'"
  using assms unfolding messages_inv_def by (cases l) (auto split: if_splits)

lemma messages_inv_same:
  assumes "messages_inv s" "mem s' = mem s"
    and "\<And>t x W. mem s m_last_pptr t = Some (x, W) \<Longrightarrow> pptr_message s t x W \<Longrightarrow> pptr_message s' t x W"
    and "\<And>t x W. mem s m_resetting t = Some (x, W) \<Longrightarrow> flag_message s t x W \<Longrightarrow> flag_message s' t x W"
  shows "messages_inv s'"
  using assms by (simp add: messages_inv_def)

definition seen :: "reset \<Rightarrow> bool" where
  "seen s \<longleftrightarrow> 2 \<le> p_pc s \<and> p_view s m_resetting \<le> c_view s m_resetting"

definition cleared :: "reset \<Rightarrow> bool" where
  "cleared s \<longleftrightarrow>
     0 < c_view s m_resetting \<and> (\<exists>W. mem s m_resetting (c_view s m_resetting) = Some (0, W))"

text \<open>
  What the consumer knows, by its position: its variables, whether its view has a store to the
  pointer, whether it has the flag, and whether it has reset the flag.
\<close>

definition consumer_at :: "nat \<Rightarrow> int \<Rightarrow> int \<Rightarrow> int \<Rightarrow> int \<Rightarrow> bool \<Rightarrow> bool \<Rightarrow> bool \<Rightarrow> bool" where
  "consumer_at pc r x g rd p f c \<longleftrightarrow>
     pc \<le> 8 \<and>
     (if pc = 0 then r = 0 \<and> g = 5 \<and> rd = 0
      else if pc = 1 then (r = 0 \<or> r = 1 \<and> p) \<and> g = 5 \<and> rd = 0
      else if pc = 2 then
        (r = 0 \<and> x = 5 \<or> (r = 0 \<or> r = 1) \<and> (x = 0 \<or> (x = 2 \<or> x = 8) \<and> f)) \<and> g = 5 \<and> rd = 0
      else if pc = 3 then r = 0 \<and> (x = 5 \<or> (x = 2 \<or> x = 8) \<and> f) \<and> g = 5 \<and> rd = 0
      else if pc = 4 then r = 1 \<and> p \<and> f \<and> g = 5 \<and> rd = 0
      else if pc = 5 then
        (r = 0 \<and> x = 5 \<or> r = 1 \<and> (x = 0 \<or> (x = 2 \<or> x = 8) \<and> f)) \<and> g = 5 \<and> rd = 0
      else if pc = 6 then r = 1 \<and> (x = 0 \<or> (x = 2 \<or> x = 8) \<and> f) \<and> rd = x
      else
        (r = 0 \<and> x = 5 \<and> rd = 0 \<or> r = 1 \<and> (x = 0 \<or> (x = 2 \<or> x = 8) \<and> f) \<and> rd = x \<and> c) \<and>
        (pc = 8 \<longrightarrow> g = x))"

definition consumer_inv :: "reset \<Rightarrow> bool" where
  "consumer_inv s \<longleftrightarrow>
     consumer_at (c_pc s) (is_resetting s) (cur_pptr s) (gptr s) (total_read s)
       (0 < c_view s m_last_pptr) (seen s) (cleared s)"

lemma consumer_at_mono:
  assumes "consumer_at pc r x g rd p f c" "f \<Longrightarrow> f'" "c \<Longrightarrow> c'"
  shows "consumer_at pc r x g rd p f' c'"
  using assms by (cases f; cases c) (auto simp: consumer_at_def split: if_splits)

definition reset_inv :: "reset \<Rightarrow> bool" where
  "reset_inv s \<longleftrightarrow> producer_inv s \<and> messages_inv s \<and> consumer_inv s"

lemma reset_inv_init: "reset_inv reset_init"
  by (auto simp: reset_inv_def producer_inv_def messages_inv_def pptr_message_def flag_message_def
      consumer_inv_def consumer_at_def reset_init_def
      init_memory_def split: loc.splits if_splits)

section \<open>Every step keeps it\<close>

lemma p_storeD:
  "p_store rel l x t s = Some s' \<Longrightarrow>
   p_view s l < t \<and> mem s l t = None \<and>
   s' = s\<lparr>mem := (mem s)(l := (mem s l)(t \<mapsto>
            (x, if rel then (p_view s)(l := t) else (\<lambda>_. 0)(l := t)))),
         p_view := (p_view s)(l := t), p_pc := p_pc s + 1\<rparr>"
  by (cases "atomic_store rel l x t (mem s) (p_view s)")
    (auto simp: p_store_def dest!: atomic_storeD)

lemma producer_stepD:
  assumes "producer_step t s = Some s'"
  shows "p_pc s = 0 \<and> p_store False m_last_pptr 0 t s = Some s' \<or>
    p_pc s = 1 \<and> p_store True m_resetting 1 t s = Some s' \<or>
    p_pc s = 2 \<and> p_store True m_last_pptr 2 t s = Some s' \<or>
    p_pc s = 3 \<and> p_store True m_last_pptr 8 t s = Some s' \<or>
    p_pc s = 4 \<and> (\<exists>x W. mem s m_last_pptr t = Some (x, W) \<and> p_view s m_last_pptr \<le> t \<and>
      s' = s\<lparr>total_written := x, p_view := (p_view s)(m_last_pptr := t), p_pc := 5\<rparr>)"
  using assms
  by (auto simp: producer_step_def split: if_splits option.splits elim!: atomic_loadE)

lemma producer_step_0:
  assumes "producer_inv s" "messages_inv s" "p_pc s = 0" "p_store False m_last_pptr 0 t s = Some s'"
  shows "producer_inv s' \<and> messages_inv s'"
proof
  note st = p_storeD[OF assms(4)]
  show "producer_inv s'"
    using assms(1,3) st by (auto simp: producer_inv_def)
  have "p_pc s' = 1"
    using assms(3) st by simp
  then show "messages_inv s'"
    using assms(1,3) st
    by (intro messages_inv_store[OF assms(2), where l = m_last_pptr and t = t])
      (auto simp: pptr_message_def flag_message_def producer_inv_def)
qed

lemma producer_step_1:
  assumes "producer_inv s" "messages_inv s" "p_pc s = 1" "p_store True m_resetting 1 t s = Some s'"
  shows "producer_inv s' \<and> messages_inv s'"
proof
  note st = p_storeD[OF assms(4)]
  show "producer_inv s'"
    using assms(1,3) st by (auto simp: producer_inv_def)
  have "p_pc s' = 2"
    using assms(3) st by simp
  then show "messages_inv s'"
    using assms(1,3) st
    by (intro messages_inv_store[OF assms(2), where l = m_resetting and t = t])
      (auto simp: pptr_message_def flag_message_def producer_inv_def)
qed

lemma producer_step_2:
  assumes "producer_inv s" "messages_inv s" "p_pc s = 2" "p_store True m_last_pptr 2 t s = Some s'"
  shows "producer_inv s' \<and> messages_inv s'"
proof
  note st = p_storeD[OF assms(4)]
  show "producer_inv s'"
    using assms(1,3) st by (auto simp: producer_inv_def)
  have "p_pc s' = 3"
    using assms(3) st by simp
  then show "messages_inv s'"
    using assms(1,3) st
    by (intro messages_inv_store[OF assms(2), where l = m_last_pptr and t = t])
      (auto simp: pptr_message_def flag_message_def producer_inv_def)
qed

lemma producer_step_3:
  assumes "producer_inv s" "messages_inv s" "p_pc s = 3" "p_store True m_last_pptr 8 t s = Some s'"
  shows "producer_inv s' \<and> messages_inv s'"
proof
  note st = p_storeD[OF assms(4)]
  show "producer_inv s'"
    using assms(1,3) st by (auto simp: producer_inv_def)
  have "p_pc s' = 4"
    using assms(3) st by simp
  then show "messages_inv s'"
    using assms(1,3) st
    by (intro messages_inv_store[OF assms(2), where l = m_last_pptr and t = t])
      (auto simp: pptr_message_def flag_message_def producer_inv_def)
qed

lemma producer_step_4:
  assumes "producer_inv s" "messages_inv s" "p_pc s = 4"
    and "mem s m_last_pptr t = Some (x, W)" "p_view s m_last_pptr \<le> t"
    and "s' = s\<lparr>total_written := x, p_view := (p_view s)(m_last_pptr := t), p_pc := 5\<rparr>"
  shows "producer_inv s' \<and> messages_inv s'"
proof
  have t: "t = p_view s m_last_pptr"
    using assms(1,4,5) by (cases "p_view s m_last_pptr < t") (auto simp: producer_inv_def)
  then show "producer_inv s'"
    using assms by (auto simp: producer_inv_def)
  show "messages_inv s'"
    using assms t by (intro messages_inv_same[OF assms(2)])
      (auto simp: pptr_message_def flag_message_def)
qed

lemma seen_mono:
  assumes "seen s" "c_view s m_resetting \<le> c_view s' m_resetting"
    and "p_pc s \<le> p_pc s'" "p_view s' m_resetting = p_view s m_resetting"
  shows "seen s'"
  using assms by (simp add: seen_def)

text \<open>A step of the producer leaves what the consumer knows.\<close>

lemma consumer_inv_frame:
  assumes "consumer_inv s" "seen s \<Longrightarrow> seen s'"
    and "c_pc s' = c_pc s" "c_view s' = c_view s" "is_resetting s' = is_resetting s"
      "cur_pptr s' = cur_pptr s" "gptr s' = gptr s" "total_read s' = total_read s"
    and "cleared s \<Longrightarrow> cleared s'"
  shows "consumer_inv s'"
  using consumer_at_mono[OF assms(1)[unfolded consumer_inv_def] assms(2,9)]
  by (simp add: consumer_inv_def assms(3-8))

lemma producer_step_inv:
  assumes i: "reset_inv s" and st: "producer_step t s = Some s'"
  shows "reset_inv s'"
proof -
  have pi: "producer_inv s" and mi: "messages_inv s" and ci: "consumer_inv s"
    using i by (simp_all add: reset_inv_def)
  have "producer_inv s' \<and> messages_inv s'"
    using producer_stepD[OF st] producer_step_0[OF pi mi] producer_step_1[OF pi mi]
      producer_step_2[OF pi mi] producer_step_3[OF pi mi] producer_step_4[OF pi mi]
    by metis
  moreover have "consumer_inv s'"
  proof (rule consumer_inv_frame[OF ci])
    show "seen s \<Longrightarrow> seen s'"
      using producer_stepD[OF st] by (auto simp: seen_def dest!: p_storeD)
    show "c_pc s' = c_pc s" "c_view s' = c_view s" "is_resetting s' = is_resetting s"
      "cur_pptr s' = cur_pptr s" "gptr s' = gptr s" "total_read s' = total_read s"
      using producer_stepD[OF st] by (auto dest!: p_storeD)
    show "cleared s \<Longrightarrow> cleared s'"
      using producer_stepD[OF st] by (auto simp: cleared_def dest!: p_storeD)
  qed
  ultimately show ?thesis by (simp add: reset_inv_def)
qed

section \<open>The steps of the consumer\<close>

lemma load_pptr:
  assumes "messages_inv s" "atomic_load acq m_last_pptr t (mem s) (c_view s) = Some (x, V)"
  shows "x = 5 \<and> c_view s m_last_pptr = 0 \<or>
    x = 0 \<or> (x = 2 \<or> x = 8) \<and> (acq \<longrightarrow> 2 \<le> p_pc s \<and> p_view s m_resetting \<le> V m_resetting)"
    and "c_view s m_resetting \<le> V m_resetting"
proof -
  obtain W where W: "mem s m_last_pptr t = Some (x, W)" "c_view s m_last_pptr \<le> t"
    and V: "V = (if acq then join_view (c_view s) W else (c_view s)(m_last_pptr := t))"
    using assms(2) by (rule atomic_loadE)
  have "pptr_message s t x W" using assms(1) W by (simp add: messages_inv_def)
  with W V show "x = 5 \<and> c_view s m_last_pptr = 0 \<or>
    x = 0 \<or> (x = 2 \<or> x = 8) \<and> (acq \<longrightarrow> 2 \<le> p_pc s \<and> p_view s m_resetting \<le> V m_resetting)"
    by (cases acq) (auto simp: pptr_message_def split: if_splits)
  show "c_view s m_resetting \<le> V m_resetting" using V by simp
qed

lemma load_flag:
  assumes "messages_inv s" "atomic_load True m_resetting t (mem s) (c_view s) = Some (x, V)"
  shows "x = 1 \<and> 2 \<le> p_pc s \<and> p_view s m_resetting \<le> V m_resetting \<and> 0 < V m_last_pptr \<or>
    x = 0 \<and> (c_pc s < 7 \<longrightarrow> c_view s m_resetting = 0)"
    and "c_view s m_resetting \<le> V m_resetting" "c_view s m_last_pptr \<le> V m_last_pptr"
proof -
  obtain W where W: "mem s m_resetting t = Some (x, W)" "c_view s m_resetting \<le> t"
    and V: "V = join_view (c_view s) W"
    using atomic_loadE[OF assms(2)] by auto
  have "flag_message s t x W" using assms(1) W by (simp add: messages_inv_def)
  with W V show "x = 1 \<and> 2 \<le> p_pc s \<and> p_view s m_resetting \<le> V m_resetting \<and> 0 < V m_last_pptr \<or>
    x = 0 \<and> (c_pc s < 7 \<longrightarrow> c_view s m_resetting = 0)"
    by (auto simp: flag_message_def)
  show "c_view s m_resetting \<le> V m_resetting" "c_view s m_last_pptr \<le> V m_last_pptr"
    using V by simp_all
qed

lemma producer_inv_frame:
  assumes "producer_inv s" "p_pc s' = p_pc s" "p_view s' = p_view s"
    "total_written s' = total_written s" "mem s' m_last_pptr = mem s m_last_pptr"
    and "\<And>m. mem s m_resetting (p_view s m_resetting) = Some m \<Longrightarrow>
      mem s' m_resetting (p_view s m_resetting) = Some m"
  shows "producer_inv s'"
  using assms(1,6) unfolding producer_inv_def assms(2-5) by (cases "p_pc s < 2") auto

lemma consumer_pc_cases:
  assumes "consumer_step t s = Some r"
  obtains "c_pc s = 0" | "c_pc s = 1" | "c_pc s = 2" | "c_pc s = 3" | "c_pc s = 4" | "c_pc s = 5"
    | "c_pc s = 6" | "c_pc s = 7"
  using assms by (auto simp: consumer_step_def split: if_splits)

lemma c_loadD:
  "c_load acq l t f s = Some r \<Longrightarrow>
   \<exists>x V. atomic_load acq l t (mem s) (c_view s) = Some (x, V) \<and> r = Inr (f x (s\<lparr>c_view := V\<rparr>))"
  by (auto simp: c_load_def split: option.splits)

text \<open>A step that does not store keeps the producer's part and the messages.\<close>

lemma consumer_no_store:
  assumes "reset_inv s" "mem s' = mem s" "p_pc s' = p_pc s" "p_view s' = p_view s"
    "total_written s' = total_written s"
    and "7 \<le> c_pc s \<Longrightarrow> 7 \<le> c_pc s' \<and> is_resetting s' = is_resetting s \<and> c_view s' = c_view s"
    and "consumer_inv s'"
  shows "reset_inv s'"
proof -
  have pi: "producer_inv s" and mi: "messages_inv s"
    using assms(1) by (simp_all add: reset_inv_def)
  have "producer_inv s'"
    using assms(2-5) by (intro producer_inv_frame[OF pi]) auto
  moreover have "messages_inv s'"
    using assms(2-6) by (intro messages_inv_same[OF mi])
      (auto simp: pptr_message_def flag_message_def)
  ultimately show ?thesis using assms(7) by (simp add: reset_inv_def)
qed

lemma consumer_store_inv:
  assumes i: "reset_inv s" and pc: "c_pc s = 6" and st: "consumer_step t s = Some (Inr s')"
  shows "reset_inv s'"
proof -
  obtain M V where a: "atomic_store False m_resetting 0 t (mem s) (c_view s) = Some (M, V)"
    and s': "s' = s\<lparr>mem := M, c_view := V, gptr := 0, c_pc := 7\<rparr>"
    using st pc by (auto simp: consumer_step_def split: option.splits)
  note M = atomic_storeD[OF a]
  have pi: "producer_inv s" and mi: "messages_inv s" and ci: "consumer_inv s"
    using i by (simp_all add: reset_inv_def)
  have r: "is_resetting s = 1"
    using ci pc by (simp add: consumer_inv_def consumer_at_def)
  have "producer_inv s'"
    using M s' by (intro producer_inv_frame[OF pi]) auto
  moreover have "messages_inv s'"
    using M s' r pc by (intro messages_inv_store[OF mi, of _ m_resetting t 0 "(\<lambda>_. 0)(m_resetting := t)"])
      (auto simp: pptr_message_def flag_message_def)
  moreover have "consumer_inv s'"
  proof -
    have "seen s \<Longrightarrow> seen s'" "cleared s'"
      using M s' by (auto simp: seen_def cleared_def)
    then show ?thesis
      using ci pc s' by (cases "seen s") (auto simp: consumer_inv_def consumer_at_def)
  qed
  ultimately show ?thesis by (simp add: reset_inv_def)
qed

lemma consumer_load_inv:
  assumes i: "reset_inv s" and pc: "c_pc s = 0 \<or> c_pc s = 1 \<or> c_pc s = 3 \<or> c_pc s = 4"
    and st: "consumer_step t s = Some (Inr s')"
  shows "reset_inv s'"
proof -
  have mi: "messages_inv s" and ci: "consumer_inv s"
    using i by (simp_all add: reset_inv_def)
  have sn: "seen s \<Longrightarrow> seen (s\<lparr>c_view := V\<rparr>)" if "c_view s m_resetting \<le> V m_resetting" for V
    using that by (simp add: seen_def)
  consider (0) "c_pc s = 0" | (1) "c_pc s = 1" | (3) "c_pc s = 3" | (4) "c_pc s = 4"
    using pc by linarith
  then have "consumer_inv s'"
  proof cases
    case 0
    then obtain x V where a: "atomic_load True m_resetting t (mem s) (c_view s) = Some (x, V)"
      and s': "s' = s\<lparr>c_view := V, is_resetting := x, c_pc := 1\<rparr>"
      using st by (auto simp: consumer_step_def dest!: c_loadD)
    show ?thesis
      using load_flag[OF mi a] ci 0 s' by (auto simp: consumer_inv_def consumer_at_def)
  next
    case 1
    then obtain x V where a: "atomic_load True m_last_pptr t (mem s) (c_view s) = Some (x, V)"
      and s': "s' = s\<lparr>c_view := V, cur_pptr := x, c_pc := 2\<rparr>"
      using st by (auto simp: consumer_step_def dest!: c_loadD)
    show ?thesis
      using load_pptr[OF mi a] ci 1 s' by (auto simp: consumer_inv_def consumer_at_def seen_def)
  next
    case 3
    then obtain x V where a: "atomic_load True m_resetting t (mem s) (c_view s) = Some (x, V)"
      and s': "s' = (if x \<noteq> 0 then s\<lparr>c_view := V, is_resetting := 1, c_pc := 4\<rparr>
                      else s\<lparr>c_view := V, c_pc := 5\<rparr>)"
      using st by (auto simp: consumer_step_def dest!: c_loadD)
    have "\<not> seen s" if "x = 0"
      using load_flag(1)[OF mi a] that 3 i by (auto simp: seen_def reset_inv_def producer_inv_def)
    then show ?thesis
      using load_flag[OF mi a] ci 3 s' by (auto simp: consumer_inv_def consumer_at_def seen_def)
  next
    case 4
    then obtain x V where a: "atomic_load False m_last_pptr t (mem s) (c_view s) = Some (x, V)"
      and s': "s' = s\<lparr>c_view := V, cur_pptr := x, c_pc := 5\<rparr>"
      using st by (auto simp: consumer_step_def dest!: c_loadD)
    show ?thesis
      using load_pptr[OF mi a] ci 4 s' by (auto simp: consumer_inv_def consumer_at_def seen_def)
  qed
  moreover have "mem s' = mem s" "p_pc s' = p_pc s" "p_view s' = p_view s"
    "total_written s' = total_written s"
    using st pc by (auto simp: consumer_step_def dest!: c_loadD)
  ultimately show ?thesis
    using pc by (intro consumer_no_store[OF i]) auto
qed

lemma consumer_step_inv:
  assumes i: "reset_inv s" and st: "consumer_step t s = Some (Inr s')"
  shows "reset_inv s'"
proof -
  have ci: "consumer_inv s"
    using i by (simp add: reset_inv_def)
  show ?thesis
  proof (cases rule: consumer_pc_cases[OF st])
    case 3
    then have s': "s' = (let r = (is_resetting s) OR (if cur_pptr s = 0 \<and> gptr s \<noteq> 0 then 1 else 0)
        in s\<lparr>is_resetting := r, c_pc := (if r = 0 then 3 else 5)\<rparr>)"
      using st by (simp add: consumer_step_def Let_def)
    moreover have "is_resetting s = 0 \<or> is_resetting s = 1" "gptr s = 5"
      using ci 3 by (auto simp: consumer_inv_def consumer_at_def)
    ultimately have s': "s' = (if is_resetting s = 0 \<and> cur_pptr s \<noteq> 0 then s\<lparr>c_pc := 3\<rparr>
        else s\<lparr>is_resetting := 1, c_pc := 5\<rparr>)"
      by (auto simp: Let_def)
    then have "consumer_inv s'"
      using ci 3 by (auto simp: consumer_inv_def consumer_at_def seen_def)
    then show ?thesis
      using s' 3 by (intro consumer_no_store[OF i]) auto
  next
    case 6
    then consider (no) "is_resetting s = 0" "s' = s\<lparr>c_pc := 7\<rparr>"
      | (yes) "is_resetting s \<noteq> 0" "s' = s\<lparr>total_read := total_read s + cur_pptr s, c_pc := 6\<rparr>"
      using st by (simp add: consumer_step_def split: if_splits)
    then show ?thesis
    proof cases
      case no
      have "consumer_inv s'"
        using ci 6 no by (simp add: consumer_inv_def consumer_at_def seen_def)
      then show ?thesis
        using 6 no by (intro consumer_no_store[OF i]) simp_all
    next
      case yes
      have "consumer_inv s'"
        using ci 6 yes by (simp add: consumer_inv_def consumer_at_def seen_def)
      then show ?thesis
        using 6 yes by (intro consumer_no_store[OF i]) simp_all
    qed
  next
    case 8
    then have s': "s' = s\<lparr>gptr := cur_pptr s, c_pc := 8\<rparr>"
      using st by (simp add: consumer_step_def)
    then have "consumer_inv s'"
      using ci 8 by (auto simp: consumer_inv_def consumer_at_def seen_def cleared_def)
    then show ?thesis
      using s' 8 by (intro consumer_no_store[OF i]) auto
  qed (use consumer_load_inv[OF i _ st] consumer_store_inv[OF i _ st] in auto)
qed

lemma consumer_step_no_fault:
  assumes "reset_inv s"
  shows "consumer_step t s \<noteq> Some (Inl e)"
  using assms
  by (auto simp: consumer_step_def reset_inv_def consumer_inv_def consumer_at_def c_load_def Let_def
      split: option.splits if_splits)

lemma reset_reachable_inv: "reset_reachable s \<Longrightarrow> reset_inv s"
  by (induction rule: reset_reachable.induct)
    (auto simp: reset_inv_init elim!: reset_step.cases dest: producer_step_inv consumer_step_inv)

text \<open>The memory of the program stays well-formed, so each thread can take its next step.\<close>

definition reset_wf :: "reset \<Rightarrow> bool" where
  "reset_wf s \<longleftrightarrow> wf_memory (mem s) \<and> wf_view (mem s) (p_view s) \<and> wf_view (mem s) (c_view s)"

lemma reset_wf_load:
  assumes "reset_wf s" "atomic_load acq l t (mem s) (c_view s) = Some (x, V)"
  shows "wf_view (mem s) V"
  using assms(1) atomic_load_wf[OF assms(2)] by (simp add: reset_wf_def)

lemma producer_step_wf:
  assumes "reset_wf s" "producer_step t s = Some s'"
  shows "reset_wf s'"
proof -
  have store: "reset_wf s'" if st: "p_store rel l x t s = Some s'" for rel l x
  proof -
    obtain M V where "atomic_store rel l x t (mem s) (p_view s) = Some (M, V)"
      "s' = s\<lparr>mem := M, p_view := V, p_pc := p_pc s + 1\<rparr>"
      using st by (auto simp: p_store_def split: option.splits)
    with assms(1) atomic_store_wf show ?thesis
      unfolding reset_wf_def by fastforce
  qed
  have load: "reset_wf s'"
    if "mem s m_last_pptr t = Some (x, W)"
      "s' = s\<lparr>total_written := x, p_view := (p_view s)(m_last_pptr := t), p_pc := 5\<rparr>" for x W
    using that assms(1) by (auto simp: reset_wf_def wf_view_def)
  show ?thesis
    using producer_stepD[OF assms(2)] store load by blast
qed

lemma consumer_step_wf:
  assumes "reset_wf s" "consumer_step t s = Some (Inr s')"
  shows "reset_wf s'"
proof -
  have w: "wf_memory (mem s)" "wf_view (mem s) (p_view s)" "wf_view (mem s) (c_view s)"
    using assms(1) by (simp_all add: reset_wf_def)
  have load: "reset_wf s'" if "c_load acq l t f s = Some (Inr s')"
    "\<And>x V. mem (f x (s\<lparr>c_view := V\<rparr>)) = mem s \<and> p_view (f x (s\<lparr>c_view := V\<rparr>)) = p_view s \<and>
      c_view (f x (s\<lparr>c_view := V\<rparr>)) = V" for acq l f
    using c_loadD[OF that(1)] that(2) w reset_wf_load[OF assms(1)] by (auto simp: reset_wf_def)
  show ?thesis
  proof (cases rule: consumer_pc_cases[OF assms(2)])
    case 7
    then obtain M V where a: "atomic_store False m_resetting 0 t (mem s) (c_view s) = Some (M, V)"
      and "s' = s\<lparr>mem := M, c_view := V, gptr := 0, c_pc := 7\<rparr>"
      using assms(2) by (auto simp: consumer_step_def split: option.splits)
    with w atomic_store_wf[OF a w(1,3)] show ?thesis
      by (simp add: reset_wf_def)
  next
    case 3
    then show ?thesis using assms(2) w by (auto simp: consumer_step_def Let_def reset_wf_def)
  next
    case 6
    then show ?thesis using assms(2) w by (auto simp: consumer_step_def reset_wf_def split: if_splits)
  next
    case 8
    then show ?thesis using assms(2) w by (auto simp: consumer_step_def reset_wf_def)
  next
    case 1
    show ?thesis using assms(2) 1 by (intro load) (auto simp: consumer_step_def)
  next
    case 2
    show ?thesis using assms(2) 2 by (intro load) (auto simp: consumer_step_def)
  next
    case 4
    show ?thesis using assms(2) 4 by (intro load) (auto simp: consumer_step_def)
  next
    case 5
    show ?thesis using assms(2) 5 by (intro load) (auto simp: consumer_step_def)
  qed
qed

lemma reset_wf_init: "reset_wf reset_init"
  by (simp add: reset_wf_def reset_init_def wf_init_memory)

lemma reset_reachable_wf: "reset_reachable s \<Longrightarrow> reset_wf s"
  by (induction rule: reset_reachable.induct)
    (auto simp: reset_wf_init elim!: reset_step.cases dest: producer_step_wf consumer_step_wf)

lemma producer_enabled:
  assumes "reset_wf s" "p_pc s < 5"
  shows "\<exists>t s'. producer_step t s = Some s'"
proof -
  have st: "\<exists>t s'. p_store rel l x t s = Some s'" for rel l x
  proof -
    obtain t M V where "atomic_store rel l x t (mem s) (p_view s) = Some (M, V)"
      using atomic_store_enabled assms(1) unfolding reset_wf_def by metis
    then show ?thesis by (auto simp: p_store_def intro!: exI[of _ t])
  qed
  obtain t x V where ld: "atomic_load False m_last_pptr t (mem s) (p_view s) = Some (x, V)"
    using atomic_load_enabled assms(1) unfolding reset_wf_def by metis
  consider "p_pc s = 0" | "p_pc s = 1" | "p_pc s = 2" | "p_pc s = 3" | (4) "p_pc s = 4"
    using assms(2) by linarith
  then show ?thesis
  proof cases
    case 4
    then show ?thesis using ld by (auto simp: producer_step_def intro!: exI[of _ t])
  qed (simp_all add: producer_step_def st)
qed

lemma consumer_enabled:
  assumes "reset_wf s" "reset_inv s" "c_pc s < 8"
  shows "\<exists>t s'. consumer_step t s = Some (Inr s')"
proof -
  have ld: "\<exists>t r. c_load acq l t f s = Some r" for acq l f
  proof -
    obtain t x V where "atomic_load acq l t (mem s) (c_view s) = Some (x, V)"
      using atomic_load_enabled assms(1) unfolding reset_wf_def by metis
    then show ?thesis by (auto simp: c_load_def intro!: exI[of _ t])
  qed
  obtain t M V where st: "atomic_store False m_resetting 0 t (mem s) (c_view s) = Some (M, V)"
    using atomic_store_enabled assms(1) unfolding reset_wf_def by metis
  consider "c_pc s = 0" | "c_pc s = 1" | "c_pc s = 2" | "c_pc s = 3" | "c_pc s = 4" | "c_pc s = 5"
    | (6) "c_pc s = 6" | "c_pc s = 7"
    using assms(3) by linarith
  then have "\<exists>t r. consumer_step t s = Some r"
  proof cases
    case 6
    then show ?thesis using st by (auto simp: consumer_step_def intro!: exI[of _ t])
  qed (simp_all add: consumer_step_def ld Let_def)
  then obtain t r where r: "consumer_step t s = Some r" by blast
  then have "\<nexists>e. r = Inl e" using consumer_step_no_fault[OF assms(2)] by auto
  with r show ?thesis by (cases r) auto
qed

section \<open>Properties\<close>

text \<open>\<^bold>\<open>C5\<close> In no execution that the memory allows does an assertion of the consumer fail.\<close>

theorem reset_assertions_hold:
  assumes "reset_reachable s"
  shows "\<not> reset_step s (Inl e)"
  using consumer_step_no_fault[OF reset_reachable_inv[OF assms]]
  by (auto elim!: reset_step.cases)

text \<open>
  A run in which the consumer sees the flag but neither of the two writes after it, clears the
  flag, and the producer writes on; and one in which the consumer finds the pointer reset before
  it has the flag and its store to the flag ends up before the store of the producer.
\<close>

definition late_write :: "reset option" where
  "late_write =
     reset_run [(True, 1), (True, 1), (False, 1), (False, 1), (True, 2), (False, 0), (False, 0),
       (False, 2), (False, 0), (True, 3), (True, 3)] reset_init"

definition overtaken_clear :: "reset option" where
  "overtaken_clear =
     reset_run [(True, 1), (False, 0), (False, 1), (False, 0), (False, 0), (False, 1), (False, 0),
       (True, 2), (True, 2), (True, 3), (True, 3)] reset_init"

lemmas reset_run_simps = producer_step_def consumer_step_def p_store_def c_load_def atomic_load_def
  atomic_store_def Let_def reset_init_def init_memory_def join_view_def

lemma late_write_ends:
  "\<exists>s. late_write = Some s \<and> reset_reachable s \<and> p_pc s = 5 \<and> c_pc s = 8 \<and> total_read s = 0 \<and>
     final_assert 3 2 s = Some True"
proof -
  obtain s where s: "late_write = Some s" "p_pc s = 5" "c_pc s = 8" "total_read s = 0"
    "final_assert 3 2 s = Some True"
    by (simp add: late_write_def reset_run_simps final_assert_def)
  then show ?thesis
    using reset_run_reachable[OF _ reset_reachable.init] unfolding late_write_def by blast
qed

lemma overtaken_clear_ends:
  "\<exists>s. overtaken_clear = Some s \<and> reset_reachable s \<and> p_pc s = 5 \<and> c_pc s = 8 \<and>
     final_assert 3 2 s = Some True"
proof -
  obtain s where s: "overtaken_clear = Some s" "p_pc s = 5" "c_pc s = 8"
    "final_assert 3 2 s = Some True"
    by (simp add: overtaken_clear_def reset_run_simps final_assert_def)
  then show ?thesis
    using reset_run_reachable[OF _ reset_reachable.init] unfolding overtaken_clear_def by blast
qed

theorem reset_assertions_hold_witness:
  "\<exists>s. reset_run [(True, 1), (True, 1), (True, 2), (False, 0), (False, 2), (False, 0), (False, 1),
        (False, 2)] reset_init = Some s \<and>
     c_pc s = 5 \<and> is_resetting s = 1 \<and> cur_pptr s = 2 \<and> \<not> reset_step s (Inl AssertFailed)"
proof -
  obtain s where s: "reset_run [(True, 1), (True, 1), (True, 2), (False, 0), (False, 2), (False, 0),
      (False, 1), (False, 2)] reset_init = Some s" "c_pc s = 5" "is_resetting s = 1" "cur_pptr s = 2"
    by (simp add: reset_run_simps)
  then show ?thesis
    using reset_assertions_hold[OF reset_run_reachable[OF s(1) reset_reachable.init]] by blast
qed

lemma final_loads:
  assumes i: "reset_inv s" and p: "p_pc s = 5"
    and "final_assert t t' s = Some b"
  shows "\<exists>r::int. b = (8 - (if r \<noteq> 0 then 0 else gptr s) = total_written s - total_read s) \<and>
    (r = 1 \<and> c_view s m_resetting \<le> p_view s m_resetting \<or>
     r = 0 \<and> 7 \<le> c_pc s \<and> is_resetting s \<noteq> 0)"
proof -
  let ?V = "join_view (p_view s) (c_view s)"
  obtain x V y W where l: "atomic_load False m_last_pptr t (mem s) ?V = Some (x, V)"
    and m: "atomic_load False m_resetting t' (mem s) ?V = Some (y, W)"
    and b: "b = (x - (if y \<noteq> 0 then 0 else gptr s) = total_written s - total_read s)"
    using assms(3) unfolding final_assert_def Let_def by (auto split: option.splits)
  obtain U where U: "mem s m_last_pptr t = Some (x, U)" "?V m_last_pptr \<le> t"
    using l by (rule atomic_loadE)
  have "t = p_view s m_last_pptr"
    using i U by (cases "p_view s m_last_pptr < t") (auto simp: reset_inv_def producer_inv_def)
  then have "x = 8"
    using i U p by (auto simp: reset_inv_def producer_inv_def)
  obtain T where T: "mem s m_resetting t' = Some (y, T)" "?V m_resetting \<le> t'"
    using m by (rule atomic_loadE)
  have "flag_message s t' y T"
    using i T(1) by (simp add: reset_inv_def messages_inv_def)
  moreover have "0 < p_view s m_resetting"
    using i p by (simp add: reset_inv_def producer_inv_def)
  ultimately have "y = 1 \<and> c_view s m_resetting \<le> p_view s m_resetting \<or>
      y = 0 \<and> 7 \<le> c_pc s \<and> is_resetting s \<noteq> 0"
    using T(2) by (auto simp: flag_message_def)
  then show ?thesis using b \<open>x = 8\<close> by blast
qed

text \<open>
  \<^bold>\<open>C13\<close> When both threads have ended, the assertion of \<^verbatim>\<open>main\<close> holds whatever its two loads
  return, and they return something: the bytes that are left in the buffer, counted from the
  reset pointer if the flag is still set, are those written and not read.
\<close>

theorem reset_final_assertion:
  assumes "reset_reachable s" "p_pc s = 5" "c_pc s = 8"
  shows "final_assert t t' s \<noteq> Some False \<and> (\<exists>t t'. final_assert t t' s = Some True)"
proof -
  have i: "reset_inv s" using assms(1) by (rule reset_reachable_inv)
  have c: "is_resetting s = 0 \<and> gptr s = 5 \<and> total_read s = 0 \<or>
      gptr s = total_read s \<and> cleared s \<and> (gptr s = 0 \<or> seen s)"
    using i assms(3) by (auto simp: reset_inv_def consumer_inv_def consumer_at_def)
  have p: "total_written s = 8" "\<exists>W. mem s m_resetting (p_view s m_resetting) = Some (1, W)"
    using i assms(2) by (auto simp: reset_inv_def producer_inv_def)
  have behind: "c_view s m_resetting \<noteq> p_view s m_resetting" if "cleared s"
    using that p(2) unfolding cleared_def by (metis Pair_inject option.inject zero_neq_one)
  have holds: "b" if "final_assert t t' s = Some b" for t t' b
    using final_loads[OF i assms(2) that] c p(1) behind by (auto simp: seen_def)
  have "wf_memory (mem s)" "wf_view (mem s) (join_view (p_view s) (c_view s))"
    using reset_reachable_wf[OF assms(1)] wf_view_join by (auto simp: reset_wf_def)
  then obtain u x V u' y W where
    "atomic_load False m_last_pptr u (mem s) (join_view (p_view s) (c_view s)) = Some (x, V)"
    "atomic_load False m_resetting u' (mem s) (join_view (p_view s) (c_view s)) = Some (y, W)"
    using atomic_load_enabled by metis
  then obtain b where "final_assert u u' s = Some b"
    by (simp add: final_assert_def)
  then show ?thesis using holds by (metis (full_types) option.inject)
qed

theorem reset_final_assertion_witness:
  "\<exists>s. late_write = Some s \<and> final_assert 3 2 s \<noteq> Some False \<and>
     (\<exists>t t'. final_assert t t' s = Some True)"
  using late_write_ends reset_final_assertion by metis



end
