(* ===== verification/HtmlParser.thy ===== *)
theory HtmlParser
  imports Decoders
begin

text \<open>
  The two character machines of the test server in \<^verbatim>\<open>tests/HtmlPipeLineServerFixture.h\<close>:
  \<^verbatim>\<open>parser\<close>, which looks for a fixed text, and \<^verbatim>\<open>header\<close>, which takes header lines apart.
\<close>

section \<open>class parser\<close>

text \<open>\<^verbatim>\<open>m_ptr\<close> is kept as an index. Looking at the end of the string is a fault.\<close>

record parser =
  m_str :: "char list"
  m_match :: bool
  m_ptr :: nat

definition parser_reset :: "parser \<Rightarrow> parser" where
  "parser_reset p = p\<lparr>m_match := False, m_ptr := 0\<rparr>"

definition parser_ctor :: "char list \<Rightarrow> parser" where
  "parser_ctor str = \<lparr>m_str = str, m_match = False, m_ptr = 0\<rparr>"

definition parser_feed :: "char \<Rightarrow> parser \<Rightarrow> fault + parser" where
  "parser_feed c p =
     (if m_ptr p \<ge> length (m_str p) then Inl OutOfBounds
      else if c \<noteq> m_str p ! m_ptr p then Inr (parser_reset p)
      else Inr (p\<lparr>m_ptr := m_ptr p + 1, m_match := (m_ptr p + 1 = length (m_str p))\<rparr>))"

section \<open>class header\<close>

datatype header_state = s_begin | s_key | s_colon | s_value | s_carriage_return | s_matched

record header =
  h_key :: "char list"
  h_value :: "char list"
  h_state :: header_state
  h_error :: bool

definition header_reset :: "header \<Rightarrow> header" where
  "header_reset h = \<lparr>h_key = [], h_value = [], h_state = s_begin, h_error = False\<rparr>"

definition header_ctor :: header where
  "header_ctor = \<lparr>h_key = [], h_value = [], h_state = s_begin, h_error = False\<rparr>"

definition newline :: char where "newline = CHR 0x0A"
definition return :: char where "return = CHR 0x0D"

text \<open>The \<^verbatim>\<open>switch\<close>; the flag says that the function returned out of it.\<close>

definition header_switch :: "char \<Rightarrow> header \<Rightarrow> bool \<times> header" where
  "header_switch c h =
     (case h_state h of
        s_key \<Rightarrow>
          if c = CHR '':'' then (False, h\<lparr>h_state := s_colon\<rparr>)
          else (False, h\<lparr>h_key := h_key h @ [c], h_state := s_key\<rparr>)
      | s_begin \<Rightarrow> (False, h\<lparr>h_key := h_key h @ [c], h_state := s_key\<rparr>)
      | s_colon \<Rightarrow>
          if c = CHR '' '' then (False, h\<lparr>h_state := s_value\<rparr>) else (False, h\<lparr>h_error := True\<rparr>)
      | s_value \<Rightarrow>
          if c = return then (False, h\<lparr>h_state := s_carriage_return\<rparr>)
          else (False, h\<lparr>h_value := h_value h @ [c]\<rparr>)
      | s_carriage_return \<Rightarrow>
          if c = newline
          then (if \<not> h_error h then (True, h\<lparr>h_state := s_matched\<rparr>) else (False, header_reset h))
          else (False, h\<lparr>h_error := True\<rparr>)
      | s_matched \<Rightarrow> (False, h))"

definition header_feed :: "char \<Rightarrow> header \<Rightarrow> header" where
  "header_feed c h =
     (let h1 = (if h_state h = s_matched then header_reset h else h) in
      case header_switch c h1 of
        (ret, h2) \<Rightarrow> if ret then h2 else if c = newline then header_reset h2 else h2)"

section \<open>Lines\<close>

text \<open>A header that is at the beginning of a line.\<close>

definition fresh :: "header \<Rightarrow> bool" where
  "fresh h \<longleftrightarrow> h_state h = s_matched \<or> h = header_ctor"

lemma newline_return [simp]: "newline \<noteq> return" "return \<noteq> newline"
  by (simp_all add: newline_def return_def)

lemma colon_char [simp]: "CHR '':'' \<noteq> newline" "CHR '' '' \<noteq> newline" "CHR '':'' \<noteq> return"
  by (simp_all add: newline_def return_def)

lemma header_reset_ctor [simp]: "header_reset h = header_ctor"
  by (simp add: header_reset_def header_ctor_def)

lemma feed_key:
  assumes "newline \<notin> set cs" "CHR '':'' \<notin> set cs" "h_state h = s_key"
  shows "fold header_feed cs h = h\<lparr>h_key := h_key h @ cs\<rparr>"
  using assms
proof (induction cs arbitrary: h)
  case (Cons c cs)
  then have "header_feed c h = h\<lparr>h_key := h_key h @ [c]\<rparr>"
    by (auto simp: header_feed_def header_switch_def)
  with Cons show ?case by simp
qed simp

lemma feed_value:
  assumes "newline \<notin> set cs" "return \<notin> set cs" "h_state h = s_value"
  shows "fold header_feed cs h = h\<lparr>h_value := h_value h @ cs\<rparr>"
  using assms
proof (induction cs arbitrary: h)
  case (Cons c cs)
  then have "header_feed c h = h\<lparr>h_value := h_value h @ [c]\<rparr>"
    by (auto simp: header_feed_def header_switch_def)
  with Cons show ?case by simp
qed simp

lemma feed_first:
  assumes "fresh h" "c \<noteq> newline"
  shows "header_feed c h = header_ctor\<lparr>h_key := [c], h_state := s_key\<rparr>"
  using assms by (auto simp: fresh_def header_feed_def header_switch_def header_ctor_def)

lemma feed_line_start:
  assumes "fresh h" "cs \<noteq> []" "newline \<notin> set cs" "CHR '':'' \<notin> set (tl cs)"
  shows "fold header_feed cs h = header_ctor\<lparr>h_key := cs, h_state := s_key\<rparr>"
proof -
  obtain d ds where cs: "cs = d # ds" using assms(2) by (cases cs) auto
  then have "d \<noteq> newline" using assms(3) by auto
  then have "header_feed d h = header_ctor\<lparr>h_key := [d], h_state := s_key\<rparr>"
    by (rule feed_first[OF assms(1)])
  then show ?thesis
    using assms(3,4) cs by (simp add: feed_key header_ctor_def)
qed

text \<open>No header is reported in the middle of a line, whatever the line is.\<close>

lemma feed_not_matched:
  assumes "c \<noteq> newline"
  shows "h_state (header_feed c h) \<noteq> s_matched"
  using assms
  by (auto simp: header_feed_def header_switch_def header_ctor_def Let_def split: header_state.splits)

lemma feed_newline: "h_state (header_feed newline h) = s_matched \<or> header_feed newline h = header_ctor"
  by (auto simp: header_feed_def header_switch_def Let_def split: header_state.splits)

lemma fresh_feed_newline: "fresh (header_feed newline h)"
  using feed_newline by (simp add: fresh_def)

text \<open>A line \<open>key: value\<close>.\<close>

definition header_line :: "char list \<Rightarrow> char list \<Rightarrow> char list" where
  "header_line key val = key @ '': '' @ val @ [return, newline]"

lemma feed_header_line:
  assumes "fresh h" "key \<noteq> []" "newline \<notin> set key" "CHR '':'' \<notin> set (tl key)"
    and "newline \<notin> set val" "return \<notin> set val"
  shows "fold header_feed (header_line key val) h =
    \<lparr>h_key = key, h_value = val, h_state = s_matched, h_error = False\<rparr>"
proof -
  have "fold header_feed key h = header_ctor\<lparr>h_key := key, h_state := s_key\<rparr>"
    by (rule feed_line_start[OF assms(1-4)])
  moreover have "fold header_feed '': '' (header_ctor\<lparr>h_key := key, h_state := s_key\<rparr>) =
      header_ctor\<lparr>h_key := key, h_state := s_value\<rparr>"
    by (simp add: header_feed_def header_switch_def header_ctor_def)
  moreover have "fold header_feed val (header_ctor\<lparr>h_key := key, h_state := s_value\<rparr>) =
      header_ctor\<lparr>h_key := key, h_value := val, h_state := s_value\<rparr>"
    using assms(5,6) by (simp add: feed_value header_ctor_def)
  moreover have "fold header_feed [return, newline] (header_ctor\<lparr>h_key := key, h_value := val, h_state := s_value\<rparr>) =
      \<lparr>h_key = key, h_value = val, h_state = s_matched, h_error = False\<rparr>"
    by (simp add: header_feed_def header_switch_def header_ctor_def)
  ultimately show ?thesis
    by (simp add: header_line_def)
qed

text \<open>A line without a colon behind its first character is dropped.\<close>

lemma feed_plain_line:
  assumes "fresh h" "newline \<notin> set cs" "CHR '':'' \<notin> set (tl cs)"
  shows "fold header_feed (cs @ [newline]) h = header_ctor"
proof (cases cs)
  case Nil
  then show ?thesis using assms(1)
    by (auto simp: fresh_def header_feed_def header_switch_def header_ctor_def Let_def)
next
  case (Cons c ds)
  then have "fold header_feed cs h = header_ctor\<lparr>h_key := cs, h_state := s_key\<rparr>"
    using assms by (intro feed_line_start) auto
  then show ?thesis
    by (simp add: header_feed_def header_switch_def header_ctor_def Let_def)
qed

text \<open>So is the rest of a line after an error.\<close>

definition bad_line :: "header \<Rightarrow> bool" where
  "bad_line h \<longleftrightarrow> h_error h \<and> h_state h \<in> {s_colon, s_value, s_carriage_return}"

lemma feed_bad:
  assumes "bad_line h" "newline \<notin> set cs"
  shows "fold header_feed (cs @ [newline]) h = header_ctor"
  using assms
proof (induction cs arbitrary: h)
  case Nil
  then show ?case
    by (cases "h_state h") (simp_all add: bad_line_def header_feed_def header_switch_def Let_def)
next
  case (Cons c cs)
  then have "c \<noteq> newline" by auto
  with Cons.prems(1) have "bad_line (header_feed c h)"
    by (cases "h_state h") (simp_all add: bad_line_def header_feed_def header_switch_def Let_def)
  with Cons show ?case by simp
qed

section \<open>What the header machine recognises\<close>

text \<open>
  The reference: the key ends before the first colon that is not the first character, a space
  must follow, and the rest of the line is the value.
\<close>

definition parse_line :: "char list \<Rightarrow> (char list \<times> char list) option" where
  "parse_line l =
     (let key = take 1 l @ takeWhile (\<lambda>c. c \<noteq> CHR '':'') (tl l);
          rest = drop (length key) l
      in if take 2 rest = '': '' then Some (key, drop 2 rest) else None)"

lemma split_line:
  obtains "CHR '':'' \<notin> set (tl l)"
  | key rest where "l = key @ CHR '':'' # rest" "key \<noteq> []" "CHR '':'' \<notin> set (tl key)"
      "take 1 l @ takeWhile (\<lambda>c. c \<noteq> CHR '':'') (tl l) = key"
proof (cases "CHR '':'' \<in> set (tl l)")
  case True
  then obtain c ds where l: "l = c # ds" by (cases l) auto
  then obtain ys zs where "ds = ys @ CHR '':'' # zs" "CHR '':'' \<notin> set ys"
    using True by (auto dest: split_list_first)
  moreover from this have "takeWhile (\<lambda>c. c \<noteq> CHR '':'') ds = ys"
    by (auto simp: takeWhile_append)
  ultimately show thesis
    using l by (intro that(2)[of "c # ys" zs]) auto
qed (use that(1) in blast)

lemma header_lines_parsed:
  assumes "fresh h" "newline \<notin> set l" "return \<notin> set l"
  shows "fold header_feed (l @ [return, newline]) h =
    (case parse_line l of
       None \<Rightarrow> header_ctor
     | Some (key, val) \<Rightarrow> \<lparr>h_key = key, h_value = val, h_state = s_matched, h_error = False\<rparr>)"
proof (cases l rule: split_line)
  case 1
  have "takeWhile (\<lambda>c. c \<noteq> CHR '':'') (tl l) = tl l"
    using 1 by (auto simp: takeWhile_eq_all_conv)
  then have "take 1 l @ takeWhile (\<lambda>c. c \<noteq> CHR '':'') (tl l) = l" by (cases l) auto
  then have "parse_line l = None"
    unfolding parse_line_def Let_def by simp
  moreover have "CHR '':'' \<notin> set (tl (l @ [return]))"
    using 1 by (cases l) auto
  ultimately show ?thesis
    using feed_plain_line[OF assms(1), of "l @ [return]"] assms(2) by simp
next
  case (2 key rest)
  have "length (take 1 l @ takeWhile (\<lambda>c. c \<noteq> CHR '':'') (tl l)) = length key"
    using 2(4) by simp
  then have parse: "parse_line l = (if take 1 rest = '' '' then Some (key, drop 1 rest) else None)"
    using 2 by (cases rest) (simp_all add: parse_line_def Let_def)
  show ?thesis
  proof (cases "take 1 rest = '' ''")
    case True
    then have "l = key @ '': '' @ drop 1 rest" using 2(1) by (cases rest) auto
    then have "fold header_feed (l @ [return, newline]) h = fold header_feed (header_line key (drop 1 rest)) h"
      by (simp add: header_line_def)
    also have "\<dots> = \<lparr>h_key = key, h_value = drop 1 rest, h_state = s_matched, h_error = False\<rparr>"
      using assms 2 by (intro feed_header_line) (auto dest: in_set_dropD)
    finally show ?thesis using parse True by simp
  next
    case False
    have start: "fold header_feed key h = header_ctor\<lparr>h_key := key, h_state := s_key\<rparr>"
      using assms 2 by (intro feed_line_start) auto
    obtain c cs where more: "rest @ [return] = c # cs" "c \<noteq> CHR '' ''" "newline \<notin> set (c # cs)"
      using False assms(2) 2(1) by (cases rest) (auto simp: return_def newline_def)
    have "bad_line (header_feed c (header_feed CHR '':'' (header_ctor\<lparr>h_key := key, h_state := s_key\<rparr>)))"
      using more by (auto simp: bad_line_def header_feed_def header_switch_def header_ctor_def Let_def)
    then have bad: "fold header_feed (c # cs @ [newline])
        (header_feed CHR '':'' (header_ctor\<lparr>h_key := key, h_state := s_key\<rparr>)) = header_ctor"
      using more(3) feed_bad by simp
    have line: "l @ [return, newline] = key @ CHR '':'' # c # cs @ [newline]"
      using 2(1) more(1) by simp
    show ?thesis
      unfolding line using bad parse False start by simp
  qed
qed

text \<open>
  \<^bold>\<open>C29\<close>. After a line that ends in a carriage return and a newline, from the beginning of a
  line, \<^verbatim>\<open>header\<close> has matched exactly if the line is a header line by \<open>parse_line\<close>, with its key
  and its value; and it is at the beginning of a line again.
\<close>

theorem header_recognises_lines:
  assumes "fresh h" "newline \<notin> set l" "return \<notin> set l"
  shows "(h_state (fold header_feed (l @ [return, newline]) h) = s_matched \<longleftrightarrow> parse_line l \<noteq> None) \<and>
    (\<forall>key val. parse_line l = Some (key, val) \<longrightarrow>
       h_key (fold header_feed (l @ [return, newline]) h) = key \<and>
       h_value (fold header_feed (l @ [return, newline]) h) = val) \<and>
    fresh (fold header_feed (l @ [return, newline]) h)"
  using header_lines_parsed[OF assms]
  by (cases "parse_line l") (auto simp: fresh_def header_ctor_def)

theorem header_recognises_lines_witness:
  "h_value (fold header_feed (''X-Sleep: 200'' @ [return, newline]) header_ctor) = ''200'' \<and>
   h_state (fold header_feed (''X-Sleep:200'' @ [return, newline]) header_ctor) \<noteq> s_matched"
proof -
  have "parse_line ''X-Sleep: 200'' = Some (''X-Sleep'', ''200'')" "parse_line ''X-Sleep:200'' = None"
    by (simp_all add: parse_line_def)
  then show ?thesis
    using header_recognises_lines[of header_ctor "''X-Sleep: 200''"]
      header_recognises_lines[of header_ctor "''X-Sleep:200''"]
    by (simp add: fresh_def newline_def return_def)
qed

end
