(* ===== verification/HtmlServer.thy ===== *)
theory HtmlServer
  imports HtmlParser
begin

text \<open>
  The test server of \<^verbatim>\<open>tests/HtmlPipeLineServerFixture.h\<close>: one \<^verbatim>\<open>tcp_connection\<close> with its queue
  of replies. Each completion that boost::asio delivers is one step; \<^verbatim>\<open>io_context::run\<close> is called
  by a single thread, so the handlers do not overlap.
\<close>

section \<open>State\<close>

text \<open>\<^verbatim>\<open>Reply\<close>; \<open>r_number\<close> is the value of \<^verbatim>\<open>m_reply\<close> it was made with and names it in the model.\<close>

record reply =
  r_number :: nat
  r_str :: "char list"
  r_sleep :: nat
  r_must_close :: bool
  r_has_request :: bool

text \<open>
  \<open>written\<close> lists the replies that were passed to \<^verbatim>\<open>async_write\<close>, and \<open>accepted\<close> those that were
  ever made; the code does not keep either.
\<close>

record connection =
  m_instance :: nat
  m_reply :: nat
  m_closed :: bool
  m_eom :: parser
  m_header :: header
  m_sleep :: nat
  m_must_close :: bool
  m_request :: nat
  m_reply_queue :: "reply list"
  written :: "reply list"
  accepted :: "reply list"

definition crlfcrlf :: "char list" where
  "crlfcrlf = [return, newline, return, newline]"

definition connection_ctor :: "nat \<Rightarrow> connection" where
  "connection_ctor inst =
     \<lparr>m_instance = inst, m_reply = 0, m_closed = False, m_eom = parser_ctor crlfcrlf,
      m_header = header_ctor, m_sleep = 0, m_must_close = False, m_request = 0,
      m_reply_queue = [], written = [], accepted = []\<rparr>"

section \<open>Replies\<close>

definition reply_body :: "nat \<Rightarrow> nat \<Rightarrow> nat \<Rightarrow> char list" where
  "reply_body number inst request =
     ''Reply '' @ show_nat number @ '' on connection '' @ show_nat inst @
     '' for request #'' @ show_nat request"

definition reply_head :: "nat \<Rightarrow> nat \<Rightarrow> nat \<Rightarrow> nat \<Rightarrow> char list" where
  "reply_head len number inst request =
     ''HTTP/1.1 200 OK'' @ crlf @ ''Keep-Alive: timeout=10 max=400'' @ crlf @
     ''Content-Length: '' @ show_nat len @ crlf @ ''Content-Type: text/html'' @ crlf @
     ''X-Connection: '' @ show_nat inst @ crlf @ ''X-Request: '' @ show_nat request @ crlf @
     ''X-Reply: '' @ show_nat number @ crlf @ crlf"

definition reply_html :: "char list \<Rightarrow> char list" where
  "reply_html body = ''<html><body>'' @ body @ ''</body></html>'' @ [newline]"

definition reply_text :: "nat \<Rightarrow> nat \<Rightarrow> nat \<Rightarrow> char list" where
  "reply_text number inst request =
     (let body = reply_body number inst request
      in reply_head (length body + 27) number inst request @ reply_html body)"

text \<open>
  \<^verbatim>\<open>process_replies\<close>: the replies that are left, those written, and whether the connection was
  closed. The code reads \<^verbatim>\<open>r.must_close()\<close> again after \<^verbatim>\<open>pop_front\<close> has destroyed the object that
  \<open>r\<close> refers to; the model takes the value it had.
\<close>

fun process_loop :: "reply list \<Rightarrow> reply list \<times> reply list \<times> bool" where
  "process_loop [] = ([], [], False)"
| "process_loop (r # rs) =
     (if r_sleep r \<noteq> 0 then (r # rs, [], False)
      else if \<not> r_has_request r \<and> r_must_close r then ([], [], True)
      else if r_must_close r then ([], [r], True)
      else (case process_loop rs of (queue, ws, closed) \<Rightarrow> (queue, r # ws, closed)))"

definition process_replies :: "connection \<Rightarrow> connection" where
  "process_replies c =
     (if m_closed c then c
      else if m_reply_queue c = [] then c
      else (case process_loop (m_reply_queue c) of
              (queue, ws, closed) \<Rightarrow>
                c\<lparr>m_reply_queue := queue, written := written c @ ws, m_closed := closed\<rparr>))"

text \<open>\<^verbatim>\<open>set_sleeping(m_sleep)\<close> is only called with a positive argument, so it never wakes up.\<close>

definition queue_reply :: "connection \<Rightarrow> fault + connection" where
  "queue_reply c =
     (let number = m_reply c + 1;
          body = reply_body number (m_instance c) (m_request c);
          buf = reply_text number (m_instance c) (m_request c);
          r = \<lparr>r_number = number, r_str = buf, r_sleep = m_sleep c,
               r_must_close = m_must_close c, r_has_request = (m_request c \<noteq> 0)\<rparr>
      in if \<not> length body < 256 \<or> \<not> length buf < 512 then Inl AssertFailed
         else Inr (process_replies
                (c\<lparr>m_reply := number, m_request := 0, m_reply_queue := m_reply_queue c @ [r],
                   accepted := accepted c @ [r]\<rparr>)))"

section \<open>Reading\<close>

definition set_field :: "char list \<Rightarrow> char list \<Rightarrow> connection \<Rightarrow> connection" where
  "set_field key val c =
     (if key = ''X-Sleep'' then c\<lparr>m_sleep := strtoul val\<rparr>
      else if key = ''X-must-close'' then c\<lparr>m_must_close := True\<rparr>
      else if key = ''X-Request'' then c\<lparr>m_request := strtoul val\<rparr>
      else c)"

text \<open>One round of the loop in \<^verbatim>\<open>handle_read\<close>.\<close>

definition handle_char :: "char \<Rightarrow> connection \<Rightarrow> fault + connection" where
  "handle_char ch c =
     (case parser_feed ch (m_eom c) of
        Inl e \<Rightarrow> Inl e
      | Inr eom \<Rightarrow>
          let h = header_feed ch (m_header c); c' = c\<lparr>m_eom := eom, m_header := h\<rparr> in
          if m_match eom then
            (case queue_reply (c'\<lparr>m_eom := parser_reset eom, m_header := header_reset h\<rparr>) of
               Inl e \<Rightarrow> Inl e
             | Inr c'' \<Rightarrow> Inr (c''\<lparr>m_sleep := 0, m_must_close := False, m_request := 0\<rparr>))
          else if h_state h = s_matched then Inr (set_field (h_key h) (h_value h) c')
          else Inr c')"

fun handle_chars :: "char list \<Rightarrow> connection \<Rightarrow> fault + connection" where
  "handle_chars [] c = Inr c"
| "handle_chars (ch # cs) c =
     (case handle_char ch c of Inl e \<Rightarrow> Inl e | Inr c' \<Rightarrow> handle_chars cs c')"

text \<open>
  The completions: data, an error of the read (and whether it is \<^verbatim>\<open>operation_aborted\<close>), and the
  timer of a reply, which is cancelled with the reply.
\<close>

datatype completion = Received "char list" | ReadFailed bool | TimedOut nat

definition timed_out :: "nat \<Rightarrow> connection \<Rightarrow> connection" where
  "timed_out number c =
     (if \<exists>r \<in> set (m_reply_queue c). r_number r = number
      then process_replies
        (c\<lparr>m_reply_queue :=
             map (\<lambda>r. if r_number r = number then r\<lparr>r_sleep := 0\<rparr> else r) (m_reply_queue c)\<rparr>)
      else c)"

fun handle_completion :: "completion \<Rightarrow> connection \<Rightarrow> fault + connection" where
  "handle_completion (Received bytes) c = handle_chars bytes c"
| "handle_completion (ReadFailed aborted) c =
     Inr (if aborted then c else c\<lparr>m_reply_queue := [], m_closed := True\<rparr>)"
| "handle_completion (TimedOut number) c = Inr (timed_out number c)"

fun run_completions :: "completion list \<Rightarrow> connection \<Rightarrow> fault + connection" where
  "run_completions [] c = Inr c"
| "run_completions (e # es) c =
     (case handle_completion e c of Inl f \<Rightarrow> Inl f | Inr c' \<Rightarrow> run_completions es c')"

section \<open>Requests\<close>

text \<open>\<^verbatim>\<open>generate_request\<close>, \<^verbatim>\<open>request_close\<close> and \<^verbatim>\<open>generate_request_with_close\<close>, line by line.\<close>

definition http_message :: "char list list \<Rightarrow> char list" where
  "http_message ls = concat (map (\<lambda>l. l @ crlf) ls) @ crlf"

definition request_lines :: "nat \<Rightarrow> nat \<Rightarrow> char list list" where
  "request_lines request sleep =
     [''GET / HTTP/1.1'', ''Host: localhost:9001'', ''Accept: */*'',
      ''X-Request: '' @ show_nat request, ''X-Sleep: '' @ show_nat sleep]"

definition generate_request :: "nat \<Rightarrow> nat \<Rightarrow> char list" where
  "generate_request request sleep = http_message (request_lines request sleep)"

definition request_close :: "nat \<Rightarrow> char list" where
  "request_close sleep =
     http_message [''GET / HTTP/1.1'', ''X-Sleep: '' @ show_nat sleep, ''X-must-close: yes'']"

definition generate_request_with_close :: "nat \<Rightarrow> nat \<Rightarrow> char list" where
  "generate_request_with_close request sleep =
     http_message (request_lines request sleep @ [''X-must-close: yes''])"

end
