(* ===== verification/HtmlServerProps.thy ===== *)
theory HtmlServerProps
  imports HtmlServer DecoderProps
begin

text \<open>
  The properties of the test server: each request gets one reply with its own numbers, replies
  leave in the order of the requests whatever their delays are, none is held back longer than
  the replies before it, and the buffers are large enough.
\<close>

section \<open>Reading a message\<close>

definition eom_at :: "nat \<Rightarrow> parser" where
  "eom_at n = \<lparr>m_str = crlfcrlf, m_match = False, m_ptr = n\<rparr>"

lemma crlf_chars: "crlf = [return, newline]"
  by (simp add: crlf_def return_def newline_def)

lemma eom_ctor: "parser_ctor crlfcrlf = eom_at 0"
  by (simp add: parser_ctor_def eom_at_def)

lemma eom_feed [simp]:
  "c \<noteq> return \<Longrightarrow> parser_feed c (eom_at 0) = Inr (eom_at 0)"
  "c \<noteq> return \<Longrightarrow> parser_feed c (eom_at 2) = Inr (eom_at 0)"
  "parser_feed return (eom_at 0) = Inr (eom_at (Suc 0))"
  "parser_feed newline (eom_at (Suc 0)) = Inr (eom_at 2)"
  "parser_feed return (eom_at 2) = Inr (eom_at 3)"
  "parser_feed newline (eom_at 3) = Inr \<lparr>m_str = crlfcrlf, m_match = True, m_ptr = 4\<rparr>"
  by (simp_all add: parser_feed_def parser_reset_def eom_at_def crlfcrlf_def)

lemma eom_at_match [simp]: "\<not> m_match (eom_at n)"
  by (simp add: eom_at_def)

lemma eom_reset: "parser_reset \<lparr>m_str = crlfcrlf, m_match = b, m_ptr = n\<rparr> = eom_at 0"
  by (simp add: parser_reset_def eom_at_def)

lemma handle_chars_append:
  "handle_chars (xs @ ys) c = (case handle_chars xs c of Inl e \<Rightarrow> Inl e | Inr c' \<Rightarrow> handle_chars ys c')"
  by (induction xs c rule: handle_chars.induct) (auto split: sum.splits)

definition good_line :: "char list \<Rightarrow> bool" where
  "good_line l \<longleftrightarrow> l \<noteq> [] \<and> newline \<notin> set l \<and> return \<notin> set l"

text \<open>What a line changes, by the reference parser of header lines.\<close>

definition apply_line :: "char list \<Rightarrow> connection \<Rightarrow> connection" where
  "apply_line l c = (case parse_line l of None \<Rightarrow> c | Some (key, val) \<Rightarrow> set_field key val c)"

lemma handle_plain_char:
  assumes "m_eom c = eom_at 0 \<or> m_eom c = eom_at 2" "ch \<noteq> return" "ch \<noteq> newline"
  shows "handle_char ch c = Inr (c\<lparr>m_eom := eom_at 0, m_header := header_feed ch (m_header c)\<rparr>)"
  using assms feed_not_matched[OF assms(3)] by (auto simp: handle_char_def Let_def)

lemma handle_plain_chars:
  assumes "m_eom c = eom_at 0 \<or> m_eom c = eom_at 2" "good_line l"
  shows "handle_chars l c = Inr (c\<lparr>m_eom := eom_at 0, m_header := fold header_feed l (m_header c)\<rparr>)"
proof -
  have rest: "handle_chars cs d = Inr (d\<lparr>m_eom := eom_at 0, m_header := fold header_feed cs (m_header d)\<rparr>)"
    if "m_eom d = eom_at 0" "newline \<notin> set cs" "return \<notin> set cs" for cs d
    using that by (induction cs arbitrary: d) (auto simp: handle_plain_char)
  obtain x xs where "l = x # xs" using assms(2) by (cases l) (auto simp: good_line_def)
  with assms show ?thesis
    by (auto simp: good_line_def handle_plain_char rest)
qed

lemma set_field_commute [simp]:
  "set_field k v (c\<lparr>m_eom := e, m_header := h\<rparr>) = (set_field k v c)\<lparr>m_eom := e, m_header := h\<rparr>"
  by (simp add: set_field_def)

lemma apply_line_commute [simp]:
  "apply_line l (c\<lparr>m_eom := e, m_header := h\<rparr>) = (apply_line l c)\<lparr>m_eom := e, m_header := h\<rparr>"
  by (simp add: apply_line_def split: option.split prod.split)

lemma header_after_line:
  assumes "fresh h" "good_line l"
  shows "fold header_feed (l @ crlf) h =
    (case parse_line l of
       None \<Rightarrow> header_ctor
     | Some (key, val) \<Rightarrow> \<lparr>h_key = key, h_value = val, h_state = s_matched, h_error = False\<rparr>)"
  using header_lines_parsed[OF assms(1), of l] assms(2) by (simp add: crlf_chars good_line_def)

lemma handle_line:
  assumes "m_eom c = eom_at 0 \<or> m_eom c = eom_at 2" "fresh (m_header c)" "good_line l"
  shows "handle_chars (l @ crlf) c =
    Inr ((apply_line l c)\<lparr>m_eom := eom_at 2, m_header := fold header_feed (l @ crlf) (m_header c)\<rparr>)"
proof -
  let ?h = "header_feed return (fold header_feed l (m_header c))"
  have "h_state ?h \<noteq> s_matched"
    by (rule feed_not_matched) simp
  then have cr: "handle_char return (c\<lparr>m_eom := eom_at 0, m_header := fold header_feed l (m_header c)\<rparr>) =
      Inr (c\<lparr>m_eom := eom_at (Suc 0), m_header := ?h\<rparr>)"
    by (simp add: handle_char_def Let_def)
  have final: "header_feed newline ?h =
      (case parse_line l of
         None \<Rightarrow> header_ctor
       | Some (key, val) \<Rightarrow> \<lparr>h_key = key, h_value = val, h_state = s_matched, h_error = False\<rparr>)"
    using header_after_line[OF assms(2,3)] by (simp add: crlf_chars)
  have "handle_char newline (c\<lparr>m_eom := eom_at (Suc 0), m_header := ?h\<rparr>) =
      Inr ((apply_line l c)\<lparr>m_eom := eom_at 2, m_header := header_feed newline ?h\<rparr>)"
    by (cases "parse_line l")
      (auto simp: handle_char_def Let_def final apply_line_def header_ctor_def)
  then show ?thesis
    using cr by (simp add: handle_chars_append handle_plain_chars[OF assms(1,3)] crlf_chars)
qed

text \<open>A connection between two messages.\<close>

definition at_message :: "connection \<Rightarrow> bool" where
  "at_message c \<longleftrightarrow> m_eom c = eom_at 0 \<and> m_header c = header_ctor"

lemma handle_lines:
  assumes "m_eom c = eom_at 0 \<or> m_eom c = eom_at 2" "fresh (m_header c)" "\<forall>l \<in> set ls. good_line l" "ls \<noteq> []"
  shows "\<exists>h. fresh h \<and>
    handle_chars (concat (map (\<lambda>l. l @ crlf) ls)) c = Inr ((fold apply_line ls c)\<lparr>m_eom := eom_at 2, m_header := h\<rparr>)"
  using assms
proof (induction ls arbitrary: c)
  case (Cons l ls)
  let ?h = "fold header_feed (l @ crlf) (m_header c)"
  let ?c = "(apply_line l c)\<lparr>m_eom := eom_at 2, m_header := ?h\<rparr>"
  have fresh: "fresh ?h"
    using fresh_feed_newline by (simp add: crlf_chars)
  have first: "handle_chars (l @ crlf) c = Inr ?c"
    using Cons.prems by (intro handle_line) auto
  have move: "fold apply_line ls (d\<lparr>m_eom := e, m_header := g\<rparr>) = (fold apply_line ls d)\<lparr>m_eom := e, m_header := g\<rparr>"
    for d e g by (induction ls arbitrary: d) auto
  show ?case
  proof (cases "ls = []")
    case True
    then show ?thesis using first fresh by auto
  next
    case False
    then obtain h where "fresh h" "handle_chars (concat (map (\<lambda>l. l @ crlf) ls)) ?c =
        Inr ((fold apply_line ls ?c)\<lparr>m_eom := eom_at 2, m_header := h\<rparr>)"
      using Cons.IH[of ?c] Cons.prems(3) fresh by auto
    then show ?thesis
      using move
      by (intro exI[of _ h])
        (simp only: list.map concat.simps handle_chars_append[of "l @ crlf"] first sum.case fold.simps
          comp_def simp_thms, simp)
  qed
qed simp

text \<open>A reply for the message with the header lines \<open>ls\<close>, and the fields cleared for the next one.\<close>

definition accept_message :: "char list list \<Rightarrow> connection \<Rightarrow> fault + connection" where
  "accept_message ls c =
     (case queue_reply (fold apply_line ls c) of
        Inl e \<Rightarrow> Inl e
      | Inr c' \<Rightarrow> Inr (c'\<lparr>m_sleep := 0, m_must_close := False, m_request := 0\<rparr>))"

lemma fold_apply_keeps:
  "m_eom (fold apply_line ls c) = m_eom c \<and> m_header (fold apply_line ls c) = m_header c"
proof (induction ls arbitrary: c)
  case (Cons l ls)
  have "m_eom (apply_line l c) = m_eom c \<and> m_header (apply_line l c) = m_header c"
    by (simp add: apply_line_def set_field_def split: option.split prod.split)
  with Cons show ?case by simp
qed simp

lemma handle_message:
  assumes "at_message c" "\<forall>l \<in> set ls. good_line l" "ls \<noteq> []"
  shows "handle_chars (http_message ls) c = accept_message ls c"
proof -
  obtain h where h: "fresh h" and lines: "handle_chars (concat (map (\<lambda>l. l @ crlf) ls)) c =
      Inr ((fold apply_line ls c)\<lparr>m_eom := eom_at 2, m_header := h\<rparr>)"
    using handle_lines[of c ls] assms by (auto simp: at_message_def fresh_def)
  let ?d = "fold apply_line ls c"
  have "h_state (header_feed return h) \<noteq> s_matched"
    by (rule feed_not_matched) simp
  then have cr: "handle_char return (?d\<lparr>m_eom := eom_at 2, m_header := h\<rparr>) =
      Inr (?d\<lparr>m_eom := eom_at 3, m_header := header_feed return h\<rparr>)"
    by (simp add: handle_char_def Let_def)
  have same: "?d\<lparr>m_eom := eom_at 0, m_header := header_ctor\<rparr> = ?d"
    using fold_apply_keeps[of ls c] assms(1) by (simp add: at_message_def)
  have lf: "handle_char newline (?d\<lparr>m_eom := eom_at 3, m_header := header_feed return h\<rparr>) =
      accept_message ls c"
    using same by (simp add: handle_char_def Let_def accept_message_def eom_reset)
  show ?thesis
    using lines cr lf
    by (simp add: http_message_def handle_chars_append crlf_chars split: sum.split)
qed

section \<open>The queue\<close>

lemma process_loop_result:
  "process_loop rs = (queue, ws, closed) \<Longrightarrow>
   (\<exists>rest. rs = ws @ rest \<and> (if closed then queue = [] else queue = rest \<and> (queue = [] \<or> r_sleep (hd queue) \<noteq> 0))) \<and>
   (closed \<longrightarrow> (\<exists>r \<in> set rs. r_must_close r))"
proof (induction rs arbitrary: queue ws closed rule: process_loop.induct)
  case (2 r rs)
  then show ?case
    by (cases "process_loop rs") (auto split: if_splits prod.splits)
qed simp

text \<open>A reply up to its delay, which the timer changes.\<close>

definition no_sleep :: "reply \<Rightarrow> reply" where
  "no_sleep r = r\<lparr>r_sleep := 0\<rparr>"

definition queue_inv :: "connection \<Rightarrow> bool" where
  "queue_inv c \<longleftrightarrow>
     map r_number (accepted c) = [1..<m_reply c + 1] \<and>
     (if m_closed c then prefix (map no_sleep (written c)) (map no_sleep (accepted c))
      else map no_sleep (written c @ m_reply_queue c) = map no_sleep (accepted c) \<and>
           (m_reply_queue c = [] \<or> r_sleep (hd (m_reply_queue c)) \<noteq> 0))"

lemma process_replies_inv:
  assumes "map r_number (accepted c) = [1..<m_reply c + 1]"
    and "if m_closed c then prefix (map no_sleep (written c)) (map no_sleep (accepted c))
      else map no_sleep (written c @ m_reply_queue c) = map no_sleep (accepted c)"
  shows "queue_inv (process_replies c)"
proof (cases "m_closed c \<or> m_reply_queue c = []")
  case True
  then show ?thesis using assms by (auto simp: process_replies_def queue_inv_def)
next
  case False
  obtain queue ws closed where l: "process_loop (m_reply_queue c) = (queue, ws, closed)"
    by (cases "process_loop (m_reply_queue c)") auto
  then obtain rest where rest: "m_reply_queue c = ws @ rest"
    "if closed then queue = [] else queue = rest \<and> (queue = [] \<or> r_sleep (hd queue) \<noteq> 0)"
    using process_loop_result[OF l] by blast
  have all: "map no_sleep (accepted c) = map no_sleep (written c) @ map no_sleep ws @ map no_sleep rest"
    using assms(2) False rest(1) by simp
  show ?thesis
    using False l rest assms(1) all
    by (cases closed) (auto simp: process_replies_def queue_inv_def prefix_def)
qed

lemma queue_reply_inv:
  assumes "queue_inv c" "queue_reply c = Inr c'"
  shows "queue_inv c'"
proof -
  let ?r = "\<lparr>r_number = m_reply c + 1, r_str = reply_text (m_reply c + 1) (m_instance c) (m_request c),
    r_sleep = m_sleep c, r_must_close = m_must_close c, r_has_request = (m_request c \<noteq> 0)\<rparr>"
  let ?d = "c\<lparr>m_reply := m_reply c + 1, m_request := 0, m_reply_queue := m_reply_queue c @ [?r],
    accepted := accepted c @ [?r]\<rparr>"
  have "c' = process_replies ?d"
    using assms(2) by (auto simp: queue_reply_def Let_def split: if_splits)
  moreover have "queue_inv (process_replies ?d)"
    using assms(1) by (intro process_replies_inv) (auto simp: queue_inv_def prefix_def)
  ultimately show ?thesis by simp
qed

lemma queue_inv_fields [simp]:
  "queue_inv (c\<lparr>m_eom := e\<rparr>) = queue_inv c" "queue_inv (c\<lparr>m_header := h\<rparr>) = queue_inv c"
  "queue_inv (c\<lparr>m_sleep := n\<rparr>) = queue_inv c" "queue_inv (c\<lparr>m_must_close := b\<rparr>) = queue_inv c"
  "queue_inv (c\<lparr>m_request := n\<rparr>) = queue_inv c" "queue_inv (set_field k v c) = queue_inv c"
  by (simp_all only: queue_inv_def set_field_def split: if_split) simp_all

lemma queue_inv_cleared [simp]:
  "queue_inv (c\<lparr>m_sleep := 0, m_must_close := False, m_request := 0\<rparr>) = queue_inv c"
  "queue_inv (c\<lparr>m_eom := e, m_header := h\<rparr>) = queue_inv c"
  by (simp_all add: queue_inv_def)

lemma handle_char_inv:
  assumes "queue_inv c" "handle_char ch c = Inr c'"
  shows "queue_inv c'"
  using assms
  by (auto simp: handle_char_def Let_def split: sum.splits if_splits dest: queue_reply_inv[rotated])

lemma handle_chars_inv: "handle_chars cs c = Inr c' \<Longrightarrow> queue_inv c \<Longrightarrow> queue_inv c'"
  by (induction cs c rule: handle_chars.induct) (auto split: sum.splits dest: handle_char_inv)

lemma timed_out_inv:
  assumes "queue_inv c"
  shows "queue_inv (timed_out number c)"
proof -
  let ?wake = "\<lambda>r. if r_number r = number then r\<lparr>r_sleep := 0\<rparr> else r"
  have "no_sleep \<circ> ?wake = no_sleep"
    by (rule ext) (simp add: no_sleep_def)
  then have same: "map no_sleep (map ?wake rs) = map no_sleep rs" for rs
    by simp
  have "queue_inv (process_replies (c\<lparr>m_reply_queue := map ?wake (m_reply_queue c)\<rparr>))"
  proof (rule process_replies_inv)
    show "map r_number (accepted (c\<lparr>m_reply_queue := map ?wake (m_reply_queue c)\<rparr>)) =
        [1..<m_reply (c\<lparr>m_reply_queue := map ?wake (m_reply_queue c)\<rparr>) + 1]"
      using assms by (simp add: queue_inv_def)
    show "if m_closed (c\<lparr>m_reply_queue := map ?wake (m_reply_queue c)\<rparr>)
      then prefix (map no_sleep (written (c\<lparr>m_reply_queue := map ?wake (m_reply_queue c)\<rparr>)))
        (map no_sleep (accepted (c\<lparr>m_reply_queue := map ?wake (m_reply_queue c)\<rparr>)))
      else map no_sleep (written (c\<lparr>m_reply_queue := map ?wake (m_reply_queue c)\<rparr>) @
          m_reply_queue (c\<lparr>m_reply_queue := map ?wake (m_reply_queue c)\<rparr>)) =
        map no_sleep (accepted (c\<lparr>m_reply_queue := map ?wake (m_reply_queue c)\<rparr>))"
      using assms by (simp add: queue_inv_def same del: map_map split: if_splits)
  qed
  then show ?thesis
    using assms by (simp add: timed_out_def)
qed

lemma completion_inv:
  assumes "queue_inv c" "handle_completion e c = Inr c'"
  shows "queue_inv c'"
proof (cases e)
  case (Received bytes)
  then show ?thesis using assms handle_chars_inv by auto
next
  case (ReadFailed aborted)
  then show ?thesis
    using assms by (auto simp: queue_inv_def prefix_def split: if_splits) (metis map_append)+
next
  case (TimedOut number)
  then show ?thesis using assms timed_out_inv by auto
qed

lemma run_inv: "run_completions es c = Inr c' \<Longrightarrow> queue_inv c \<Longrightarrow> queue_inv c'"
  by (induction es c rule: run_completions.induct) (auto split: sum.splits dest: completion_inv)

lemma queue_inv_ctor: "queue_inv (connection_ctor inst)"
  by (simp add: queue_inv_def connection_ctor_def)

text \<open>
  \<^bold>\<open>C14\<close>. Pipelining: whatever arrives and whenever the timers expire, the replies are written in
  the order in which their requests were received, numbered from 1 without a gap; on an open
  connection the first reply that is not written yet is still waiting for its timer, so no
  reply is held back by anything but its own delay and those before it.
\<close>

theorem replies_in_order:
  assumes "run_completions es (connection_ctor inst) = Inr c"
  shows "\<exists>n \<le> m_reply c. map r_number (written c) = [1..<n + 1] \<and>
    (\<not> m_closed c \<longrightarrow> map r_number (m_reply_queue c) = [n + 1..<m_reply c + 1] \<and>
       (m_reply_queue c = [] \<or> 0 < r_sleep (hd (m_reply_queue c))))"
proof -
  have i: "queue_inv c"
    using run_inv[OF assms queue_inv_ctor] .
  have "r_number \<circ> no_sleep = r_number"
    by (rule ext) (simp add: no_sleep_def)
  then have num: "map r_number (map no_sleep rs) = map r_number rs" for rs
    by simp
  let ?n = "length (written c)"
  obtain zs where zs: "map no_sleep (written c) @ zs = map no_sleep (accepted c)"
    and open_zs: "\<not> m_closed c \<Longrightarrow> zs = map no_sleep (m_reply_queue c)"
    using i by (cases "m_closed c") (auto simp: queue_inv_def prefix_def)
  have nums: "map r_number (written c) @ map r_number zs = [1..<m_reply c + 1]"
    using arg_cong[OF zs, of "map r_number"] i
    by (simp only: map_append num queue_inv_def)
  have len: "?n \<le> m_reply c"
    using arg_cong[OF nums, of length] by (simp del: upt_Suc)
  have "map r_number (written c) = take ?n [1..<m_reply c + 1]"
    using arg_cong[OF nums, of "take ?n"] by simp
  moreover have "map r_number zs = drop ?n [1..<m_reply c + 1]"
    using arg_cong[OF nums, of "drop ?n"] by simp
  ultimately have "map r_number (written c) = [1..<?n + 1]" "map r_number zs = [?n + 1..<m_reply c + 1]"
    using len by (simp_all add: take_upt drop_upt del: upt_Suc)
  then show ?thesis
    using len open_zs i by (intro exI[of _ ?n]) (auto simp: num queue_inv_def simp del: upt_Suc map_map)
qed

section \<open>The buffers\<close>

lemma u64_digits: "n < 2 ^ 64 \<Longrightarrow> length (show_nat n) \<le> 20"
  by (rule show_nat_length) (auto intro: less_le_trans)

lemma int_digits: "n < 2 ^ 31 \<Longrightarrow> length (show_nat n) \<le> 10"
  by (rule show_nat_length) (auto intro: less_le_trans)

lemma reply_lengths:
  assumes "number < 2 ^ 31" "inst < 2 ^ 31" "request < 2 ^ 64"
  shows "length (reply_body number inst request) \<le> 75" "length (reply_text number inst request) < 512"
proof -
  have d: "length (show_nat number) \<le> 10" "length (show_nat inst) \<le> 10" "length (show_nat request) \<le> 20"
    using assms by (simp_all add: u64_digits int_digits)
  show body: "length (reply_body number inst request) \<le> 75"
    using d by (simp add: reply_body_def)
  have "length (show_nat (length (reply_body number inst request) + 27)) \<le> 3"
    using body by (intro show_nat_length) auto
  then show "length (reply_text number inst request) < 512"
    using d body by (simp add: reply_text_def reply_head_def reply_html_def Let_def crlf_def)
qed

text \<open>
  \<^bold>\<open>C40\<close>. The two buffers of \<^verbatim>\<open>queue_reply\<close> hold 256 and 512 characters: the texts fit, for all
  values of the numbers, and \<^verbatim>\<open>Content-Length\<close> is the length of what follows the empty line.
\<close>

theorem reply_fits:
  assumes "number < 2 ^ 31" "inst < 2 ^ 31" "request < 2 ^ 64"
  shows "length (reply_body number inst request) < 256 \<and>
    length (reply_text number inst request) < 512 \<and>
    reply_text number inst request =
      reply_head (length (reply_html (reply_body number inst request))) number inst request @
      reply_html (reply_body number inst request)"
proof -
  have "length (reply_html (reply_body number inst request)) = length (reply_body number inst request) + 27"
    by (simp add: reply_html_def)
  then show ?thesis
    using reply_lengths[OF assms] by (simp add: reply_text_def Let_def)
qed

theorem reply_fits_witness:
  "length (reply_text (2 ^ 31 - 1) (2 ^ 31 - 1) (2 ^ 64 - 1)) < 512"
proof -
  have "(2 ^ 31 - 1 :: nat) < 2 ^ 31" "(2 ^ 64 - 1 :: nat) < 2 ^ 64" by simp_all
  then show ?thesis
    using reply_fits[of "2 ^ 31 - 1" "2 ^ 31 - 1" "2 ^ 64 - 1"] by blast
qed

text \<open>What every step keeps so that no assertion fails; \<open>n\<close> bounds the number of replies.\<close>

definition safe_inv :: "nat \<Rightarrow> connection \<Rightarrow> bool" where
  "safe_inv n c \<longleftrightarrow>
     (\<exists>i < 4. m_eom c = eom_at i) \<and> m_instance c < 2 ^ 31 \<and> m_request c < 2 ^ 64 \<and> m_reply c \<le> n"

lemma strtoul_less: "strtoul s < 2 ^ 64"
  by (simp add: strtoul_def Let_def)

lemma process_replies_keeps [simp]:
  "m_eom (process_replies c) = m_eom c" "m_instance (process_replies c) = m_instance c"
  "m_request (process_replies c) = m_request c" "m_reply (process_replies c) = m_reply c"
  "m_sleep (process_replies c) = m_sleep c" "m_must_close (process_replies c) = m_must_close c"
  "m_header (process_replies c) = m_header c" "accepted (process_replies c) = accepted c"
  by (simp_all add: process_replies_def split: prod.split)

lemma eom_feed_cases:
  assumes "i < 4"
  shows "(\<exists>j < 4. parser_feed ch (eom_at i) = Inr (eom_at j)) \<or>
    (\<exists>eom. parser_feed ch (eom_at i) = Inr eom \<and> m_match eom \<and> parser_reset eom = eom_at 0)"
proof -
  consider "i = 0" | "i = 1" | "i = 2" | "i = 3" using assms by linarith
  then show ?thesis
    by cases (auto simp: parser_feed_def parser_reset_def eom_at_def crlfcrlf_def)
qed

lemma queue_reply_safe:
  assumes "m_instance c < 2 ^ 31" "m_request c < 2 ^ 64" "m_reply c + 1 < 2 ^ 31"
  shows "\<exists>c'. queue_reply c = Inr c' \<and> m_eom c' = m_eom c \<and> m_instance c' = m_instance c \<and>
    m_reply c' = m_reply c + 1"
  using reply_lengths[of "m_reply c + 1" "m_instance c" "m_request c"] assms
  by (simp add: queue_reply_def Let_def)

lemma handle_char_safe:
  assumes "safe_inv n c" "n + 1 < 2 ^ 31"
  shows "\<exists>c'. handle_char ch c = Inr c' \<and> safe_inv (n + 1) c'"
proof -
  obtain i where i: "i < 4" "m_eom c = eom_at i"
    using assms(1) by (auto simp: safe_inv_def)
  let ?h = "header_feed ch (m_header c)"
  from eom_feed_cases[OF i(1), of ch] show ?thesis
  proof (elim disjE exE conjE)
    fix j assume j: "j < 4" "parser_feed ch (eom_at i) = Inr (eom_at j)"
    have "safe_inv (n + 1) (c\<lparr>m_eom := eom_at j, m_header := ?h\<rparr>)"
      using assms(1) j(1) by (auto simp: safe_inv_def)
    moreover from this have "safe_inv (n + 1) (set_field k v (c\<lparr>m_eom := eom_at j, m_header := ?h\<rparr>))" for k v
      using strtoul_less[of v] by (simp add: safe_inv_def set_field_def)
    ultimately show ?thesis
      using j i by (simp add: handle_char_def Let_def)
  next
    fix eom assume eom: "parser_feed ch (eom_at i) = Inr eom" "m_match eom" "parser_reset eom = eom_at 0"
    let ?d = "c\<lparr>m_eom := eom_at 0, m_header := header_ctor\<rparr>"
    obtain c' where "queue_reply ?d = Inr c'" "m_eom c' = eom_at 0" "m_instance c' = m_instance c"
      "m_reply c' = m_reply c + 1"
      using queue_reply_safe[of ?d] assms by (auto simp: safe_inv_def)
    then show ?thesis
      using eom i assms(1) by (auto simp: handle_char_def Let_def safe_inv_def intro: exI[of _ 0])
  qed
qed

lemma handle_chars_safe:
  assumes "safe_inv n c" "n + length cs < 2 ^ 31"
  shows "\<exists>c'. handle_chars cs c = Inr c' \<and> safe_inv (n + length cs) c'"
  using assms
proof (induction cs arbitrary: n c)
  case (Cons ch cs)
  obtain d where d: "handle_char ch c = Inr d" "safe_inv (n + 1) d"
    using handle_char_safe[OF Cons.prems(1)] Cons.prems(2) by auto
  then show ?case
    using Cons.IH[OF d(2)] Cons.prems(2) by auto
qed simp

fun received :: "completion list \<Rightarrow> char list" where
  "received [] = []"
| "received (Received bytes # es) = bytes @ received es"
| "received (e # es) = received es"

lemma run_safe:
  assumes "safe_inv n c" "n + length (received es) < 2 ^ 31"
  shows "\<exists>c'. run_completions es c = Inr c' \<and> safe_inv (n + length (received es)) c'"
  using assms
proof (induction es arbitrary: n c)
  case (Cons e es)
  show ?case
  proof (cases e)
    case (Received bytes)
    obtain d where d: "handle_chars bytes c = Inr d" "safe_inv (n + length bytes) d"
      using handle_chars_safe[OF Cons.prems(1), of bytes] Cons.prems(2) Received by auto
    then show ?thesis
      using Cons.IH[OF d(2)] Cons.prems(2) Received by (auto simp: add.assoc)
  next
    case (ReadFailed aborted)
    have "safe_inv n (if aborted then c else c\<lparr>m_reply_queue := [], m_closed := True\<rparr>)"
      using Cons.prems(1) by (simp add: safe_inv_def)
    from Cons.IH[OF this] show ?thesis using Cons.prems(2) ReadFailed by simp
  next
    case (TimedOut number)
    have "safe_inv n (timed_out number c)"
      using Cons.prems(1) by (simp add: safe_inv_def timed_out_def)
    from Cons.IH[OF this] show ?thesis using Cons.prems(2) TimedOut by simp
  qed
qed simp

lemma safe_inv_ctor: "inst < 2 ^ 31 \<Longrightarrow> safe_inv 0 (connection_ctor inst)"
  by (auto simp: safe_inv_def connection_ctor_def eom_ctor intro: exI[of _ 0])

text \<open>
  \<^bold>\<open>C21\<close>. Whatever a client sends, no assertion of the server fails and its parser stays inside its
  pattern, for less than \<open>2 ^ 31\<close> characters on a connection: the counter of the replies is an
  \<^verbatim>\<open>int\<close>, and each reply takes at least one character.
\<close>

theorem server_never_faults:
  assumes "inst < 2 ^ 31" "length (received es) < 2 ^ 31"
  shows "\<exists>c. run_completions es (connection_ctor inst) = Inr c \<and> m_reply c \<le> length (received es)"
  using run_safe[OF safe_inv_ctor[OF assms(1)], of es] assms(2) by (auto simp: safe_inv_def)

theorem server_never_faults_witness:
  "\<exists>c. run_completions [Received (replicate 1000 newline @ crlfcrlf), TimedOut 1] (connection_ctor 7) = Inr c \<and>
     m_reply c \<le> 1004"
  using server_never_faults[of 7 "[Received (replicate 1000 newline @ crlfcrlf), TimedOut 1]"]
  by (simp add: crlfcrlf_def)

theorem replies_in_order_witness:
  "\<exists>c. run_completions [Received (generate_request 1 500), Received (generate_request 2 0), TimedOut 1]
         (connection_ctor 1) = Inr c \<and>
     (\<exists>n \<le> m_reply c. map r_number (written c) = [1..<n + 1])"
proof -
  let ?es = "[Received (generate_request 1 500), Received (generate_request 2 0), TimedOut 1]"
  have small: "length (show_nat k) \<le> 3" if "k < 1000" for k
    using that by (intro show_nat_length) auto
  have "length (received ?es) < 2 ^ 31"
    using small[of 1] small[of 2] small[of 0] small[of 500]
    by (simp add: generate_request_def http_message_def request_lines_def crlf_def)
  then obtain c where c: "run_completions ?es (connection_ctor 1) = Inr c"
    using run_safe[OF safe_inv_ctor[of 1], of ?es] by auto
  then show ?thesis
    using replies_in_order[OF c] by blast
qed

end
