(* ===== verification/Mains.thy ===== *)
theory Mains
  imports DecoderProps
begin

text \<open>
  What the main functions of the small programs do with their devices, call by call, in the
  order of the source: \<^verbatim>\<open>src/listen_socket.cxx\<close>, \<^verbatim>\<open>src/connect.cxx\<close>, \<^verbatim>\<open>src/socket.cxx\<close>,
  \<^verbatim>\<open>src/pipe.cxx\<close>, \<^verbatim>\<open>src/unix_socket.cxx\<close>, \<^verbatim>\<open>src/tls_socket.cxx\<close>,
  \<^verbatim>\<open>src/filedescriptor.cxx\<close> and \<^verbatim>\<open>src/ofstream_data_test.cxx\<close>. What a call does is the library's part.
\<close>

section \<open>Calls\<close>

text \<open>
  Devices are numbered. \<open>LinkSource\<close> is \<^verbatim>\<open>set_source\<close> with another device and the sizes of the
  buffer between the two: its smallest block, when it counts as full, and its maximum. A string written to a stream is a call on the device it is the source of.
\<close>

datatype main_call =
    Create nat
  | SetDecoder nat
  | SetSource nat
  | InitFd nat int
  | SetDontClose nat
  | CloseOnExit nat
  | Listen nat
  | StartTimer nat
  | SleepMs nat
  | ConnectDevice nat
  | Stream nat "char list"
  | Flush nat
  | Start nat
  | OpenFile nat string
  | LinkSource nat nat nat nat nat
  | CloseDevice nat
  | JoinLoop

fun device :: "main_call \<Rightarrow> nat option" where
  "device (Create d) = Some d"
| "device (SetDecoder d) = Some d"
| "device (SetSource d) = Some d"
| "device (InitFd d fd) = Some d"
| "device (SetDontClose d) = Some d"
| "device (CloseOnExit d) = Some d"
| "device (Listen d) = Some d"
| "device (StartTimer s) = None"
| "device (SleepMs ms) = None"
| "device (ConnectDevice d) = Some d"
| "device (Stream d text) = Some d"
| "device (Flush d) = Some d"
| "device (Start d) = Some d"
| "device (OpenFile d path) = Some d"
| "device (LinkSource d source block full alloc) = Some d"
| "device (CloseDevice d) = Some d"
| "device JoinLoop = None"

section \<open>The programs\<close>

text \<open>
  \<^verbatim>\<open>listen_socket.cxx\<close>: device 0 is the listen socket, the others the hundred sockets; the
  constructor of \<^verbatim>\<open>BurstSocket\<close> sets its decoder and its source.
\<close>

definition BurstSocket_ctor :: "nat \<Rightarrow> main_call list" where
  "BurstSocket_ctor s = [Create s, SetDecoder s, SetSource s]"

definition listen_main :: "main_call list" where
  "listen_main =
     [Create 0, Listen 0, StartTimer 10, SleepMs 100] @
     concat (map BurstSocket_ctor [1..<101]) @ [SleepMs 400] @
     concat (map (\<lambda>s. [ConnectDevice s, SleepMs 4]) [1..<101]) @ [SleepMs 400] @
     map (\<lambda>s. Stream s write_burst) [1..<101] @ [SleepMs 400] @
     concat (map (\<lambda>s. [Stream s write_burst, Flush s]) [1..<101]) @ [JoinLoop]"

text \<open>
  \<^verbatim>\<open>new_connection\<close>, called by the library with the accepted socket: a hundred lines, and then
  the output is flushed.
\<close>

definition new_connection :: "nat \<Rightarrow> main_call list" where
  "new_connection s = map (\<lambda>n. Stream s burst_line) [0..<100] @ [Flush s]"

definition connect_main :: "main_call list" where
  "connect_main =
     [Create 0, Listen 0, StartTimer 10, SleepMs 100, Create 1, SetDecoder 1, ConnectDevice 1, JoinLoop]"

text \<open>\<^verbatim>\<open>socket.cxx\<close>, for any number of sockets; the constructor of \<^verbatim>\<open>MySocket\<close> sets the decoder.\<close>

definition socket_main :: "nat \<Rightarrow> main_call list" where
  "socket_main n =
     concat (map (\<lambda>i. [Create i, SetDecoder i, SetSource i]) [0..<n]) @
     map ConnectDevice [0..<n] @
     map (\<lambda>(i, text). Stream i text) (stream_requests n) @
     map Flush [0..<n] @ [JoinLoop]"

text \<open>\<^verbatim>\<open>pipe.cxx\<close>: device 0 is the write end and device 1 the read end.\<close>

definition pipe_main :: "main_call list" where
  "pipe_main = [Create 0, Create 1, SetSource 0, SetDecoder 1, Stream 0 hello_world, Flush 0, JoinLoop]"

definition unix_main :: "main_call list" where
  "unix_main =
     [Create 0, Listen 0, Create 1, SetSource 1, Stream 1 hello_world, ConnectDevice 1, Flush 1, JoinLoop]"

definition tls_main :: "main_call list" where
  "tls_main =
     [Create 0, SetSource 0, SetDecoder 0, ConnectDevice 0, Stream 0 (''GET /'' @ crlf), JoinLoop]"

text \<open>\<^verbatim>\<open>filedescriptor.cxx\<close>: standard input and output.\<close>

definition filedescriptor_main :: "main_call list" where
  "filedescriptor_main =
     [Create 0, Create 1, InitFd 0 0, SetDontClose 0, InitFd 1 1, SetDontClose 1, CloseOnExit 1,
      Start 0, Start 1, JoinLoop]"

text \<open>
  \<^verbatim>\<open>ofstream_data_test.cxx\<close>: devices 0 and 2 are files that are written, device 1 reads what is
  appended to the first one and is the source of the last one.
\<close>

definition ofstream_line :: "nat \<Rightarrow> string" where
  "ofstream_line i = ''Hello world '' @ show_nat i @ [CHR 0x0A]"

definition ofstream_main :: "nat \<Rightarrow> main_call list" where
  "ofstream_main block_overhead =
     [Create 0, SetSource 0, OpenFile 0 ''blah.txt'', Create 1, Create 2,
      LinkSource 2 1 (1024 - block_overhead) 4096 1000000,
      OpenFile 1 ''blah.txt'', OpenFile 2 ''blah2.txt'', SleepMs 1000] @
     map (\<lambda>i. Stream 0 (ofstream_line i)) [1..<201] @
     [Flush 0, SleepMs 1000, CloseDevice 1, JoinLoop]"

section \<open>What they use\<close>

definition calls_of :: "nat \<Rightarrow> main_call list \<Rightarrow> main_call list" where
  "calls_of d cs = filter (\<lambda>c. device c = Some d) cs"

fun streamed :: "main_call list \<Rightarrow> char list" where
  "streamed [] = []"
| "streamed (Stream d text # cs) = text @ streamed cs"
| "streamed (c # cs) = streamed cs"

text \<open>
  The order a device asks for: it is created first; its decoder and its source are set before it
  is connected, flushed or started; text is only written to a device with a source, and none
  after \<^verbatim>\<open>flush_output_device\<close>, which closes it once its buffer is empty.
\<close>

record device_use =
  created :: bool
  has_source :: bool
  connected :: bool
  flushed :: bool

fun use_device :: "main_call \<Rightarrow> device_use \<Rightarrow> device_use option" where
  "use_device (Create d) u = (if created u then None else Some (u\<lparr>created := True\<rparr>))"
| "use_device (SetDecoder d) u = (if created u \<and> \<not> connected u then Some u else None)"
| "use_device (SetSource d) u =
     (if created u \<and> \<not> connected u \<and> \<not> has_source u then Some (u\<lparr>has_source := True\<rparr>) else None)"
| "use_device (ConnectDevice d) u =
     (if created u \<and> \<not> connected u then Some (u\<lparr>connected := True\<rparr>) else None)"
| "use_device (Start d) u = (if created u \<and> \<not> connected u then Some (u\<lparr>connected := True\<rparr>) else None)"
| "use_device (Listen d) u = (if created u \<and> \<not> connected u then Some (u\<lparr>connected := True\<rparr>) else None)"
| "use_device (OpenFile d path) u = (if created u \<and> \<not> connected u then Some (u\<lparr>connected := True\<rparr>) else None)"
| "use_device (LinkSource d source block full alloc) u =
     (if created u \<and> \<not> connected u \<and> \<not> has_source u then Some (u\<lparr>has_source := True\<rparr>) else None)"
| "use_device (CloseDevice d) u = (if connected u then Some u else None)"
| "use_device (Stream d text) u = (if has_source u \<and> \<not> flushed u then Some u else None)"
| "use_device (Flush d) u = (if has_source u \<and> \<not> flushed u then Some (u\<lparr>flushed := True\<rparr>) else None)"
| "use_device c u = (if created u \<and> \<not> connected u then Some u else None)"

fun use_all :: "main_call list \<Rightarrow> device_use \<Rightarrow> device_use option" where
  "use_all [] u = Some u"
| "use_all (c # cs) u = (case use_device c u of None \<Rightarrow> None | Some u' \<Rightarrow> use_all cs u')"

definition unused :: device_use where
  "unused = \<lparr>created = False, has_source = False, connected = False, flushed = False\<rparr>"

definition well_used :: "nat \<Rightarrow> main_call list \<Rightarrow> bool" where
  "well_used d cs \<longleftrightarrow> use_all (calls_of d cs) unused \<noteq> None"

lemma calls_of_append [simp]: "calls_of d (xs @ ys) = calls_of d xs @ calls_of d ys"
  by (simp add: calls_of_def)

lemma calls_of_Cons [simp]:
  "calls_of d (c # cs) = (if device c = Some d then c # calls_of d cs else calls_of d cs)"
  "calls_of d [] = []"
  by (simp_all add: calls_of_def)

lemma calls_of_concat:
  "calls_of d (concat (map f is)) = concat (map (\<lambda>i. calls_of d (f i)) is)"
  by (induction "is") simp_all

text \<open>A loop over distinct devices calls each of them in its own iteration only.\<close>

lemma calls_of_loop:
  assumes "\<And>i. calls_of d (f i) = (if i = d then cs else [])" "distinct is"
  shows "calls_of d (concat (map f is)) = (if d \<in> set is then cs else [])"
  using assms(2) by (induction "is") (auto simp: assms(1))

lemma calls_of_map:
  assumes "\<And>i. device (f i) = Some i" "distinct is"
  shows "calls_of d (map f is) = (if d \<in> set is then [f d] else [])"
  using assms(2) by (induction "is") (auto simp: assms(1))

lemma streamed_append [simp]: "streamed (xs @ ys) = streamed xs @ streamed ys"
  by (induction xs rule: streamed.induct) simp_all

lemma calls_of_listen_main:
  "calls_of d listen_main =
     (if d = 0 then [Create 0, Listen 0]
      else if d \<le> 100
      then [Create d, SetDecoder d, SetSource d, ConnectDevice d, Stream d write_burst,
            Stream d write_burst, Flush d]
      else [])"
proof -
  have "calls_of d (concat (map BurstSocket_ctor [1..<101])) =
      (if d \<in> set [1..<101] then [Create d, SetDecoder d, SetSource d] else [])"
    by (rule calls_of_loop) (simp_all add: BurstSocket_ctor_def)
  moreover have "calls_of d (concat (map (\<lambda>s. [ConnectDevice s, SleepMs 4]) [1..<101])) =
      (if d \<in> set [1..<101] then [ConnectDevice d] else [])"
    by (rule calls_of_loop) simp_all
  moreover have "calls_of d (map (\<lambda>s. Stream s write_burst) [1..<101]) =
      (if d \<in> set [1..<101] then [Stream d write_burst] else [])"
    by (rule calls_of_map) simp_all
  moreover have "calls_of d (concat (map (\<lambda>s. [Stream s write_burst, Flush s]) [1..<101])) =
      (if d \<in> set [1..<101] then [Stream d write_burst, Flush d] else [])"
    by (rule calls_of_loop) simp_all
  moreover have "d \<in> set [1..<101] \<longleftrightarrow> d \<noteq> 0 \<and> d \<le> 100"
    by auto
  ultimately show ?thesis
    unfolding listen_main_def by (cases "d = 0") (simp_all del: set_upt upt_rec_numeral)
qed

lemma calls_of_requests:
  "calls_of d (map (\<lambda>(i, text). Stream i text) ps) =
     map (\<lambda>(i, text). Stream i text) (filter (\<lambda>p. fst p = d) ps)"
  by (induction ps) auto

lemma calls_of_socket_main:
  "calls_of d (socket_main n) =
     (if d < n
      then [Create d, SetDecoder d, SetSource d, ConnectDevice d] @
           map (\<lambda>r. Stream d (request_text r)) [0..<6] @ [Flush d]
      else [])"
proof -
  have "calls_of d (concat (map (\<lambda>i. [Create i, SetDecoder i, SetSource i]) [0..<n])) =
      (if d \<in> set [0..<n] then [Create d, SetDecoder d, SetSource d] else [])"
    by (rule calls_of_loop) simp_all
  moreover have "calls_of d (map ConnectDevice [0..<n]) = (if d \<in> set [0..<n] then [ConnectDevice d] else [])"
    "calls_of d (map Flush [0..<n]) = (if d \<in> set [0..<n] then [Flush d] else [])"
    by (rule calls_of_map; simp)+
  moreover have "calls_of d (map (\<lambda>(i, text). Stream i text) (stream_requests n)) =
      (if d < n then map (\<lambda>r. Stream d (request_text r)) [0..<6] else [])"
  proof (cases "d < n")
    case True
    have "map (\<lambda>(i, text). Stream i text) (filter (\<lambda>p. fst p = d) (stream_requests n)) =
        map (Stream d) (map snd (filter (\<lambda>p. fst p = d) (stream_requests n)))"
      by (auto simp: case_prod_unfold)
    then show ?thesis
      using True by (simp add: calls_of_requests stream_requests_of)
  next
    case False
    then have "filter (\<lambda>p. fst p = d) (stream_requests n) = []"
      by (auto simp: stream_requests_def filter_empty_conv)
    then show ?thesis using False by (simp add: calls_of_requests)
  qed
  ultimately show ?thesis
    by (simp add: socket_main_def)
qed

lemma streamed_new_connection: "streamed (calls_of a (new_connection a)) = new_connection_data"
proof -
  have calls: "calls_of a (replicate k (Stream a t)) = replicate k (Stream a t)" for k t
    by (induction k) simp_all
  have written: "streamed (replicate k (Stream a t)) = concat (replicate k t)" for k t
    by (induction k) simp_all
  show ?thesis
    by (simp only: new_connection_def map_replicate_const calls_of_append calls streamed_append written)
      (simp add: new_connection_data_def)
qed

section \<open>Properties\<close>

text \<open>
  Every program uses each of its devices in the order the device asks for; in
  \<^verbatim>\<open>socket.cxx\<close> for any number of sockets.
\<close>

lemma devices_well_used:
  "well_used d listen_main \<and> well_used d connect_main \<and> well_used d (socket_main n) \<and>
   well_used d pipe_main \<and> well_used d unix_main \<and> well_used d tls_main \<and>
   well_used d filedescriptor_main \<and> well_used d (ofstream_main block_overhead)"
proof (intro conjI)
  have streams: "use_all (map (\<lambda>r. Stream d (t r)) rs @ cs) u = use_all cs u"
    if "has_source u" "\<not> flushed u" for t rs cs u
    using that by (induction rs) simp_all
  show "well_used d listen_main"
    by (simp add: well_used_def calls_of_listen_main unused_def)
  show "well_used d (socket_main n)"
    by (simp add: well_used_def calls_of_socket_main unused_def streams del: upt_rec_numeral)
  show "well_used d connect_main" "well_used d pipe_main" "well_used d unix_main"
    "well_used d tls_main" "well_used d filedescriptor_main"
    by (auto simp: well_used_def unused_def connect_main_def pipe_main_def unix_main_def
        tls_main_def filedescriptor_main_def)
  have texts: "calls_of d (map (\<lambda>i. Stream 0 (t i)) ns) = (if d = 0 then map (\<lambda>i. Stream 0 (t i)) ns else [])" for d t ns
    by (induction ns) auto
  show "well_used d (ofstream_main block_overhead)"
    using streams[of _ ofstream_line "[1..<201]"]
    by (cases "d = 0") (simp_all add: well_used_def unused_def ofstream_main_def texts del: upt_rec_numeral)
qed

text \<open>
  What \<^verbatim>\<open>ofstream_data_test.cxx\<close> writes at once fits the buffer in front of the last file without
  filling it, so that the device that reads it is never stopped.
\<close>

lemma ofstream_data_fits:
  "length (streamed (calls_of 0 (ofstream_main block_overhead))) = 3092 \<and>
   (\<exists>block full alloc. LinkSource 2 1 block full alloc \<in> set (ofstream_main block_overhead) \<and> 3092 < full \<and> full < alloc)"
proof -
  have calls: "streamed (calls_of 0 (map (\<lambda>i. Stream 0 (t i)) ns)) = concat (map t ns)" for t ns
    by (induction ns) simp_all
  have "length (ofstream_line i) = 13 + (if i < 10 then 1 else if i < 100 then 2 else 3)" if "i < 1000" for i
  proof -
    have "i div 10 < 10 \<longleftrightarrow> i < 100" "i div 10 div 10 < 10" using that by linarith+
    then show ?thesis by (simp add: ofstream_line_def show_nat.simps)
  qed
  then have "length (concat (map ofstream_line [1..<201])) =
      sum_list (map (\<lambda>i. 13 + (if i < 10 then 1 else if i < 100 then 2 else 3)) [1..<201])"
    unfolding length_concat map_map comp_def
    by (intro arg_cong[where f = sum_list] map_cong) (simp_all del: upt_rec_numeral)
  also have "\<dots> = 3092" by code_simp
  finally have len: "length (concat (map ofstream_line [1..<201])) = 3092" .
  have link: "LinkSource 2 1 (1024 - block_overhead) 4096 1000000 \<in> set (ofstream_main block_overhead)"
    by (simp add: ofstream_main_def)
  show ?thesis
    by (intro conjI exI, use len in \<open>simp add: ofstream_main_def calls del: upt_rec_numeral\<close>, rule link) simp_all
qed

text \<open>
  \<^bold>\<open>C38\<close>. The programs write to each socket what the other end waits for. The two bursts of
  \<^verbatim>\<open>listen_socket.cxx\<close>, and the hundred lines of the other direction, make the decoder that gets
  them close its input at the last message and at no other one, however the bytes are cut into
  messages; the line of \<^verbatim>\<open>pipe.cxx\<close> and \<^verbatim>\<open>unix_socket.cxx\<close> is the one that closes the input; and
  every socket of \<^verbatim>\<open>socket.cxx\<close> gets all six requests, in order.
\<close>

theorem programs_end_their_input:
  assumes "1 \<le> s" "s \<le> 100" "concat ups = streamed (calls_of s listen_main)" "[] \<notin> set ups"
    and "concat downs = streamed (calls_of a (new_connection a))" "[] \<notin> set downs"
    and "i < n"
  shows "closes MyAcceptedSocketDecoder_decode 0 ups = replicate (length ups - 1) False @ [True] \<and>
    closes MyDecoder_decode 0 downs = replicate (length downs - 1) False @ [True] \<and>
    snd (hello_decode m (streamed (calls_of 0 pipe_main))) \<and>
    snd (hello_decode m (streamed (calls_of 1 unix_main))) \<and>
    streamed (calls_of i (socket_main n)) = concat (map request_text [0..<6])"
proof (intro conjI)
  have streams: "streamed (map (\<lambda>r. Stream d (t r)) rs) = concat (map t rs)" for d t rs
    by (induction rs) simp_all
  have up: "streamed (calls_of s listen_main) = write_burst @ write_burst"
    using assms(1,2) by (simp add: calls_of_listen_main)
  note down = streamed_new_connection[of a]
  have ne: "ups \<noteq> []" "downs \<noteq> []"
    using arg_cong[OF assms(3), of length] arg_cong[OF assms(5), of length] up down burst_sizes
    by auto
  have "unat (0 :: u64) + length (concat ups) = unat (22 :: u64)"
    "unat (0 :: u64) + length (concat downs) = unat (10000 :: u64)"
    using assms(3,5) up down burst_sizes by simp_all
  moreover have "\<forall>msg \<in> set ups. msg \<noteq> []" "\<forall>msg \<in> set downs. msg \<noteq> []"
    using assms(4,6) by metis+
  ultimately show "closes MyAcceptedSocketDecoder_decode 0 ups = replicate (length ups - 1) False @ [True]"
    "closes MyDecoder_decode 0 downs = replicate (length downs - 1) False @ [True]"
    using counting_closes[of 0 ups 22] counting_closes[of 0 downs 10000] ne
    by (simp_all add: MyAcceptedSocketDecoder_decode_def MyDecoder_decode_def)
  show "snd (hello_decode m (streamed (calls_of 0 pipe_main)))"
    "snd (hello_decode m (streamed (calls_of 1 unix_main)))"
    by (simp_all add: hello_decode_def pipe_main_def unix_main_def)
  show "streamed (calls_of i (socket_main n)) = concat (map request_text [0..<6])"
    using assms(7) by (simp add: calls_of_socket_main streams del: upt_rec_numeral)
qed

theorem programs_end_their_input_witness:
  "closes MyAcceptedSocketDecoder_decode 0 [''Burst'', '' data!Bu'', ''rst data!''] = [False, False, True] \<and>
   closes MyDecoder_decode 0 [new_connection_data] = [True] \<and>
   streamed (calls_of 3 (socket_main 4)) = concat (map request_text [0..<6])"
proof -
  have "concat [new_connection_data] = streamed (calls_of 0 (new_connection 0))"
    by (simp add: streamed_new_connection)
  moreover have "new_connection_data \<noteq> []"
    using burst_sizes(3) by (metis list.size(3) zero_neq_numeral)
  ultimately show ?thesis
    using programs_end_their_input[of 7 "[''Burst'', '' data!Bu'', ''rst data!'']" "[new_connection_data]" 0 3 4 0]
    by (simp add: calls_of_listen_main write_burst_def del: upt_rec_numeral)
qed

end
