(* ===== verification/HtmlClient.thy ===== *)
theory HtmlClient
  imports HtmlServerProps Mains
begin

text \<open>
  The requests of the clients against the server: what a request written by the programs and the
  fixture makes the server answer, and the whole conversation of \<^verbatim>\<open>src/socket.cxx\<close> and
  \<^verbatim>\<open>src/socket_fd.cxx\<close> with it, however the bytes are cut and the timers expire.
\<close>

section \<open>One request\<close>

lemma show_nat_chars:
  "newline \<notin> set (show_nat n)" "return \<notin> set (show_nat n)"
  using show_nat_digits[of n] by (auto simp: newline_def return_def is_digit_def)

lemma strtoul_show_nat: "n < 2 ^ 64 \<Longrightarrow> strtoul (show_nat n) = n"
  using strtoul_show[of "[]" "[]" n] by simp

lemma parse_request_lines:
  "parse_line ''GET / HTTP/1.1'' = None"
  "parse_line ''Host: localhost:9001'' = Some (''Host'', ''localhost:9001'')"
  "parse_line ''Accept: */*'' = Some (''Accept'', ''*/*'')"
  "parse_line (''X-Request: '' @ n) = Some (''X-Request'', n)"
  "parse_line (''X-Sleep: '' @ n) = Some (''X-Sleep'', n)"
  "parse_line ''X-must-close: yes'' = Some (''X-must-close'', ''yes'')"
  by (simp_all add: parse_line_def)

lemma good_request_lines:
  "\<forall>l \<in> set (request_lines request sleep). good_line l" "good_line ''X-must-close: yes''"
  "good_line (''X-Sleep: '' @ show_nat sleep)" "good_line ''GET / HTTP/1.1''"
  using show_nat_chars by (auto simp: request_lines_def good_line_def newline_def return_def)

lemma apply_request_lines:
  assumes "request < 2 ^ 64" "sleep < 2 ^ 64"
  shows "fold apply_line (request_lines request sleep) c = c\<lparr>m_sleep := sleep, m_request := request\<rparr>"
  using assms
  by (simp add: request_lines_def apply_line_def parse_request_lines set_field_def strtoul_show_nat
      del: append.simps)

lemma apply_close: "apply_line ''X-must-close: yes'' c = c\<lparr>m_must_close := True\<rparr>"
  by (simp add: apply_line_def parse_request_lines set_field_def)

text \<open>The reply that a message is answered with.\<close>

definition reply_to :: "connection \<Rightarrow> nat \<Rightarrow> nat \<Rightarrow> bool \<Rightarrow> reply" where
  "reply_to c request sleep close =
     \<lparr>r_number = m_reply c + 1, r_str = reply_text (m_reply c + 1) (m_instance c) request,
      r_sleep = sleep, r_must_close = close, r_has_request = (request \<noteq> 0)\<rparr>"

text \<open>A connection between two messages, with the fields of the last one cleared.\<close>

definition idle :: "connection \<Rightarrow> bool" where
  "idle c \<longleftrightarrow> at_message c \<and> m_sleep c = 0 \<and> \<not> m_must_close c \<and> m_request c = 0 \<and>
     m_instance c < 2 ^ 31 \<and> m_reply c + 1 < 2 ^ 31"

lemma accept_message_result:
  assumes "idle c" "\<forall>l \<in> set ls. good_line l" "ls \<noteq> []" "request < 2 ^ 64"
    and "fold apply_line ls c = c\<lparr>m_sleep := sleep, m_must_close := close, m_request := request\<rparr>"
  shows "\<exists>c'. handle_chars (http_message ls) c = Inr c' \<and> at_message c' \<and> m_sleep c' = 0 \<and>
    \<not> m_must_close c' \<and> m_request c' = 0 \<and> m_instance c' = m_instance c \<and>
    m_reply c' = m_reply c + 1 \<and> accepted c' = accepted c @ [reply_to c request sleep close]"
proof -
  let ?d = "c\<lparr>m_sleep := sleep, m_must_close := close, m_request := request\<rparr>"
  have "length (reply_body (m_reply c + 1) (m_instance c) request) < 256"
    "length (reply_text (m_reply c + 1) (m_instance c) request) < 512"
    using reply_lengths[of "m_reply c + 1" "m_instance c" request] assms(1,4) by (auto simp: idle_def)
  then show ?thesis
    using handle_message[of c ls] assms
    by (auto simp: idle_def at_message_def accept_message_def queue_reply_def Let_def reply_to_def)
qed


lemma idle_ctor: "inst < 2 ^ 31 \<Longrightarrow> idle (connection_ctor inst)"
  by (simp add: idle_def at_message_def connection_ctor_def eom_ctor)


section \<open>Reading and replying are independent\<close>

text \<open>The part of a connection that reads: all but the queue and what became of it.\<close>

definition reader :: "connection \<Rightarrow> connection" where
  "reader c = c\<lparr>m_reply_queue := [], written := [], m_closed := False\<rparr>"

lemma reader_eqI:
  assumes "reader c = reader d"
  shows "m_eom c = m_eom d \<and> m_header c = m_header d \<and> m_sleep c = m_sleep d \<and>
    m_must_close c = m_must_close d \<and> m_request c = m_request d \<and> m_instance c = m_instance d \<and>
    m_reply c = m_reply d \<and> accepted c = accepted d"
  using assms by (cases c; cases d) (simp add: reader_def)

lemma reader_process [simp]: "reader (process_replies c) = reader c"
  by (simp add: process_replies_def reader_def split: prod.split)

lemma reader_updates:
  "reader (c\<lparr>m_eom := e, m_header := h\<rparr>) = (reader c)\<lparr>m_eom := e, m_header := h\<rparr>"
  "reader (c\<lparr>m_sleep := n, m_must_close := b, m_request := r\<rparr>) =
     (reader c)\<lparr>m_sleep := n, m_must_close := b, m_request := r\<rparr>"
  "reader (set_field k v c) = set_field k v (reader c)"
  "reader (c\<lparr>m_reply := i, m_request := r, m_reply_queue := q, accepted := a\<rparr>) =
     (reader c)\<lparr>m_reply := i, m_request := r, accepted := a\<rparr>"
  by (simp_all add: reader_def set_field_def)

lemma queue_reply_reader:
  assumes "reader c = reader d" "queue_reply c = Inr c'"
  shows "\<exists>d'. queue_reply d = Inr d' \<and> reader d' = reader c'"
  using assms reader_eqI[OF assms(1)]
  by (auto simp: queue_reply_def Let_def reader_updates split: if_splits)

lemma handle_char_reader:
  assumes "reader c = reader d" "handle_char ch c = Inr c'"
  shows "\<exists>d'. handle_char ch d = Inr d' \<and> reader d' = reader c'"
proof -
  note same = reader_eqI[OF assms(1)]
  obtain eom where eom: "parser_feed ch (m_eom c) = Inr eom"
    using assms(2) by (auto simp: handle_char_def split: sum.splits)
  let ?h = "header_feed ch (m_header c)"
  show ?thesis
  proof (cases "m_match eom")
    case True
    let ?c = "c\<lparr>m_eom := parser_reset eom, m_header := header_ctor\<rparr>"
    let ?d = "d\<lparr>m_eom := parser_reset eom, m_header := header_ctor\<rparr>"
    obtain x where x: "queue_reply ?c = Inr x" "c' = x\<lparr>m_sleep := 0, m_must_close := False, m_request := 0\<rparr>"
      using assms(2) eom True by (auto simp: handle_char_def Let_def split: sum.splits)
    moreover obtain y where "queue_reply ?d = Inr y" "reader y = reader x"
      using queue_reply_reader[of ?c ?d x] x assms(1) by (auto simp: reader_updates)
    ultimately show ?thesis
      using eom True same by (auto simp: handle_char_def Let_def reader_updates)
  next
    case False
    then show ?thesis
      using assms eom same by (auto simp: handle_char_def Let_def reader_updates split: if_splits)
  qed
qed

lemma handle_chars_reader:
  "reader c = reader d \<Longrightarrow> handle_chars cs c = Inr c' \<Longrightarrow>
   \<exists>d'. handle_chars cs d = Inr d' \<and> reader d' = reader c'"
proof (induction cs arbitrary: c d)
  case (Cons ch cs)
  then show ?case
    using handle_char_reader[of c d ch] by (fastforce split: sum.splits)
qed simp

lemma timed_out_reader [simp]: "reader (timed_out number c) = reader c"
  by (simp add: timed_out_def) (simp add: reader_def)

text \<open>A run reads the concatenation of what it received.\<close>

definition only_data :: "completion list \<Rightarrow> bool" where
  "only_data es \<longleftrightarrow> (\<forall>e \<in> set es. \<forall>aborted. e \<noteq> ReadFailed aborted)"

lemma run_reader:
  assumes "only_data es" "handle_chars (received es) d = Inr d'" "reader c = reader d"
  shows "\<exists>c'. run_completions es c = Inr c' \<and> reader c' = reader d'"
  using assms
proof (induction es arbitrary: c d)
  case (Cons e es)
  have only: "only_data es" using Cons.prems(1) by (simp add: only_data_def)
  show ?case
  proof (cases e)
    case (Received bytes)
    then obtain m where m: "handle_chars bytes d = Inr m" "handle_chars (received es) m = Inr d'"
      using Cons.prems(2) by (auto simp: handle_chars_append split: sum.splits)
    obtain x where "handle_chars bytes c = Inr x" "reader x = reader m"
      using handle_chars_reader[OF Cons.prems(3)[symmetric] m(1)] by blast
    then show ?thesis using Cons.IH[OF only m(2)] Received by auto
  next
    case (TimedOut number)
    then show ?thesis using Cons.IH[OF only, of d "timed_out number c"] Cons.prems(2,3) by simp
  qed (use Cons.prems(1) in \<open>auto simp: only_data_def\<close>)
qed simp

section \<open>Closing\<close>

text \<open>A connection is only closed by a reply that says so, or by an error.\<close>

definition closed_inv :: "connection \<Rightarrow> bool" where
  "closed_inv c \<longleftrightarrow> queue_inv c \<and> (m_closed c \<longrightarrow> (\<exists>r \<in> set (accepted c). r_must_close r))"

lemma process_replies_closes:
  assumes "m_closed (process_replies c)" "\<not> m_closed c"
  shows "\<exists>r \<in> set (m_reply_queue c). r_must_close r"
  using assms process_loop_result
  by (fastforce simp: process_replies_def split: if_splits prod.splits)

lemma must_close_no_sleep:
  "(\<exists>r \<in> set rs. r_must_close r) \<longleftrightarrow> (\<exists>r \<in> set (map no_sleep rs). r_must_close r)"
  by (simp add: no_sleep_def)

lemma queue_must_close:
  assumes "queue_inv c" "\<not> m_closed c" "\<exists>r \<in> set (m_reply_queue c). r_must_close r"
  shows "\<exists>r \<in> set (accepted c). r_must_close r"
proof -
  have "map no_sleep (accepted c) = map no_sleep (written c) @ map no_sleep (m_reply_queue c)"
    using assms(1,2) by (simp add: queue_inv_def)
  then show ?thesis
    using assms(3) must_close_no_sleep[of "accepted c"] must_close_no_sleep[of "m_reply_queue c"]
    by auto
qed

lemma queue_reply_closed:
  assumes "closed_inv c" "queue_reply c = Inr c'"
  shows "closed_inv c'"
proof -
  let ?r = "\<lparr>r_number = m_reply c + 1, r_str = reply_text (m_reply c + 1) (m_instance c) (m_request c),
    r_sleep = m_sleep c, r_must_close = m_must_close c, r_has_request = (m_request c \<noteq> 0)\<rparr>"
  let ?d = "c\<lparr>m_reply := m_reply c + 1, m_request := 0, m_reply_queue := m_reply_queue c @ [?r],
    accepted := accepted c @ [?r]\<rparr>"
  have c': "c' = process_replies ?d"
    using assms(2) by (auto simp: queue_reply_def Let_def split: if_splits)
  have inv: "queue_inv c'"
    using queue_reply_inv assms by (auto simp: closed_inv_def)
  have "\<exists>r \<in> set (accepted c'). r_must_close r" if "m_closed c'"
  proof (cases "m_closed c")
    case True
    then show ?thesis using assms(1) c' by (auto simp: closed_inv_def)
  next
    case False
    then have "\<exists>r \<in> set (m_reply_queue c @ [?r]). r_must_close r"
      using process_replies_closes[of ?d] that c' by simp
    then show ?thesis
      using queue_must_close[of c] assms(1) False c' by (auto simp: closed_inv_def)
  qed
  with inv show ?thesis by (simp add: closed_inv_def)
qed

lemma closed_inv_frame:
  assumes "closed_inv c" "queue_inv d" "m_closed d = m_closed c" "accepted d = accepted c"
  shows "closed_inv d"
  using assms by (simp add: closed_inv_def)

lemma handle_char_closed:
  assumes "closed_inv c" "handle_char ch c = Inr c'"
  shows "closed_inv c'"
proof -
  have q: "queue_inv c'"
    using assms handle_char_inv by (auto simp: closed_inv_def)
  obtain eom where eom: "parser_feed ch (m_eom c) = Inr eom"
    using assms(2) by (auto simp: handle_char_def split: sum.splits)
  show ?thesis
  proof (cases "m_match eom")
    case True
    let ?c = "c\<lparr>m_eom := parser_reset eom, m_header := header_ctor\<rparr>"
    obtain x where x: "queue_reply ?c = Inr x" "c' = x\<lparr>m_sleep := 0, m_must_close := False, m_request := 0\<rparr>"
      using assms(2) eom True by (auto simp: handle_char_def Let_def split: sum.splits)
    have "closed_inv ?c"
      using assms(1) by (simp add: closed_inv_def)
    then have "closed_inv x"
      using queue_reply_closed x(1) by blast
    then show ?thesis
      by (rule closed_inv_frame[OF _ q]) (simp_all add: x(2))
  next
    case False
    then have "m_closed c' = m_closed c" "accepted c' = accepted c"
      using assms(2) eom by (auto simp: handle_char_def Let_def set_field_def split: if_splits)
    then show ?thesis
      using closed_inv_frame[OF assms(1) q] by simp
  qed
qed

lemma handle_chars_closed: "handle_chars cs c = Inr c' \<Longrightarrow> closed_inv c \<Longrightarrow> closed_inv c'"
  by (induction cs c rule: handle_chars.induct) (auto split: sum.splits dest: handle_char_closed)

lemma timed_out_closed:
  assumes "closed_inv c"
  shows "closed_inv (timed_out number c)"
proof -
  let ?wake = "\<lambda>r. if r_number r = number then r\<lparr>r_sleep := 0\<rparr> else r"
  let ?d = "c\<lparr>m_reply_queue := map ?wake (m_reply_queue c)\<rparr>"
  have q: "queue_inv (timed_out number c)"
    using assms timed_out_inv by (simp add: closed_inv_def)
  have "\<exists>r \<in> set (accepted c). r_must_close r" if "m_closed (timed_out number c)" "\<not> m_closed c"
  proof -
    have "m_closed (process_replies ?d)"
      using that by (auto simp: timed_out_def split: if_splits)
    then have "\<exists>r \<in> set (map ?wake (m_reply_queue c)). r_must_close r"
      using process_replies_closes[of ?d] that(2) by simp
    then have "\<exists>r \<in> set (m_reply_queue c). r_must_close r"
      by (auto split: if_splits)
    then show ?thesis
      using queue_must_close assms that(2) by (simp add: closed_inv_def)
  qed
  moreover have "accepted (timed_out number c) = accepted c"
    by (simp add: timed_out_def)
  ultimately show ?thesis
    using q assms by (auto simp: closed_inv_def)
qed

lemma run_closed:
  "run_completions es c = Inr c' \<Longrightarrow> only_data es \<Longrightarrow> closed_inv c \<Longrightarrow> closed_inv c'"
proof (induction es arbitrary: c)
  case (Cons e es)
  obtain d where d: "handle_completion e c = Inr d" "run_completions es d = Inr c'"
    using Cons.prems(1) by (auto split: sum.splits)
  have "closed_inv d"
    using Cons.prems(2,3) d(1)
    by (cases e) (auto simp: only_data_def handle_chars_closed timed_out_closed)
  then show ?case
    using Cons.IH[OF d(2)] Cons.prems(2) by (simp add: only_data_def)
qed simp

lemma closed_inv_ctor: "closed_inv (connection_ctor inst)"
  using queue_inv_ctor by (simp add: closed_inv_def connection_ctor_def)

section \<open>Timers\<close>

text \<open>When the timers of all waiting replies have expired, nothing is left in the queue.\<close>

definition woken :: "nat set \<Rightarrow> connection \<Rightarrow> bool" where
  "woken S c \<longleftrightarrow> (\<forall>r \<in> set (m_reply_queue c). r_number r \<in> S \<longrightarrow> r_sleep r = 0)"

lemma process_replies_queue: "set (m_reply_queue (process_replies c)) \<subseteq> set (m_reply_queue c)"
proof -
  obtain queue ws closed where l: "process_loop (m_reply_queue c) = (queue, ws, closed)"
    by (cases "process_loop (m_reply_queue c)") auto
  then have "set queue \<subseteq> set (m_reply_queue c)"
    using process_loop_result[OF l] by (auto split: if_splits)
  then show ?thesis
    using l by (simp add: process_replies_def)
qed

lemma woken_timed_out:
  assumes "woken S c"
  shows "woken (insert number S) (timed_out number c)"
proof -
  let ?wake = "\<lambda>r. if r_number r = number then r\<lparr>r_sleep := 0\<rparr> else r"
  have "woken (insert number S) (c\<lparr>m_reply_queue := map ?wake (m_reply_queue c)\<rparr>)"
    using assms by (auto simp: woken_def)
  then have "woken (insert number S) (process_replies (c\<lparr>m_reply_queue := map ?wake (m_reply_queue c)\<rparr>))"
    using process_replies_queue[of "c\<lparr>m_reply_queue := map ?wake (m_reply_queue c)\<rparr>"]
    unfolding woken_def by blast
  then show ?thesis
    using assms by (auto simp: timed_out_def woken_def)
qed

lemma run_timers:
  assumes "closed_inv c" "woken S c"
  shows "\<exists>c'. run_completions (map TimedOut ns) c = Inr c' \<and> closed_inv c' \<and>
    woken (S \<union> set ns) c' \<and> accepted c' = accepted c"
  using assms
proof (induction ns arbitrary: c S)
  case (Cons number ns)
  have "accepted (timed_out number c) = accepted c"
    by (simp add: timed_out_def)
  then show ?case
    using Cons.IH[OF timed_out_closed[OF Cons.prems(1), of number] woken_timed_out[OF Cons.prems(2), of number]]
    by simp
qed simp

lemma all_written:
  assumes "closed_inv c" "\<forall>r \<in> set (accepted c). \<not> r_must_close r" "woken S c"
    and "r_number ` set (accepted c) \<subseteq> S"
  shows "\<not> m_closed c \<and> m_reply_queue c = [] \<and> map no_sleep (written c) = map no_sleep (accepted c)"
proof -
  have o: "\<not> m_closed c"
    using assms(1,2) by (auto simp: closed_inv_def)
  then have all: "map no_sleep (written c @ m_reply_queue c) = map no_sleep (accepted c)"
    and hd: "m_reply_queue c = [] \<or> r_sleep (hd (m_reply_queue c)) \<noteq> 0"
    using assms(1) by (auto simp: closed_inv_def queue_inv_def)
  have "r_number \<circ> no_sleep = r_number"
    by (rule ext) (simp add: no_sleep_def)
  then have "map r_number (written c @ m_reply_queue c) = map r_number (accepted c)"
    using arg_cong[OF all, of "map r_number"] by simp
  then have "r_number ` set (m_reply_queue c) \<subseteq> S"
    using assms(4) by (metis Un_subset_iff image_Un list.set_map set_append)
  then have "\<forall>r \<in> set (m_reply_queue c). r_sleep r = 0"
    using assms(3) by (auto simp: woken_def)
  then have "m_reply_queue c = []"
    using hd by (cases "m_reply_queue c") auto
  with o all show ?thesis by simp
qed

section \<open>The whole conversation\<close>

lemma request_text_generated: "request_text k = generate_request k (200 * k)"
  by (simp add: request_text_def generate_request_def http_message_def request_lines_def)

text \<open>What six requests leave the server with.\<close>

lemma requests_read:
  assumes "inst < 2 ^ 31" "k < 1000"
  shows "\<exists>c. handle_chars (concat (map request_text [0..<k])) (connection_ctor inst) = Inr c \<and> idle c \<and>
    m_instance c = inst \<and> m_reply c = k \<and>
    map r_str (accepted c) = map (\<lambda>j. reply_text (j + 1) inst j) [0..<k] \<and>
    map r_number (accepted c) = [1..<k + 1] \<and> (\<forall>r \<in> set (accepted c). \<not> r_must_close r)"
  using assms(2)
proof (induction k)
  case 0
  show ?case
    using idle_ctor[OF assms(1)] by (simp add: connection_ctor_def)
next
  case (Suc k)
  then obtain c where c: "handle_chars (concat (map request_text [0..<k])) (connection_ctor inst) = Inr c"
    "idle c" "m_instance c = inst" "m_reply c = k"
    "map r_str (accepted c) = map (\<lambda>j. reply_text (j + 1) inst j) [0..<k]"
    "map r_number (accepted c) = [1..<k + 1]" "\<forall>r \<in> set (accepted c). \<not> r_must_close r"
    by auto
  have "fold apply_line (request_lines k (200 * k)) c =
      c\<lparr>m_sleep := 200 * k, m_must_close := False, m_request := k\<rparr>"
    using apply_request_lines[of k "200 * k" c] Suc.prems c(2) by (simp add: idle_def connection.equality)
  then obtain d where "handle_chars (request_text k) c = Inr d" "at_message d" "m_sleep d = 0"
    "\<not> m_must_close d" "m_request d = 0" "m_instance d = inst" "m_reply d = k + 1"
    "accepted d = accepted c @ [reply_to c k (200 * k) False]"
    using accept_message_result[OF c(2) good_request_lines(1)[of k "200 * k"], where request = k
          and sleep = "200 * k" and close = False] c Suc.prems
    by (auto simp: request_text_generated generate_request_def request_lines_def)
  then show ?case
    using c assms(1) Suc.prems
    by (auto simp: handle_chars_append idle_def reply_to_def)
qed

lemma socket_stream: "i < n \<Longrightarrow> streamed (calls_of i (socket_main n)) = concat (map request_text [0..<6])"
proof -
  assume i: "i < n"
  have "streamed (map (\<lambda>r. Stream i (t r)) rs) = concat (map t rs)" for t rs
    by (induction rs) simp_all
  then show ?thesis
    using i by (simp add: calls_of_socket_main del: upt_rec_numeral)
qed

lemma last_reply_of:
  assumes "k < 10"
  shows "suffix last_reply (reply_text number inst k) \<longleftrightarrow> k = 5"
proof -
  have show_k: "show_nat k = [digit_char k]" using assms by (subst show_nat.simps) simp
  obtain pre where pre: "reply_text number inst k =
      pre @ ''#'' @ [digit_char k] @ ''</body></html>'' @ [newline]"
    by (auto simp: reply_text_def reply_html_def reply_body_def Let_def show_k)
  have "suffix last_reply (reply_text number inst k) \<longleftrightarrow>
      last_reply = ''#'' @ [digit_char k] @ ''</body></html>'' @ [newline]"
  proof -
    have "length last_reply = length (''#'' @ [digit_char k] @ ''</body></html>'' @ [newline])"
      by (simp add: last_reply_def)
    then show ?thesis
      unfolding pre by (auto simp: suffix_def)
  qed
  also have "\<dots> \<longleftrightarrow> digit_char k = CHR ''5''"
    by (auto simp: last_reply_def newline_def)
  also have "\<dots> \<longleftrightarrow> k = 5"
  proof
    assume "digit_char k = CHR ''5''"
    then have "digit_value (digit_char k) = digit_value CHR ''5''" by simp
    also have "digit_value CHR ''5'' = 5" by (simp add: digit_value_def)
    finally show "k = 5" by (simp only: digit_char_simps(2)[OF assms])
  next
    assume "k = 5"
    moreover have "digit_char 5 = CHR ''5''" by code_simp
    ultimately show "digit_char k = CHR ''5''" by simp
  qed
  finally show ?thesis .
qed

text \<open>
  The conversation, on a connection of its own: \<open>HtmlTcpServer\<close> has it for one of many.
\<close>

lemma conversation:
  assumes "inst < 2 ^ 31" "i < n" "only_data es" "received es = streamed (calls_of i (socket_main n))"
    and "{1..6} \<subseteq> set timers"
  shows "\<exists>c. run_completions (es @ map TimedOut timers) (connection_ctor inst) = Inr c \<and>
    \<not> m_closed c \<and> m_reply_queue c = [] \<and>
    map r_str (written c) = map (\<lambda>k. reply_text (k + 1) inst k) [0..<6] \<and>
    map (\<lambda>r. InputPrinter_decode (r_str r)) (written c) = replicate 5 (Inr False) @ [Inr True]"
proof -
  obtain d where d: "handle_chars (received es) (connection_ctor inst) = Inr d"
    "map r_str (accepted d) = map (\<lambda>j. reply_text (j + 1) inst j) [0..<6]"
    "map r_number (accepted d) = [1..<7]" "\<forall>r \<in> set (accepted d). \<not> r_must_close r"
    using requests_read[OF assms(1), of 6] assms(4) socket_stream[OF assms(2)]
    by (auto simp del: upt_rec_numeral)
  obtain e where e: "run_completions es (connection_ctor inst) = Inr e" "reader e = reader d"
    using run_reader[OF assms(3) d(1) refl] by blast
  have acc: "accepted e = accepted d"
    using reader_eqI[OF e(2)] by simp
  have "closed_inv e"
    using run_closed[OF e(1) assms(3) closed_inv_ctor] .
  then obtain c where c: "run_completions (map TimedOut timers) e = Inr c" "closed_inv c"
    "woken (set timers) c" "accepted c = accepted e"
    using run_timers[of e "{}" timers] by (auto simp: woken_def)
  have "run_completions (es @ map TimedOut timers) x =
      (case run_completions es x of Inl f \<Rightarrow> Inl f | Inr y \<Rightarrow> run_completions (map TimedOut timers) y)" for x
    by (induction es x rule: run_completions.induct) (auto split: sum.splits)
  then have run: "run_completions (es @ map TimedOut timers) (connection_ctor inst) = Inr c"
    using e(1) c(1) by simp
  have "r_number ` set (accepted c) = set [1..<7]"
    using d(3) c(4) acc by (metis list.set_map)
  then have "r_number ` set (accepted c) \<subseteq> set timers"
    using assms(5) by (auto simp del: upt_rec_numeral)
  then have all: "\<not> m_closed c" "m_reply_queue c = []" "map no_sleep (written c) = map no_sleep (accepted c)"
    using all_written[OF c(2) _ c(3)] d(4) c(4) acc by auto
  have "r_str \<circ> no_sleep = r_str"
    by (rule ext) (simp add: no_sleep_def)
  then have strs: "map r_str (written c) = map (\<lambda>k. reply_text (k + 1) inst k) [0..<6]"
    using arg_cong[OF all(3), of "map r_str"] d(2) c(4) acc by simp
  have "map (\<lambda>r. InputPrinter_decode (r_str r)) (written c) = map InputPrinter_decode (map r_str (written c))"
    by simp
  also have "\<dots> = map (\<lambda>k. Inr (k = 5)) [0..<6]"
    unfolding strs by (simp add: InputPrinter_suffix last_reply_of del: upt_rec_numeral)
  also have "\<dots> = replicate 5 (Inr False) @ [Inr True]"
    by (simp add: upt_rec numeral_eq_Suc)
  finally show ?thesis
    using run all strs by blast
qed

end
