(* ===== verification/HtmlTcpServer.thy ===== *)
theory HtmlTcpServer
  imports HtmlClient
begin

text \<open>
  \<^verbatim>\<open>tcp_server\<close> of \<^verbatim>\<open>tests/HtmlPipeLineServerFixture.h\<close> with all its connections, and the set-up of
  the fixture. A single thread calls \<^verbatim>\<open>io_context::run\<close>, so the completions of all the connections
  and of the accepts are handled one after the other, in any order.
\<close>

section \<open>State\<close>

text \<open>
  \<open>waiting\<close> has the connection objects that an \<^verbatim>\<open>async_accept\<close> is pending for, \<open>started\<close> those that
  were accepted. A connection is named by \<^verbatim>\<open>m_instance\<close>.
\<close>

record tcp_server =
  m_count :: nat
  acceptor_open :: bool
  waiting :: "connection list"
  started :: "connection list"

definition start_accept :: "tcp_server \<Rightarrow> tcp_server" where
  "start_accept s =
     (let count = m_count s + 1
      in s\<lparr>m_count := count, waiting := waiting s @ [connection_ctor count]\<rparr>)"

definition server_start :: "tcp_server \<Rightarrow> tcp_server" where
  "server_start s = start_accept s"

definition tcp_server_ctor :: tcp_server where
  "tcp_server_ctor = server_start \<lparr>m_count = 0, acceptor_open = True, waiting = [], started = []\<rparr>"

definition server_stop :: "tcp_server \<Rightarrow> tcp_server" where
  "server_stop s = s\<lparr>acceptor_open := False\<rparr>"

text \<open>\<^verbatim>\<open>handle_accept\<close> for the pending accept of connection \<open>c\<close>.\<close>

definition handle_accept :: "connection \<Rightarrow> bool \<Rightarrow> tcp_server \<Rightarrow> tcp_server" where
  "handle_accept c err s =
     start_accept
       (if \<not> err then s\<lparr>waiting := remove1 c (waiting s), started := started s @ [c]\<rparr>
        else s\<lparr>waiting := remove1 c (waiting s)\<rparr>)"

text \<open>The constructor and \<^verbatim>\<open>SetUp\<close> of the fixture both call \<^verbatim>\<open>start\<close>.\<close>

definition SetUp :: tcp_server where
  "SetUp = server_start tcp_server_ctor"

section \<open>Completions\<close>

datatype server_event = Accept nat bool | Completed nat completion

definition named :: "nat \<Rightarrow> connection list \<Rightarrow> connection option" where
  "named i cs = find (\<lambda>c. m_instance c = i) cs"

text \<open>
  A completion that cannot be delivered, because there is no such accept or connection, or a
  success although the acceptor is closed, has no effect.
\<close>

fun server_completes :: "server_event \<Rightarrow> tcp_server \<Rightarrow> fault + tcp_server" where
  "server_completes (Accept i err) s =
     (case named i (waiting s) of
        None \<Rightarrow> Inr s
      | Some c \<Rightarrow> if acceptor_open s \<or> err then Inr (handle_accept c err s) else Inr s)"
| "server_completes (Completed i e) s =
     (case named i (started s) of
        None \<Rightarrow> Inr s
      | Some c \<Rightarrow>
          (case handle_completion e c of
             Inl f \<Rightarrow> Inl f
           | Inr c' \<Rightarrow> Inr (s\<lparr>started := map (\<lambda>d. if m_instance d = i then c' else d) (started s)\<rparr>)))"

fun run_server :: "server_event list \<Rightarrow> tcp_server \<Rightarrow> fault + tcp_server" where
  "run_server [] s = Inr s"
| "run_server (e # es) s = (case server_completes e s of Inl f \<Rightarrow> Inl f | Inr s' \<Rightarrow> run_server es s')"

section \<open>One connection among the others\<close>

text \<open>The completions of connection \<open>i\<close>, and the connection as it is when its accept succeeded.\<close>

fun completions_of :: "nat \<Rightarrow> server_event list \<Rightarrow> completion list" where
  "completions_of i [] = []"
| "completions_of i (Completed j e # es) = (if i = j then e # completions_of i es else completions_of i es)"
| "completions_of i (Accept j err # es) = completions_of i es"

lemma named_Some: "named i cs = Some c \<Longrightarrow> m_instance c = i \<and> c \<in> set cs"
  by (auto simp: named_def find_Some_iff in_set_conv_nth)

lemma named_append: "named i (xs @ ys) = (case named i xs of None \<Rightarrow> named i ys | Some c \<Rightarrow> Some c)"
  unfolding named_def by (induction xs) auto

lemma named_None: "named i cs = None \<longleftrightarrow> i \<notin> m_instance ` set cs"
  by (auto simp: named_def find_None_iff)

text \<open>No handler changes \<^verbatim>\<open>m_instance\<close>.\<close>

lemma queue_reply_instance: "queue_reply c = Inr c' \<Longrightarrow> m_instance c' = m_instance c"
  by (auto simp: queue_reply_def Let_def split: if_splits)

lemma handle_char_instance: "handle_char ch c = Inr c' \<Longrightarrow> m_instance c' = m_instance c"
  by (auto simp: handle_char_def Let_def set_field_def dest: queue_reply_instance split: sum.splits if_splits)

lemma handle_chars_instance: "handle_chars cs c = Inr c' \<Longrightarrow> m_instance c' = m_instance c"
  by (induction cs arbitrary: c) (auto dest: handle_char_instance split: sum.splits)

lemma completion_instance: "handle_completion e c = Inr c' \<Longrightarrow> m_instance c' = m_instance c"
  by (cases e) (auto simp: timed_out_def dest: handle_chars_instance split: if_splits)

section \<open>Accepting\<close>

text \<open>
  After \<open>SetUp\<close> two accepts are always pending, with new connections, and every number up to
  \<^verbatim>\<open>m_count\<close> was given to one connection only.
\<close>

definition server_inv :: "tcp_server \<Rightarrow> bool" where
  "server_inv s \<longleftrightarrow>
     acceptor_open s \<and> length (waiting s) = 2 \<and>
     (\<forall>c \<in> set (waiting s). c = connection_ctor (m_instance c)) \<and>
     distinct (map m_instance (waiting s @ started s)) \<and>
     set (map m_instance (waiting s @ started s)) \<subseteq> {1..m_count s}"

lemma instance_ctor [simp]: "m_instance (connection_ctor i) = i"
  by (simp add: connection_ctor_def)

lemma server_inv_SetUp: "server_inv SetUp"
  by (simp add: server_inv_def SetUp_def server_start_def tcp_server_ctor_def start_accept_def Let_def)

lemma handle_accept_inv:
  assumes "server_inv s" "named i (waiting s) = Some c"
  shows "server_inv (handle_accept c err s)"
proof -
  have c: "c \<in> set (waiting s)" "m_instance c = i" using named_Some[OF assms(2)] by simp_all
  then obtain xs ys where w: "waiting s = xs @ c # ys" "c \<notin> set xs"
    by (meson split_list_first)
  have rest: "remove1 c (waiting s) = xs @ ys" using w by (simp add: remove1_append)
  have inv: "acceptor_open s" "length (xs @ ys) = 1" "\<forall>c \<in> set (xs @ ys). c = connection_ctor (m_instance c)"
    "distinct (map m_instance (xs @ c # ys @ started s))"
    "set (map m_instance (xs @ c # ys @ started s)) \<subseteq> {1..m_count s}"
    using assms(1) w(1) by (auto simp: server_inv_def)
  have new: "m_count s + 1 \<notin> set (map m_instance (xs @ c # ys @ started s))" using inv(5) by auto
  have "distinct (map m_instance ((xs @ ys @ [connection_ctor (m_count s + 1)]) @ started s @ (if err then [] else [c])))"
    using inv(4) new by auto
  moreover have "set (map m_instance ((xs @ ys @ [connection_ctor (m_count s + 1)]) @ started s @ (if err then [] else [c])))
      \<subseteq> {1..m_count s + 1}"
    using inv(5) by auto
  ultimately show ?thesis
    using inv(1-3) rest by (auto simp: server_inv_def handle_accept_def start_accept_def Let_def)
qed

lemma server_completes_inv:
  assumes "server_completes e s = Inr s'" "server_inv s"
  shows "server_inv s'"
proof (cases e)
  case (Accept i err)
  then show ?thesis
    using assms handle_accept_inv by (auto split: option.splits if_splits)
next
  case (Completed i x)
  show ?thesis
  proof (cases "named i (started s)")
    case (Some c)
    then obtain c' where c': "handle_completion x c = Inr c'"
      "s' = s\<lparr>started := map (\<lambda>d. if m_instance d = i then c' else d) (started s)\<rparr>"
      using assms(1) Completed by (auto split: sum.splits)
    have "m_instance c' = i"
      using completion_instance[OF c'(1)] named_Some[OF Some] by simp
    then have "map m_instance (started s') = map m_instance (started s)" using c'(2) by simp
    moreover have "waiting s' = waiting s" "m_count s' = m_count s" "acceptor_open s' = acceptor_open s"
      using c'(2) by simp_all
    ultimately show ?thesis
      using assms(2) unfolding server_inv_def map_append by (simp only:) simp
  qed (use assms Completed in simp)
qed

lemma run_server_inv: "run_server es s = Inr s' \<Longrightarrow> server_inv s \<Longrightarrow> server_inv s'"
  by (induction es arbitrary: s) (auto split: sum.splits dest: server_completes_inv)

section \<open>Isolation\<close>

lemma find_map_same:
  assumes "\<forall>d \<in> set cs. m_instance (f d) = m_instance d"
  shows "named i (map f cs) = map_option f (named i cs)"
  using assms unfolding named_def by (induction cs) auto

text \<open>An event of another connection does not matter, one of its own is handled as if alone.\<close>

lemma event_isolated:
  assumes "server_completes e s = Inr s'" "server_inv s" "named i (started s) = Some c"
  shows "\<exists>c'. named i (started s') = Some c' \<and> run_completions (completions_of i [e]) c = Inr c'"
proof (cases e)
  case (Accept j err)
  then have "\<exists>xs. started s' = started s @ xs"
    using assms(1) by (auto simp: handle_accept_def start_accept_def Let_def split: option.splits if_splits)
  then show ?thesis
    using assms(3) Accept by (auto simp: named_append)
next
  case (Completed j x)
  show ?thesis
  proof (cases "named j (started s)")
    case None
    then show ?thesis using assms Completed by auto
  next
    case (Some d)
    then obtain d' where d': "handle_completion x d = Inr d'"
      "s' = s\<lparr>started := map (\<lambda>b. if m_instance b = j then d' else b) (started s)\<rparr>"
      using assms(1) Completed by (auto split: sum.splits)
    have "m_instance d' = j"
      using completion_instance[OF d'(1)] named_Some[OF Some] by simp
    then have n: "named i (started s') = Some (if m_instance c = j then d' else c)"
      using d'(2) assms(3) find_map_same[of "started s" "\<lambda>b. if m_instance b = j then d' else b" i] by auto
    show ?thesis
      using n d'(1) Some assms(3) Completed named_Some[OF assms(3)] by auto
  qed
qed

lemma completions_of_append: "completions_of i (es @ fs) = completions_of i es @ completions_of i fs"
  by (induction i es rule: completions_of.induct) auto

lemma completions_of_Cons: "completions_of i (e # es) = completions_of i [e] @ completions_of i es"
  using completions_of_append[of i "[e]" es] by simp

lemma run_completions_append:
  "run_completions (es @ fs) c =
     (case run_completions es c of Inl f \<Rightarrow> Inl f | Inr d \<Rightarrow> run_completions fs d)"
  by (induction es c rule: run_completions.induct) (auto split: sum.splits)

lemma run_isolated:
  assumes "run_server es s = Inr s'" "server_inv s" "named i (started s) = Some c"
  shows "\<exists>c'. named i (started s') = Some c' \<and> run_completions (completions_of i es) c = Inr c'"
  using assms
proof (induction es arbitrary: s c)
  case (Cons e es)
  then obtain s1 where s1: "server_completes e s = Inr s1" "run_server es s1 = Inr s'"
    by (auto split: sum.splits)
  obtain c1 where c1: "named i (started s1) = Some c1" "run_completions (completions_of i [e]) c = Inr c1"
    using event_isolated[OF s1(1) Cons.prems(2,3)] by blast
  then show ?case
    using Cons.IH[OF s1(2) server_completes_inv[OF s1(1) Cons.prems(2)] c1(1)]
    by (auto simp: completions_of_Cons[of i e es] run_completions_append)
qed simp

lemma run_server_append:
  "run_server (es @ fs) s = (case run_server es s of Inl f \<Rightarrow> Inl f | Inr t \<Rightarrow> run_server fs t)"
  by (induction es s rule: run_server.induct) (auto split: sum.splits)

text \<open>A connection starts when its accept succeeds.\<close>

lemma accept_starts:
  assumes "server_inv s" "named i (waiting s) \<noteq> None"
  shows "\<exists>s'. server_completes (Accept i False) s = Inr s' \<and> named i (started s') = Some (connection_ctor i)"
proof -
  obtain c where c: "named i (waiting s) = Some c" using assms(2) by blast
  then have new: "c = connection_ctor i"
    using assms(1) named_Some[OF c] unfolding server_inv_def by metis
  have "named i (started s) = None"
    using assms(1) named_Some[OF c] unfolding server_inv_def named_None by auto
  then have "named i (started (handle_accept c False s)) = Some (connection_ctor i)"
    using new by (simp add: handle_accept_def start_accept_def Let_def named_append) (simp add: named_def)
  then show ?thesis using c assms(1) by (simp add: server_inv_def)
qed

section \<open>No fault\<close>

text \<open>As long as every connection stays below the bound of \<open>run_safe\<close>, and so does the number of connections.\<close>

definition bounded :: "server_event list \<Rightarrow> tcp_server \<Rightarrow> bool" where
  "bounded es s \<longleftrightarrow>
     (\<forall>i. length (received (completions_of i es)) < 2 ^ 31) \<and> m_count s + length es < 2 ^ 31 \<and>
     (\<forall>c \<in> set (started s). \<exists>n. safe_inv n c \<and>
        n + length (received (completions_of (m_instance c) es)) < 2 ^ 31)"

lemma received_append: "received (es @ fs) = received es @ received fs"
  by (induction es rule: received.induct) auto

lemma server_completes_bounded:
  assumes "bounded (e # es) s" "server_inv s"
  shows "\<exists>s'. server_completes e s = Inr s' \<and> bounded es s'"
proof -
  have len: "length (received (completions_of i (e # es))) =
      length (received (completions_of i [e])) + length (received (completions_of i es))" for i
    by (simp add: completions_of_Cons[of i e es] received_append)
  have all: "length (received (completions_of i es)) < 2 ^ 31" for i
    using assms(1) len[of i] unfolding bounded_def by (metis add_lessD1 add.commute)
  have old: "\<exists>n. safe_inv n c \<and> n + length (received (completions_of (m_instance c) es)) < 2 ^ 31"
    if "c \<in> set (started s)" for c
    using assms(1) that len[of "m_instance c"] unfolding bounded_def by fastforce
  show ?thesis
  proof (cases e)
    case (Accept i err)
    show ?thesis
    proof (cases "named i (waiting s)")
      case None
      then show ?thesis using Accept all old assms(1) by (auto simp: bounded_def)
    next
      case (Some c)
      have c: "c = connection_ctor (m_instance c)" "m_instance c \<le> m_count s" "acceptor_open s"
        using assms(2) named_Some[OF Some] unfolding server_inv_def by auto
      have "m_instance c < 2 ^ 31"
        using c(2) assms(1) unfolding bounded_def by simp
      then have "safe_inv 0 c" using safe_inv_ctor[of "m_instance c"] c(1) by simp
      then have "bounded es (handle_accept c err s)"
        using all old assms(1) Accept
        by (auto simp: bounded_def handle_accept_def start_accept_def Let_def intro!: exI[of _ 0])
      then show ?thesis using Accept Some c(3) by simp
    qed
  next
    case (Completed i x)
    show ?thesis
    proof (cases "named i (started s)")
      case None
      then show ?thesis using Completed all old assms(1) by (auto simp: bounded_def)
    next
      case (Some c)
      have c: "m_instance c = i" "c \<in> set (started s)" using named_Some[OF Some] by simp_all
      then obtain n where n: "safe_inv n c" "n + length (received (completions_of i (e # es))) < 2 ^ 31"
        using assms(1) unfolding bounded_def by auto
      then have "n + length (received [x]) < 2 ^ 31"
        using len[of i] Completed by simp
      then obtain c' where c': "handle_completion x c = Inr c'" "safe_inv (n + length (received [x])) c'"
        using run_safe[OF n(1), of "[x]"] by (auto split: sum.splits)
      have same: "m_instance c' = i" using completion_instance[OF c'(1)] c(1) by simp
      have "\<exists>m. safe_inv m c' \<and> m + length (received (completions_of i es)) < 2 ^ 31"
        using c'(2) n(2) len[of i] Completed by (intro exI[of _ "n + length (received [x])"]) simp
      then have "bounded es (s\<lparr>started := map (\<lambda>d. if m_instance d = i then c' else d) (started s)\<rparr>)"
        using all old assms(1) same by (auto simp: bounded_def)
      then show ?thesis using Completed Some c'(1) by simp
    qed
  qed
qed

lemma run_server_bounded:
  "bounded (es @ fs) s \<Longrightarrow> server_inv s \<Longrightarrow> \<exists>s'. run_server es s = Inr s' \<and> bounded fs s'"
proof (induction es arbitrary: s)
  case (Cons e es)
  then obtain s1 where "server_completes e s = Inr s1" "bounded (es @ fs) s1"
    using server_completes_bounded[of e "es @ fs" s] by auto
  then show ?case using Cons.IH server_completes_inv Cons.prems(2) by fastforce
qed simp

lemma bounded_SetUp:
  "\<forall>j. length (received (completions_of j es)) < 2 ^ 31 \<Longrightarrow> length es + 2 < 2 ^ 31 \<Longrightarrow> bounded es SetUp"
  by (simp add: bounded_def SetUp_def server_start_def tcp_server_ctor_def start_accept_def Let_def)

section \<open>Properties\<close>

lemma connection_served:
  assumes "run_server es SetUp = Inr s" "named i (waiting s) \<noteq> None"
    and "\<forall>j. length (received (completions_of j (es @ Accept i False # fs))) < 2 ^ 31"
    and "length es + length fs + 3 < 2 ^ 31"
  shows "\<exists>t c. run_server (es @ Accept i False # fs) SetUp = Inr t \<and> named i (started t) = Some c \<and>
    run_completions (completions_of i fs) (connection_ctor i) = Inr c \<and> server_inv t"
proof -
  have inv: "server_inv s" by (rule run_server_inv[OF assms(1) server_inv_SetUp])
  have "bounded (es @ Accept i False # fs) SetUp"
    using assms(3,4) by (intro bounded_SetUp) simp_all
  then have b: "bounded (Accept i False # fs) s"
    using run_server_bounded[OF _ server_inv_SetUp] assms(1) by fastforce
  obtain s1 where s1: "server_completes (Accept i False) s = Inr s1" "named i (started s1) = Some (connection_ctor i)"
    using accept_starts[OF inv assms(2)] by blast
  note inv1 = server_completes_inv[OF s1(1) inv]
  have "bounded fs s1"
    using server_completes_bounded[OF b inv] s1(1) by auto
  then obtain t where t: "run_server fs s1 = Inr t"
    using run_server_bounded[of fs "[]" s1] inv1 by auto
  obtain c where "named i (started t) = Some c" "run_completions (completions_of i fs) (connection_ctor i) = Inr c"
    using run_isolated[OF t inv1 s1(2)] by blast
  then show ?thesis
    using assms(1) s1(1) t run_server_inv[OF t inv1] by (simp add: run_server_append)
qed

text \<open>
  \<^bold>\<open>C9\<close>. The connections of a server do not disturb one another: after its accept succeeded, a
  connection is in the state that its own completions bring a connection to that is alone, whatever
  else happens in between. Two accepts are always pending, one for each call of \<^verbatim>\<open>start\<close>, so that
  \<^verbatim>\<open>io_context::run\<close> never runs out of work; and no number is given to two connections.
\<close>

theorem server_isolates_connections:
  assumes "run_server es SetUp = Inr s" "named i (waiting s) \<noteq> None"
    and "\<forall>j. length (received (completions_of j (es @ Accept i False # fs))) < 2 ^ 31"
    and "length es + length fs + 3 < 2 ^ 31"
  shows "\<exists>t c. run_server (es @ Accept i False # fs) SetUp = Inr t \<and> named i (started t) = Some c \<and>
    run_completions (completions_of i fs) (connection_ctor i) = Inr c \<and>
    length (waiting t) = 2 \<and> distinct (map m_instance (waiting t @ started t))"
  using connection_served[OF assms] unfolding server_inv_def by blast


text \<open>Two clients: connection 2 is accepted first and sends something else.\<close>

definition two_clients :: "server_event list" where
  "two_clients =
     [Completed 2 (Received ''GET''), Completed 1 (Received (concat (map request_text [0..<6])))] @
     map (\<lambda>number. Completed 1 (TimedOut number)) [6, 5, 4, 3, 2, 1]"

lemma two_clients_hyps:
  "run_server [Accept 2 False] SetUp =
     Inr \<lparr>m_count = 3, acceptor_open = True, waiting = [connection_ctor 1, connection_ctor 3],
       started = [connection_ctor 2]\<rparr>"
  "completions_of 1 two_clients = [Received (concat (map request_text [0..<6]))] @ map TimedOut [6, 5, 4, 3, 2, 1]"
  by (simp_all add: SetUp_def server_start_def tcp_server_ctor_def start_accept_def Let_def named_def
      handle_accept_def two_clients_def del: upt_rec_numeral) (simp add: connection_ctor_def)

lemma two_clients_bound:
  "\<forall>j. length (received (completions_of j ([Accept 2 False] @ Accept 1 False # two_clients))) < 2 ^ 31"
proof
  fix j :: nat
  have small: "length (concat (map request_text [0..<6])) < 1000" by code_simp
  consider "j = 1" | "j = 2" | "j \<noteq> 1" "j \<noteq> 2" by blast
  then show "length (received (completions_of j ([Accept 2 False] @ Accept 1 False # two_clients))) < 2 ^ 31"
    by cases (use small in \<open>simp_all add: two_clients_def del: upt_rec_numeral\<close>)
qed

lemma two_clients_run:
  shows "named 1 (waiting \<lparr>m_count = 3, acceptor_open = True, waiting = [connection_ctor 1, connection_ctor 3],
       started = [connection_ctor 2]\<rparr>) \<noteq> None"
    and "length [Accept 2 False] + length two_clients + 3 < 2 ^ 31"
  by (simp_all add: named_def two_clients_def)

theorem server_isolates_connections_witness:
  "\<exists>t c. run_server ([Accept 2 False] @ Accept 1 False # two_clients) SetUp = Inr t \<and>
     named 1 (started t) = Some c \<and> length (waiting t) = 2 \<and>
     run_completions (completions_of 1 two_clients) (connection_ctor 1) = Inr c"
  using server_isolates_connections[OF two_clients_hyps(1) two_clients_run(1) two_clients_bound
      two_clients_run(2)] by blast


end
