(* ===== verification/HtmlServerTypes.thy ===== *)
theory HtmlServerTypes
  imports HtmlServerProps
begin

text \<open>
  The numbers of the test server: the model has natural numbers where
  \<^verbatim>\<open>tests/HtmlPipeLineServerFixture.h\<close> has \<^verbatim>\<open>int\<close>, \<^verbatim>\<open>unsigned long\<close> and an iterator. They stay
  within these types, so that nothing wraps around.
\<close>

definition reply_typed :: "reply \<Rightarrow> bool" where
  "reply_typed r \<longleftrightarrow> r_number r < 2 ^ 31 \<and> r_sleep r < 2 ^ 64 \<and> length (r_str r) < 512"

definition connection_typed :: "connection \<Rightarrow> bool" where
  "connection_typed c \<longleftrightarrow>
     m_instance c < 2 ^ 31 \<and> m_reply c < 2 ^ 31 \<and> m_sleep c < 2 ^ 64 \<and> m_request c < 2 ^ 64 \<and>
     m_str (m_eom c) = crlfcrlf \<and> m_ptr (m_eom c) < 4 \<and>
     (\<forall>r \<in> set (m_reply_queue c) \<union> set (written c). reply_typed r)"

text \<open>The part that does not depend on the number of replies.\<close>

definition sizes_inv :: "connection \<Rightarrow> bool" where
  "sizes_inv c \<longleftrightarrow> m_sleep c < 2 ^ 64 \<and>
     (\<forall>r \<in> set (m_reply_queue c) \<union> set (written c).
        r_number r \<le> m_reply c \<and> r_sleep r < 2 ^ 64 \<and> length (r_str r) < 512)"

lemma process_loop_subset:
  "process_loop rs = (queue, ws, closed) \<Longrightarrow> set queue \<subseteq> set rs \<and> set ws \<subseteq> set rs"
proof (induction rs arbitrary: queue ws closed)
  case (Cons r rs)
  obtain q w cl where "process_loop rs = (q, w, cl)" by (cases "process_loop rs") auto
  with Cons show ?case by (fastforce split: if_splits)
qed simp

lemma sizes_process [simp]: "sizes_inv c \<Longrightarrow> sizes_inv (process_replies c)"
  using process_loop_subset
  by (auto simp: sizes_inv_def process_replies_def split: prod.split) blast+

lemma sizes_queue_reply:
  assumes "sizes_inv c" "queue_reply c = Inr c'"
  shows "sizes_inv c'"
proof -
  let ?r = "\<lparr>r_number = m_reply c + 1, r_str = reply_text (m_reply c + 1) (m_instance c) (m_request c),
    r_sleep = m_sleep c, r_must_close = m_must_close c, r_has_request = (m_request c \<noteq> 0)\<rparr>"
  have "length (r_str ?r) < 512" "c' = process_replies (c\<lparr>m_reply := m_reply c + 1, m_request := 0,
      m_reply_queue := m_reply_queue c @ [?r], accepted := accepted c @ [?r]\<rparr>)"
    using assms(2) by (auto simp: queue_reply_def Let_def split: if_splits)
  moreover from this(1) have "sizes_inv (c\<lparr>m_reply := m_reply c + 1, m_request := 0,
      m_reply_queue := m_reply_queue c @ [?r], accepted := accepted c @ [?r]\<rparr>)"
    using assms(1) by (auto simp: sizes_inv_def intro: le_SucI)
  ultimately show ?thesis by simp
qed

lemma sizes_updates:
  "sizes_inv (c\<lparr>m_eom := e, m_header := h\<rparr>) = sizes_inv c"
  "sizes_inv c \<Longrightarrow> sizes_inv (c\<lparr>m_sleep := 0, m_must_close := b, m_request := n\<rparr>)"
  "sizes_inv c \<Longrightarrow> sizes_inv (set_field k v c)"
  using strtoul_less by (auto simp: sizes_inv_def set_field_def)

lemma sizes_handle_char:
  assumes "sizes_inv c" "handle_char ch c = Inr c'"
  shows "sizes_inv c'"
proof -
  obtain eom where eom: "parser_feed ch (m_eom c) = Inr eom"
    using assms(2) by (auto simp: handle_char_def split: sum.splits)
  let ?h = "header_feed ch (m_header c)"
  show ?thesis
  proof (cases "m_match eom")
    case True
    then obtain d where d: "queue_reply (c\<lparr>m_eom := parser_reset eom, m_header := header_reset ?h\<rparr>) = Inr d"
      "c' = d\<lparr>m_sleep := 0, m_must_close := False, m_request := 0\<rparr>"
      using assms(2) eom by (auto simp: handle_char_def Let_def split: sum.splits)
    have "sizes_inv d"
      using sizes_queue_reply[OF _ d(1)] assms(1) by (simp add: sizes_updates(1))
    then show ?thesis using d(2) by (simp add: sizes_updates(2))
  next
    case False
    then have "c' = c\<lparr>m_eom := eom, m_header := ?h\<rparr> \<or>
        c' = set_field (h_key ?h) (h_value ?h) (c\<lparr>m_eom := eom, m_header := ?h\<rparr>)"
      using assms(2) eom by (auto simp: handle_char_def Let_def split: if_splits)
    then show ?thesis
      using assms(1) sizes_updates(1,3) by metis
  qed
qed

lemma sizes_handle_chars: "sizes_inv c \<Longrightarrow> handle_chars cs c = Inr c' \<Longrightarrow> sizes_inv c'"
  by (induction cs arbitrary: c) (auto dest: sizes_handle_char split: sum.splits)

lemma sizes_timed_out: "sizes_inv c \<Longrightarrow> sizes_inv (timed_out number c)"
  unfolding timed_out_def by (auto intro!: sizes_process) (auto simp: sizes_inv_def)

lemma sizes_completion: "sizes_inv c \<Longrightarrow> handle_completion e c = Inr c' \<Longrightarrow> sizes_inv c'"
  by (cases e) (auto simp: sizes_handle_chars sizes_timed_out, auto simp: sizes_inv_def)

lemma sizes_run: "sizes_inv c \<Longrightarrow> run_completions es c = Inr c' \<Longrightarrow> sizes_inv c'"
  by (induction es arbitrary: c) (auto dest: sizes_completion split: sum.splits)



end
