(* ===== verification/SwitchProtocol.thy ===== *)
theory SwitchProtocol
  imports Mains
begin

text \<open>
  \<^verbatim>\<open>tests/switch_protocol_decoder.h\<close>: a socket that changes its decoder in the middle of the input,
  at the end of a message. The size of the header of a memory block, which is evio's
  \<^verbatim>\<open>block_overhead_c\<close>, is an argument; so are the messages that evio cuts the input into.
\<close>

section \<open>What is sent\<close>

definition large_minimum_block_size :: "nat \<Rightarrow> nat" where
  "large_minimum_block_size block_overhead = 2 ^ 14 - block_overhead"

definition switch_line :: "char list" where
  "switch_line =
     ''START012345678901234567890123456789012345678901234567890123456789012345678901234567890123456789END.''
     @ [CHR 0x0A]"

text \<open>\<^verbatim>\<open>new_connection\<close>, on the accepted socket \<open>s\<close>. The last message is written in two parts.\<close>

definition switch_new_connection :: "nat \<Rightarrow> nat \<Rightarrow> main_call list" where
  "switch_new_connection block_overhead s =
     map (\<lambda>n. Stream s switch_line) [0..<large_minimum_block_size block_overhead div 100] @
     [Stream s ''START01234'', SleepMs 100,
      Stream s (''5678901234567890123456789012345678901234567890123456789012345678901234567890123456789END.''
        @ [CHR 0x0A]),
      Flush s]"

section \<open>The decoders\<close>

datatype current_decoder = MyXDecoder | MyYDecoder

text \<open>
  \<open>MySocket\<close>: the decoder that is in use, the two counters, whether the input was closed and
  \<^verbatim>\<open>test_finished_cv\<close>, and the calls on its output.
\<close>

record switch_socket =
  decoder :: current_decoder
  x_received :: int
  y_received :: int
  input_closed :: bool
  test_finished :: bool
  output_calls :: "main_call list"

definition switch_socket_ctor :: switch_socket where
  "switch_socket_ctor =
     \<lparr>decoder = MyXDecoder, x_received = 0, y_received = 0, input_closed = False,
      test_finished = False, output_calls = []\<rparr>"

definition MyXDecoder_decode :: "char list \<Rightarrow> switch_socket \<Rightarrow> switch_socket" where
  "MyXDecoder_decode msg s =
     (let s1 = s\<lparr>x_received := x_received s + int (length msg)\<rparr>
      in if x_received s1 = 16300 then s1\<lparr>decoder := MyYDecoder\<rparr> else s1)"

definition socket_finished :: "switch_socket \<Rightarrow> switch_socket" where
  "socket_finished s = s\<lparr>output_calls := output_calls s @ [Stream 0 (''Done'' @ [CHR 0x0A]), Flush 0]\<rparr>"

definition MyYDecoder_decode :: "char list \<Rightarrow> switch_socket \<Rightarrow> switch_socket" where
  "MyYDecoder_decode msg s =
     (let s1 = s\<lparr>y_received := y_received s + int (length msg)\<rparr>
      in if y_received s1 = 100
         then socket_finished (s1\<lparr>input_closed := True, test_finished := True\<rparr>) else s1)"

text \<open>A message goes to the decoder that is in use; none after the input was closed.\<close>

definition receive_message :: "char list \<Rightarrow> switch_socket \<Rightarrow> switch_socket" where
  "receive_message msg s =
     (if input_closed s then s
      else case decoder s of
             MyXDecoder \<Rightarrow> MyXDecoder_decode msg s
           | MyYDecoder \<Rightarrow> MyYDecoder_decode msg s)"

text \<open>The accepted socket closes its input at the first message.\<close>

definition SwitchAccepted_decode :: "char list \<Rightarrow> bool" where
  "SwitchAccepted_decode msg = True"

section \<open>Messages\<close>

text \<open>Messages that end with their only newline, as the default of evio's decoders is.\<close>

definition newline_messages :: "char list list \<Rightarrow> bool" where
  "newline_messages msgs \<longleftrightarrow> (\<forall>msg \<in> set msgs. \<exists>l. msg = l @ [CHR 0x0A] \<and> CHR 0x0A \<notin> set l)"

lemma newline_messages_Cons:
  "newline_messages (msg # msgs) \<longleftrightarrow> (\<exists>l. msg = l @ [CHR 0x0A] \<and> CHR 0x0A \<notin> set l) \<and> newline_messages msgs"
  by (simp add: newline_messages_def)

lemma split_at_newline:
  assumes "l @ CHR 0x0A # rest = l' @ CHR 0x0A # rest'" "CHR 0x0A \<notin> set l" "CHR 0x0A \<notin> set l'"
  shows "l = l' \<and> rest = rest'"
  using assms by (induction l arbitrary: l') (auto simp: Cons_eq_append_conv append_eq_Cons_conv)

lemma newline_messages_unique:
  "newline_messages xs \<Longrightarrow> newline_messages ys \<Longrightarrow> concat xs = concat ys \<Longrightarrow> xs = ys"
proof (induction xs arbitrary: ys)
  case Nil
  then show ?case by (cases ys) (auto simp: newline_messages_Cons)
next
  case (Cons x xs)
  then obtain l where x: "x = l @ [CHR 0x0A]" "CHR 0x0A \<notin> set l"
    by (auto simp: newline_messages_Cons)
  obtain y zs where ys: "ys = y # zs"
    using Cons.prems(3) x by (cases ys) auto
  then obtain m where y: "y = m @ [CHR 0x0A]" "CHR 0x0A \<notin> set m"
    using Cons.prems(2) by (auto simp: newline_messages_Cons)
  have "l = m \<and> concat xs = concat zs"
    using split_at_newline[of l "concat xs" m "concat zs"] Cons.prems(3) x y ys by simp
  then show ?case
    using Cons ys x y by (simp add: newline_messages_Cons)
qed

lemma switch_line_props:
  "length switch_line = 100" "newline_messages [switch_line]"
  by (simp_all add: switch_line_def newline_messages_def)

lemma switch_data:
  "streamed (switch_new_connection block_overhead s) =
     concat (replicate (large_minimum_block_size block_overhead div 100 + 1) switch_line)"
proof -
  have "streamed (map (\<lambda>n. Stream s switch_line) ns) = concat (replicate (length ns) switch_line)" for ns :: "nat list"
    by (induction ns) simp_all
  then have "streamed (switch_new_connection block_overhead s) =
      concat (replicate (large_minimum_block_size block_overhead div 100) switch_line) @ switch_line"
    by (simp add: switch_new_connection_def streamed_append) (simp add: switch_line_def)
  then show ?thesis by (simp only: replicate_add concat_append) simp
qed

section \<open>Property\<close>

text \<open>\<open>n\<close> lines of 100 characters: the decoder changes at line 163, and line 164 is the last.\<close>

definition after_lines :: "nat \<Rightarrow> switch_socket" where
  "after_lines n =
     (if n < 163 then switch_socket_ctor\<lparr>x_received := 100 * int n\<rparr>
      else if n = 163 then switch_socket_ctor\<lparr>x_received := 16300, decoder := MyYDecoder\<rparr>
      else \<lparr>decoder = MyYDecoder, x_received = 16300, y_received = 100, input_closed = True,
        test_finished = True, output_calls = [Stream 0 (''Done'' @ [CHR 0x0A]), Flush 0]\<rparr>)"

lemma receive_line: "receive_message switch_line (after_lines n) = after_lines (n + 1)"
proof -
  consider "n < 162" | "n = 162" | "n = 163" | "n > 163" by linarith
  then show ?thesis
    by cases (simp_all add: after_lines_def receive_message_def MyXDecoder_decode_def MyYDecoder_decode_def
        socket_finished_def switch_socket_ctor_def switch_line_props Let_def)
qed

lemma fold_lines: "fold receive_message (replicate k switch_line) (after_lines n) = after_lines (n + k)"
  by (induction k arbitrary: n) (simp_all add: receive_line)

text \<open>
  \<^bold>\<open>C26\<close>. The test ends exactly if the header of a memory block has at most 84 bytes. Then the
  decoder is changed after 16300 bytes, the other decoder gets one message of 100 bytes, closes the
  input and answers, and \<^verbatim>\<open>test_finished_cv\<close> is set; with a larger header the first decoder gets
  everything and the test waits for ever. The number 16300 in the code only fits block sizes of
  16300 to 16384.
\<close>

theorem switch_test_finishes:
  assumes "newline_messages msgs" "concat msgs = streamed (switch_new_connection block_overhead a)"
    and "block_overhead \<le> 2 ^ 14"
  shows "(let s = fold receive_message msgs switch_socket_ctor in
      (test_finished s \<longleftrightarrow> block_overhead \<le> 84) \<and>
      (if test_finished s
       then x_received s = 16300 \<and> y_received s = 100 \<and> input_closed s \<and>
         streamed (output_calls s) = ''Done'' @ [CHR 0x0A]
       else y_received s = 0 \<and> \<not> input_closed s \<and> output_calls s = []))"
proof -
  let ?n = "large_minimum_block_size block_overhead div 100"
  have "newline_messages (replicate k switch_line)" for k
    using switch_line_props(2) by (auto simp: newline_messages_def)
  then have msgs: "msgs = replicate (?n + 1) switch_line"
    using newline_messages_unique[OF assms(1)] assms(2) switch_data by metis
  have "after_lines 0 = switch_socket_ctor"
    by (simp add: after_lines_def switch_socket_ctor_def)
  then have s: "fold receive_message msgs switch_socket_ctor = after_lines (?n + 1)"
    using fold_lines[of "?n + 1" 0] unfolding msgs by simp
  consider "?n = 163" "block_overhead \<le> 84" | "?n < 163" "84 < block_overhead"
  proof (cases "block_overhead \<le> 84")
    case True
    then have "?n = 163"
      unfolding large_minimum_block_size_def using assms(3) by (intro div_nat_eqI) simp_all
    then show thesis using True that by blast
  next
    case False
    then have "?n < 163"
      unfolding large_minimum_block_size_def by (intro less_mult_imp_div_less) simp
    then show thesis using False that by simp
  qed
  then show ?thesis
    unfolding s by cases (auto simp: after_lines_def switch_socket_ctor_def Let_def)
qed

theorem switch_test_finishes_witness:
  "test_finished (fold receive_message (replicate 164 switch_line) switch_socket_ctor)"
proof -
  have "large_minimum_block_size 32 div 100 + 1 = 164" by (simp add: large_minimum_block_size_def)
  moreover have "newline_messages (replicate 164 switch_line)"
    using switch_line_props(2) by (auto simp: newline_messages_def)
  ultimately show ?thesis
    using switch_test_finishes[of "replicate 164 switch_line" 32 0] switch_data[of 32 0]
    by (simp add: Let_def)
qed

end
