(* ===== verification/LockFreeList.thy ===== *)
theory LockFreeList
  imports Prelude
begin

text \<open>
  \<^verbatim>\<open>src/genmc_sll_test.c\<close>: producers that push nodes on a singly linked list with a weak
  compare-and-exchange, and consumers that take the whole list with an exchange and mark its
  nodes as deleted, for any numbers of both. The memory is that of C11: a relaxed load of \<open>list\<close>
  may return any value not older than what the thread saw, a release sequence carries the vector
  clocks of the stores before it, and an access of \<^verbatim>\<open>next\<close>, which is not atomic, that is not
  ordered after the last write, or a write that is not ordered after the last reads, is a data
  race.
\<close>

section \<open>State\<close>

text \<open>Node \<open>i\<close> is \<^verbatim>\<open>n[i]\<close>, which producer \<open>i\<close> inserts; \<open>Deleted\<close> is the pointer \<^verbatim>\<open>deleted\<close>.\<close>

datatype ptr = Null | Node nat | Deleted

datatype sll_fault = Fault fault | DataRace

datatype sll_pc =
    PLoad | PCas | PDone | CExchange | CLoop ptr | CAssert nat ptr | CDelete nat ptr

type_synonym clock = "nat \<Rightarrow> nat"

text \<open>
  \<open>hist\<close> has the values of \<open>list\<close> in modification order, each with the clock that an acquire
  operation gets from it; \<open>seen\<close> is the position up to which a thread has seen them. \<open>wr\<close> and
  \<open>rd\<close> are the last write and the last reads of \<^verbatim>\<open>next\<close>, with the clocks of their threads.
\<close>

record sll =
  hist :: "(ptr \<times> clock) list"
  seen :: "nat \<Rightarrow> nat"
  clk :: "nat \<Rightarrow> clock"
  nxt :: "nat \<Rightarrow> ptr"
  wr :: "nat \<Rightarrow> nat \<times> nat"
  rd :: "nat \<Rightarrow> nat \<Rightarrow> nat"
  pc :: "nat \<Rightarrow> sll_pc"

text \<open>Threads 0 to \<open>np - 1\<close> are the producers, the next \<open>nc\<close> the consumers.\<close>

definition sll_init :: "nat \<Rightarrow> nat \<Rightarrow> sll" where
  "sll_init np nc =
     \<lparr>hist = [(Null, \<lambda>_. 0)], seen = (\<lambda>_. 0), clk = (\<lambda>t u. if u = t then 1 else 0),
      nxt = (\<lambda>_. Null), wr = (\<lambda>_. (0, 0)), rd = (\<lambda>_ _. 0),
      pc = (\<lambda>t. if t < np then PLoad else if t < np + nc then CExchange else CLoop Null)\<rparr>"

section \<open>Accesses\<close>

definition join_clock :: "clock \<Rightarrow> clock \<Rightarrow> clock" where
  "join_clock V W = (\<lambda>u. max (V u) (W u))"

definition read_next :: "nat \<Rightarrow> nat \<Rightarrow> sll \<Rightarrow> sll_fault + ptr \<times> sll" where
  "read_next t n s =
     (if snd (wr s n) \<le> clk s t (fst (wr s n))
      then Inr (nxt s n, s\<lparr>rd := (rd s)(n := (rd s n)(t := clk s t t))\<rparr>)
      else Inl DataRace)"

definition write_next :: "nat \<Rightarrow> nat \<Rightarrow> nat \<Rightarrow> ptr \<Rightarrow> sll \<Rightarrow> sll_fault + sll" where
  "write_next threads t n x s =
     (if snd (wr s n) \<le> clk s t (fst (wr s n)) \<and> (\<forall>u < threads. rd s n u \<le> clk s t u)
      then Inr (s\<lparr>nxt := (nxt s)(n := x), wr := (wr s)(n := (t, clk s t t))\<rparr>)
      else Inl DataRace)"

text \<open>A relaxed load at position \<open>j\<close> of the modification order.\<close>

definition relaxed_load :: "nat \<Rightarrow> nat \<Rightarrow> sll \<Rightarrow> (ptr \<times> sll) option" where
  "relaxed_load t j s =
     (if seen s t \<le> j \<and> j < length (hist s)
      then Some (fst (hist s ! j), s\<lparr>seen := (seen s)(t := j)\<rparr>) else None)"

text \<open>
  The two read-modify-writes: they read the last value. A release adds the clock of the thread
  to what the value before it carries, and the thread's own clock ticks.
\<close>

definition cas_release :: "nat \<Rightarrow> ptr \<Rightarrow> sll \<Rightarrow> sll" where
  "cas_release t x s =
     s\<lparr>hist := hist s @ [(x, join_clock (clk s t) (snd (last (hist s))))],
       seen := (seen s)(t := length (hist s)),
       clk := (clk s)(t := (clk s t)(t := clk s t t + 1))\<rparr>"

definition exchange_acquire :: "nat \<Rightarrow> ptr \<Rightarrow> sll \<Rightarrow> ptr \<times> sll" where
  "exchange_acquire t x s =
     (fst (last (hist s)),
      s\<lparr>hist := hist s @ [(x, snd (last (hist s)))],
        seen := (seen s)(t := length (hist s)),
        clk := (clk s)(t := join_clock (clk s t) (snd (last (hist s))))\<rparr>)"

section \<open>The threads\<close>

definition set_pc :: "nat \<Rightarrow> sll_pc \<Rightarrow> sll \<Rightarrow> sll" where
  "set_pc t x s = s\<lparr>pc := (pc s)(t := x)\<rparr>"

text \<open>
  A step of thread \<open>t\<close>; \<open>j\<close> is the position that a load of \<open>list\<close> reads, and \<open>ok\<close> whether the
  compare-and-exchange succeeds. It can only succeed if the last value is the expected one; being
  weak it can fail in any case, and then writes the value it read to \<^verbatim>\<open>node->next\<close>.
\<close>

definition producer_exec :: "nat \<Rightarrow> nat \<Rightarrow> nat \<Rightarrow> bool \<Rightarrow> sll \<Rightarrow> (sll_fault + sll) option" where
  "producer_exec threads t j ok s =
     (case pc s t of
        PLoad \<Rightarrow>
          (case relaxed_load t j s of
             None \<Rightarrow> None
           | Some (x, s1) \<Rightarrow>
               (case write_next threads t t x s1 of
                  Inl e \<Rightarrow> Some (Inl e)
                | Inr s2 \<Rightarrow> Some (Inr (set_pc t PCas s2))))
      | PCas \<Rightarrow>
          (case read_next t t s of
             Inl e \<Rightarrow> Some (Inl e)
           | Inr (expected, s1) \<Rightarrow>
               if ok
               then (if fst (last (hist s1)) = expected
                     then Some (Inr (set_pc t PDone (cas_release t (Node t) s1))) else None)
               else (case relaxed_load t j s1 of
                       None \<Rightarrow> None
                     | Some (x, s2) \<Rightarrow>
                         (case write_next threads t t x s2 of
                            Inl e \<Rightarrow> Some (Inl e)
                          | Inr s3 \<Rightarrow> Some (Inr s3))))
      | _ \<Rightarrow> None)"

text \<open>Following a pointer that is not to a node is a fault.\<close>

definition consumer_exec :: "nat \<Rightarrow> nat \<Rightarrow> sll \<Rightarrow> (sll_fault + sll) option" where
  "consumer_exec threads t s =
     (case pc s t of
        CExchange \<Rightarrow>
          (case exchange_acquire t Null s of (head, s1) \<Rightarrow> Some (Inr (set_pc t (CLoop head) s1)))
      | CLoop Deleted \<Rightarrow> Some (Inl (Fault OutOfBounds))
      | CLoop (Node orphan) \<Rightarrow>
          (case read_next t orphan s of
             Inl e \<Rightarrow> Some (Inl e)
           | Inr (head, s1) \<Rightarrow> Some (Inr (set_pc t (CAssert orphan head) s1)))
      | CAssert orphan head \<Rightarrow>
          (case read_next t orphan s of
             Inl e \<Rightarrow> Some (Inl e)
           | Inr (x, s1) \<Rightarrow>
               if x = Deleted then Some (Inl (Fault AssertFailed))
               else Some (Inr (set_pc t (CDelete orphan head) s1)))
      | CDelete orphan head \<Rightarrow>
          (case write_next threads t orphan Deleted s of
             Inl e \<Rightarrow> Some (Inl e)
           | Inr s1 \<Rightarrow> Some (Inr (set_pc t (CLoop head) s1)))
      | _ \<Rightarrow> None)"

inductive sll_step :: "nat \<Rightarrow> sll \<Rightarrow> sll_fault + sll \<Rightarrow> bool" for threads where
  producer: "producer_exec threads t j ok s = Some r \<Longrightarrow> sll_step threads s r"
| consumer: "consumer_exec threads t s = Some r \<Longrightarrow> sll_step threads s r"

inductive sll_reachable :: "nat \<Rightarrow> nat \<Rightarrow> sll \<Rightarrow> bool" for np nc where
  init: "sll_reachable np nc (sll_init np nc)"
| step: "sll_reachable np nc s \<Longrightarrow> sll_step (np + nc) s (Inr s') \<Longrightarrow> sll_reachable np nc s'"

section \<open>The end of main\<close>

definition all_joined :: "nat \<Rightarrow> sll \<Rightarrow> bool" where
  "all_joined threads s \<longleftrightarrow> (\<forall>t < threads. pc s t = PDone \<or> pc s t = CLoop Null)"

text \<open>The two counting loops of \<^verbatim>\<open>main\<close>, after \<^verbatim>\<open>pthread_join\<close>, and its assertion.\<close>

partial_function (option) count_list :: "(nat \<Rightarrow> ptr) \<Rightarrow> ptr \<Rightarrow> nat \<Rightarrow> (fault + nat) option" where
  "count_list next_of l count =
     (case l of
        Null \<Rightarrow> Some (Inr count)
      | Deleted \<Rightarrow> Some (Inl OutOfBounds)
      | Node n \<Rightarrow> count_list next_of (next_of n) (count + 1))"

definition count_deleted :: "nat \<Rightarrow> (nat \<Rightarrow> ptr) \<Rightarrow> nat" where
  "count_deleted np next_of = length (filter (\<lambda>i. next_of i = Deleted) [0..<np])"

definition main_assert :: "nat \<Rightarrow> sll \<Rightarrow> (fault + bool) option" where
  "main_assert np s =
     (case count_list (nxt s) (fst (last (hist s))) 0 of
        None \<Rightarrow> None
      | Some (Inl e) \<Rightarrow> Some (Inl e)
      | Some (Inr count) \<Rightarrow> Some (Inr (count + count_deleted np (nxt s) = np)))"

text \<open>A run with a given schedule: the thread, the position of its load, and the outcome.\<close>

fun sll_run :: "nat \<Rightarrow> nat \<Rightarrow> (nat \<times> nat \<times> bool) list \<Rightarrow> sll \<Rightarrow> sll option" where
  "sll_run np nc [] s = Some s"
| "sll_run np nc ((t, j, ok) # ts) s =
     (case (if t < np then producer_exec (np + nc) t j ok s else consumer_exec (np + nc) t s) of
        Some (Inr s') \<Rightarrow> sll_run np nc ts s'
      | _ \<Rightarrow> None)"

lemma sll_run_reachable:
  "sll_run np nc ts s = Some s' \<Longrightarrow> sll_reachable np nc s \<Longrightarrow> sll_reachable np nc s'"
  by (induction np nc ts s rule: sll_run.induct)
    (auto split: option.splits sum.splits if_splits intro: sll_reachable.step sll_step.intros)

end
