(* ===== verification/LockFreeListInv.thy ===== *)
theory LockFreeListInv
  imports LockFreeList
begin

text \<open>
  Why the list of \<open>LockFreeList\<close> is right: every node is in one place, with its producer, in the
  list, with the consumer that took it, or deleted; and whoever has a node, or can get it next,
  has all accesses to it in its clock.
\<close>

section \<open>Paths\<close>

fun path :: "(nat \<Rightarrow> ptr) \<Rightarrow> ptr \<Rightarrow> nat list \<Rightarrow> bool" where
  "path h x [] \<longleftrightarrow> x = Null"
| "path h x (n # ns) \<longleftrightarrow> x = Node n \<and> path h (h n) ns"

lemma path_upd [simp]: "n \<notin> set ns \<Longrightarrow> path (h(n := v)) x ns = path h x ns"
  by (induction ns arbitrary: x) auto

lemma path_Null [simp]: "path h Null ns \<longleftrightarrow> ns = []"
  by (cases ns) auto

lemma path_not_Deleted: "path h x ns \<Longrightarrow> n \<in> set ns \<Longrightarrow> h n \<noteq> Deleted"
proof (induction ns arbitrary: x)
  case (Cons m ns)
  then show ?case by (cases ns) auto
qed simp

lemma path_start: "path h x ns \<Longrightarrow> x \<noteq> Deleted"
  by (cases ns) auto

lemma count_list_path: "path h x ns \<Longrightarrow> count_list h x k = Some (Inr (k + length ns))"
proof (induction ns arbitrary: x k)
  case Nil
  then show ?case by (simp add: count_list.simps)
next
  case (Cons n ns)
  then show ?case by (subst count_list.simps) simp
qed

section \<open>The invariant\<close>

datatype place = Own | InList | Held nat | Gone

text \<open>All accesses to \<^verbatim>\<open>next\<close> of a node are in a clock.\<close>

definition knows :: "sll \<Rightarrow> clock \<Rightarrow> nat \<Rightarrow> bool" where
  "knows s V n \<longleftrightarrow> snd (wr s n) \<le> V (fst (wr s n)) \<and> (\<forall>u. rd s n u \<le> V u)"

fun holds_chain :: "(nat \<Rightarrow> ptr) \<Rightarrow> sll_pc \<Rightarrow> nat list \<Rightarrow> bool" where
  "holds_chain h (CLoop x) R \<longleftrightarrow> path h x R"
| "holds_chain h (CAssert n x) R \<longleftrightarrow> path h (Node n) R \<and> h n = x"
| "holds_chain h (CDelete n x) R \<longleftrightarrow> path h (Node n) R \<and> h n = x"
| "holds_chain h p R \<longleftrightarrow> R = []"

definition list_value :: "sll \<Rightarrow> ptr" where "list_value s = fst (last (hist s))"
definition list_clock :: "sll \<Rightarrow> clock" where "list_clock s = snd (last (hist s))"

definition producing :: "sll_pc \<Rightarrow> bool" where
  "producing p \<longleftrightarrow> p = PLoad \<or> p = PCas"

definition sll_inv :: "nat \<Rightarrow> sll \<Rightarrow> (nat \<Rightarrow> place) \<Rightarrow> nat list \<Rightarrow> (nat \<Rightarrow> nat list) \<Rightarrow> bool" where
  "sll_inv np s at L R \<longleftrightarrow>
     hist s \<noteq> [] \<and>
     (\<forall>t. producing (pc s t) \<longleftrightarrow> t < np \<and> at t = Own) \<and>
     (\<forall>t < np. pc s t = PDone \<or> producing (pc s t)) \<and>
     set L = {n. n < np \<and> at n = InList} \<and> distinct L \<and> path (nxt s) (list_value s) L \<and>
     (\<forall>t. set (R t) = {n. n < np \<and> at n = Held t} \<and> distinct (R t) \<and> holds_chain (nxt s) (pc s t) (R t)) \<and>
     (\<forall>n < np. at n = Gone \<longrightarrow> nxt s n = Deleted) \<and>
     (\<forall>n < np. at n = Own \<longrightarrow> knows s (clk s n) n) \<and>
     (\<forall>n < np. at n = InList \<longrightarrow> knows s (list_clock s) n) \<and>
     (\<forall>n < np. \<forall>t. at n = Held t \<longrightarrow> knows s (clk s t) n)"

lemma sll_invD:
  assumes "sll_inv np s at L R"
  shows "hist s \<noteq> []"
    "producing (pc s t) \<longleftrightarrow> t < np \<and> at t = Own"
    "t < np \<Longrightarrow> pc s t = PDone \<or> producing (pc s t)"
    "set L = {n. n < np \<and> at n = InList}"
    "distinct L"
    "path (nxt s) (list_value s) L"
    "set (R t) = {n. n < np \<and> at n = Held t}"
    "distinct (R t)"
    "holds_chain (nxt s) (pc s t) (R t)"
    "n < np \<Longrightarrow> at n = Gone \<Longrightarrow> nxt s n = Deleted"
    "n < np \<Longrightarrow> at n = Own \<Longrightarrow> knows s (clk s n) n"
    "n < np \<Longrightarrow> at n = InList \<Longrightarrow> knows s (list_clock s) n"
    "n < np \<Longrightarrow> at n = Held t \<Longrightarrow> knows s (clk s t) n"
  using assms unfolding sll_inv_def by blast+

lemma sll_invI:
  assumes "hist s \<noteq> []"
    and "\<And>t. producing (pc s t) \<longleftrightarrow> t < np \<and> at t = Own"
    and "\<And>t. t < np \<Longrightarrow> pc s t = PDone \<or> producing (pc s t)"
    and "set L = {n. n < np \<and> at n = InList}"
    and "distinct L"
    and "path (nxt s) (list_value s) L"
    and "\<And>t. set (R t) = {n. n < np \<and> at n = Held t}"
    and "\<And>t. distinct (R t)"
    and "\<And>t. holds_chain (nxt s) (pc s t) (R t)"
    and "\<And>n. n < np \<Longrightarrow> at n = Gone \<Longrightarrow> nxt s n = Deleted"
    and "\<And>n. n < np \<Longrightarrow> at n = Own \<Longrightarrow> knows s (clk s n) n"
    and "\<And>n. n < np \<Longrightarrow> at n = InList \<Longrightarrow> knows s (list_clock s) n"
    and "\<And>t n. n < np \<Longrightarrow> at n = Held t \<Longrightarrow> knows s (clk s t) n"
  shows "sll_inv np s at L R"
  unfolding sll_inv_def by (intro conjI allI impI) (assumption | rule assms)+

lemma sll_inv_init: "sll_inv np (sll_init np nc) (\<lambda>n. Own) [] (\<lambda>_. [])"
  by (auto simp: sll_inv_def sll_init_def producing_def list_value_def knows_def)

section \<open>Accesses\<close>

lemma knows_read: "knows s (clk s t) n \<Longrightarrow> \<exists>x s'. read_next t n s = Inr (x, s')"
  by (simp add: knows_def read_next_def)

lemma knows_write: "knows s (clk s t) n \<Longrightarrow> \<exists>s'. write_next threads t n x s = Inr s'"
  by (simp add: knows_def write_next_def)

text \<open>
  An access keeps the other nodes as they are and, by a thread that knows the node, leaves the
  thread with that knowledge.
\<close>

lemma read_nextD:
  assumes "read_next t n s = Inr (x, s')"
  shows "x = nxt s n" "hist s' = hist s" "clk s' = clk s" "nxt s' = nxt s" "pc s' = pc s"
    "wr s' = wr s" "seen s' = seen s" "\<And>m V. m \<noteq> n \<Longrightarrow> knows s' V m = knows s V m"
    "knows s (clk s t) n \<Longrightarrow> knows s' (clk s t) n"
  using assms by (auto simp: read_next_def knows_def split: if_splits)

lemma write_nextD:
  assumes "write_next threads t n x s = Inr s'"
  shows "hist s' = hist s" "clk s' = clk s" "nxt s' = (nxt s)(n := x)" "pc s' = pc s"
    "\<And>m V. m \<noteq> n \<Longrightarrow> knows s' V m = knows s V m"
    "knows s (clk s t) n \<Longrightarrow> knows s' (clk s t) n"
  using assms by (auto simp: write_next_def knows_def split: if_splits)

lemma knows_mono: "knows s V n \<Longrightarrow> (\<And>u. V u \<le> W u) \<Longrightarrow> knows s W n"
  unfolding knows_def by (meson order_trans)

lemma knows_same: "wr s' = wr s \<Longrightarrow> rd s' = rd s \<Longrightarrow> knows s' V n = knows s V n"
  by (simp add: knows_def)

text \<open>Who holds a node when a thread accesses it does not change.\<close>

lemma inv_read:
  assumes "sll_inv np s at L R" "read_next t n s = Inr (x, s')"
    and "n < np \<Longrightarrow> at n = Own \<and> t = n \<or> at n = Held t"
  shows "sll_inv np s' at L R"
proof -
  note d = read_nextD[OF assms(2)]
  have k: "knows s' V m" if "knows s V m" "m \<noteq> n \<or> V = clk s t" for V m
    using that d(8,9) by (cases "m = n") auto
  show ?thesis
    using assms(1,3) unfolding sll_inv_def list_value_def list_clock_def d(2-5)
    by (auto intro!: k)
qed

lemma inv_set_pc:
  assumes "sll_inv np s at L R" "producing p = producing (pc s t)"
    and "t < np \<Longrightarrow> p = PDone \<or> producing p" and "holds_chain (nxt s) p (R t)"
  shows "sll_inv np (set_pc t p s) at L R"
proof -
  have "knows (set_pc t p s) V n = knows s V n" for V n
    by (simp add: set_pc_def knows_def)
  then show ?thesis
    using assms unfolding sll_inv_def list_value_def list_clock_def
    by (auto simp: set_pc_def)
qed

lemma inv_seen:
  assumes "sll_inv np s at L R" "s' = s\<lparr>seen := x\<rparr>"
  shows "sll_inv np s' at L R"
proof -
  have "knows s' V n = knows s V n" for V n
    using assms(2) by (simp add: knows_def)
  then show ?thesis
    using assms unfolding sll_inv_def list_value_def list_clock_def by auto
qed

text \<open>A producer writes the \<^verbatim>\<open>next\<close> of its own node.\<close>

lemma inv_write_own:
  assumes "sll_inv np s at L R" "write_next threads t t x s = Inr s'" "t < np" "at t = Own"
  shows "sll_inv np s' at L R"
proof -
  note d = write_nextD[OF assms(2)]
  have notin: "t \<notin> set L" "t \<notin> set (R u)" for u
    using assms(1,4) by (auto simp: sll_inv_def)
  have chain: "holds_chain ((nxt s)(t := x)) (pc s u) (R u)" for u
  proof -
    have "holds_chain (nxt s) (pc s u) (R u)"
      using assms(1) by (simp add: sll_inv_def)
    then show ?thesis
      using notin(2)[of u] by (cases "pc s u"; cases "R u") auto
  qed
  have k: "knows s' V m" if "knows s V m" "m \<noteq> t \<or> V = clk s t" for V m
    using that d(5,6) by (cases "m = t") auto
  show ?thesis
    using assms(1,3,4) notin(1) chain unfolding sll_inv_def list_value_def list_clock_def d(1-4)
    by (auto intro!: k)
qed

section \<open>Moving nodes\<close>

lemma inv_cas:
  assumes inv: "sll_inv np s at L R" and pc: "pc s t = PCas"
    and eq: "list_value s = nxt s t"
  shows "sll_inv np (set_pc t PDone (cas_release t (Node t) s)) (at(t := InList)) (t # L) R"
proof -
  let ?s = "set_pc t PDone (cas_release t (Node t) s)"
  note i = sll_invD[OF inv]
  have t: "t < np" "at t = Own"
    using i(2)[of t] pc by (auto simp: producing_def)
  have upd: "nxt ?s = nxt s" "list_value ?s = Node t"
    "list_clock ?s = join_clock (clk s t) (list_clock s)" "pc ?s = (pc s)(t := PDone)"
    "clk ?s = (clk s)(t := (clk s t)(t := clk s t t + 1))" "hist ?s \<noteq> []"
    by (simp_all add: set_pc_def cas_release_def list_value_def list_clock_def)
  have same: "knows ?s V n = knows s V n" for V n
    by (simp add: knows_def set_pc_def cas_release_def)
  have R: "R t = []"
    using i(9)[of t] pc by simp
  have tick: "knows ?s (clk ?s u) n" if "knows s (clk s u) n" for u n
    unfolding same upd using that by (rule knows_mono) auto
  show ?thesis
  proof (rule sll_invI)
    show "producing (pc ?s u) \<longleftrightarrow> u < np \<and> (at(t := InList)) u = Own" for u
      using i(2)[of u] by (simp add: upd producing_def)
    show "pc ?s u = PDone \<or> producing (pc ?s u)" if "u < np" for u
      using i(3)[OF that] by (simp add: upd)
    show "set (t # L) = {n. n < np \<and> (at(t := InList)) n = InList}"
      using i(4) t by auto
    show "distinct (t # L)"
      using i(4,5) t by simp
    show "path (nxt ?s) (list_value ?s) (t # L)"
      using i(6) eq by (simp add: upd)
    show "set (R u) = {n. n < np \<and> (at(t := InList)) n = Held u}" for u
      unfolding i(7) using t by (intro Collect_cong) simp
    show "holds_chain (nxt ?s) (pc ?s u) (R u)" for u
      using i(9)[of u] R by (simp add: upd)
    show "nxt ?s n = Deleted" if "n < np" "(at(t := InList)) n = Gone" for n
      using i(10)[of n] that by (simp add: upd split: if_splits)
    show "knows ?s (clk ?s n) n" if "n < np" "(at(t := InList)) n = Own" for n
      using i(11)[of n] that tick by (simp split: if_splits)
    show "knows ?s (list_clock ?s) n" if "n < np" "(at(t := InList)) n = InList" for n
    proof (cases "n = t")
      case True
      then show ?thesis
        unfolding same upd using i(11)[OF t] by (auto intro!: knows_mono[of s "clk s t"] simp: join_clock_def)
    next
      case False
      then show ?thesis
        unfolding same upd using i(12)[of n] that
        by (auto intro!: knows_mono[of s "list_clock s"] simp: join_clock_def)
    qed
    show "knows ?s (clk ?s u) n" if "n < np" "(at(t := InList)) n = Held u" for u n
      using i(13)[of n u] that tick by (simp split: if_splits)
  qed (use upd i(8) in auto)
qed

lemma inv_exchange:
  assumes inv: "sll_inv np s at L R" and pc: "pc s t = CExchange"
    and ex: "exchange_acquire t Null s = (x, s')"
  shows "sll_inv np (set_pc t (CLoop x) s') (\<lambda>n. if at n = InList then Held t else at n) [] (R(t := L))"
proof -
  let ?s = "set_pc t (CLoop x) s'" and ?at = "\<lambda>n. if at n = InList then Held t else at n"
  note i = sll_invD[OF inv]
  have upd: "nxt ?s = nxt s" "list_value ?s = Null" "x = list_value s"
    "pc ?s = (pc s)(t := CLoop x)" "clk ?s = (clk s)(t := join_clock (clk s t) (list_clock s))"
    "hist ?s \<noteq> []"
    using ex by (auto simp: set_pc_def exchange_acquire_def list_value_def list_clock_def)
  have same: "knows ?s V n = knows s V n" for V n
    using ex by (auto simp: knows_def set_pc_def exchange_acquire_def)
  have np: "\<not> t < np"
    using i(3)[of t] pc by (auto simp: producing_def)
  have none: "at n \<noteq> Held t" if "n < np" for n
    using i(7)[of t] i(9)[of t] pc that by auto
  have more: "knows ?s (clk ?s u) n" if "knows s (clk s u) n" for u n
    unfolding same upd(5) using that by (rule knows_mono) (auto simp: join_clock_def)
  show ?thesis
  proof (rule sll_invI)
    show "producing (pc ?s u) \<longleftrightarrow> u < np \<and> ?at u = Own" for u
      using i(2)[of u] np by (cases "u = t") (auto simp: upd(4) producing_def)
    show "pc ?s u = PDone \<or> producing (pc ?s u)" if "u < np" for u
      using i(3)[OF that] that np by (simp add: upd(4))
    show "set ((R(t := L)) u) = {n. n < np \<and> ?at n = Held u}" for u
      using i(4) i(7)[of u] none by auto
    show "holds_chain (nxt ?s) (pc ?s u) ((R(t := L)) u)" for u
      unfolding upd(1,4) using i(6) i(9)[of u] upd(3) by simp
    show "nxt ?s n = Deleted" if "n < np" "?at n = Gone" for n
      using i(10)[of n] that by (simp add: upd(1) split: if_splits)
    show "knows ?s (clk ?s n) n" if "n < np" "?at n = Own" for n
      using i(11)[of n] that more by (simp split: if_splits)
    show "knows ?s (clk ?s u) n" if "n < np" "?at n = Held u" for u n
    proof (cases "at n = InList")
      case True
      then have "u = t" using that by simp
      then show ?thesis
        unfolding same upd(5) using i(12)[OF that(1) True]
        by (auto intro!: knows_mono[of s "list_clock s"] simp: join_clock_def)
    next
      case False
      then show ?thesis using i(13)[of n u] that more by simp
    qed
  qed (use upd(2,6) i(5,8) in \<open>auto split: if_splits\<close>)
qed

lemma inv_delete:
  assumes inv: "sll_inv np s at L R" and pc: "pc s t = CDelete n x"
    and w: "write_next threads t n Deleted s = Inr s'"
  shows "sll_inv np (set_pc t (CLoop x) s') (at(n := Gone)) L (R(t := tl (R t)))"
proof -
  let ?s = "set_pc t (CLoop x) s'"
  note d = write_nextD[OF w] and i = sll_invD[OF inv]
  have "path (nxt s) (Node n) (R t)" "nxt s n = x"
    using i(9)[of t] pc by simp_all
  then obtain ns where R: "R t = n # ns" "path (nxt s) x ns"
    by (cases "R t") auto
  have n: "n \<notin> set ns" "distinct ns"
    using i(8)[of t] R(1) by simp_all
  have held: "n < np" "at n = Held t"
    using i(7)[of t] R(1) by auto
  have upd: "nxt ?s = (nxt s)(n := Deleted)" "list_value ?s = list_value s" "list_clock ?s = list_clock s"
    "pc ?s = (pc s)(t := CLoop x)" "clk ?s = clk s" "hist ?s = hist s"
    using d(1-4) by (simp_all add: set_pc_def list_value_def list_clock_def)
  have same: "knows ?s V m = knows s V m" if "m \<noteq> n" for V m
    using d(5)[OF that] by (simp add: set_pc_def knows_def)
  have notin: "n \<notin> set L" "u \<noteq> t \<Longrightarrow> n \<notin> set (R u)" for u
    using i(4) i(7)[of u] held by auto
  have np: "\<not> t < np"
    using i(3)[of t] pc by (auto simp: producing_def)
  show ?thesis
  proof (rule sll_invI)
    show "producing (pc ?s u) \<longleftrightarrow> u < np \<and> (at(n := Gone)) u = Own" for u
      using i(2)[of u] np held by (auto simp: upd producing_def)
    show "pc ?s u = PDone \<or> producing (pc ?s u)" if "u < np" for u
      using i(3)[OF that] that np by (auto simp: upd)
    show "set L = {m. m < np \<and> (at(n := Gone)) m = InList}"
      unfolding i(4) using held by (intro Collect_cong) simp
    show "path (nxt ?s) (list_value ?s) L"
      using i(6) notin(1) by (simp add: upd)
    show "set ((R(t := tl (R t))) u) = {m. m < np \<and> (at(n := Gone)) m = Held u}" for u
    proof (cases "u = t")
      case True
      have "m \<in> set ns \<longleftrightarrow> m \<noteq> n \<and> m < np \<and> at m = Held t" for m
        using i(7)[of t] n(1) unfolding R(1) by (metis (mono_tags, lifting) list.set_intros(2) mem_Collect_eq set_ConsD)
      then show ?thesis using True R(1) by auto
    next
      case False
      then show ?thesis using held by (simp only: i(7) fun_upd_other[OF False]) (intro Collect_cong, auto)
    qed
    show "holds_chain (nxt ?s) (pc ?s u) ((R(t := tl (R t))) u)" for u
    proof (cases "u = t")
      case True
      then show ?thesis using R n by (simp add: upd)
    next
      case False
      then show ?thesis
        using i(9)[of u] notin(2)[of u] by (cases "pc s u"; cases "R u") (auto simp: upd)
    qed
    show "nxt ?s m = Deleted" if "m < np" "(at(n := Gone)) m = Gone" for m
      using i(10)[of m] that by (simp add: upd split: if_splits)
    show "knows ?s (clk ?s m) m" if "m < np" "(at(n := Gone)) m = Own" for m
      using i(11)[of m] that by (simp add: same upd split: if_splits)
    show "knows ?s (list_clock ?s) m" if "m < np" "(at(n := Gone)) m = InList" for m
      using i(12)[of m] that by (simp add: same upd split: if_splits)
    show "knows ?s (clk ?s u) m" if "m < np" "(at(n := Gone)) m = Held u" for u m
      using i(13)[of m u] that by (simp add: same upd split: if_splits)
  qed (use upd i(1,5,8) n R in auto)
qed

section \<open>Steps\<close>

definition sll_ok :: "nat \<Rightarrow> sll \<Rightarrow> bool" where
  "sll_ok np s \<longleftrightarrow> (\<exists>at L R. sll_inv np s at L R)"

lemma sll_okI: "sll_inv np s at L R \<Longrightarrow> sll_ok np s"
  unfolding sll_ok_def by blast

lemma relaxed_loadD:
  "relaxed_load t j s = Some (x, s') \<Longrightarrow> s' = s\<lparr>seen := (seen s)(t := j)\<rparr>"
  by (simp add: relaxed_load_def split: if_splits)

text \<open>A producer stores what it loaded.\<close>

lemma load_and_store:
  assumes inv: "sll_inv np s at L R" and pc: "producing (pc s t)"
    and l: "relaxed_load t j s = Some (x, s1)"
  obtains s2 where "write_next threads t t x s1 = Inr s2" "sll_inv np s2 at L R" "pc s2 = pc s"
proof -
  note s1 = relaxed_loadD[OF l]
  note i = sll_invD[OF inv_seen[OF inv s1]]
  have t: "t < np" "at t = Own"
    using i(2)[of t] pc s1 by simp_all
  obtain s2 where w: "write_next threads t t x s1 = Inr s2"
    using knows_write[OF i(11)[OF t]] by blast
  show ?thesis
    using that[OF w inv_write_own[OF inv_seen[OF inv s1] w t]] write_nextD(4)[OF w] s1 by simp
qed

lemma producer_ok:
  assumes inv: "sll_inv np s at L R" and e: "producer_exec threads t j ok s = Some r"
  shows "\<exists>s'. r = Inr s' \<and> sll_ok np s'"
proof (cases "pc s t")
  case PLoad
  then obtain x s1 where l: "relaxed_load t j s = Some (x, s1)"
    using e by (auto simp: producer_exec_def split: option.splits)
  obtain s2 where s2: "write_next threads t t x s1 = Inr s2" "sll_inv np s2 at L R" "pc s2 = pc s"
    using load_and_store[OF inv _ l] PLoad by (auto simp: producing_def)
  have "sll_inv np (set_pc t PCas s2) at L R"
    using sll_invD(9)[OF s2(2), of t] sll_invD(2)[OF inv, of t] s2(3) PLoad
    by (intro inv_set_pc[OF s2(2)]) (auto simp: producing_def)
  then show ?thesis
    using e PLoad l s2(1) by (auto simp: producer_exec_def intro: sll_okI)
next
  case PCas
  note i = sll_invD[OF inv]
  have t: "t < np" "at t = Own"
    using i(2)[of t] PCas by (auto simp: producing_def)
  obtain expected s1 where r: "read_next t t s = Inr (expected, s1)"
    using knows_read[OF i(11)[OF t]] by blast
  note d = read_nextD[OF r]
  have inv1: "sll_inv np s1 at L R"
    using inv_read[OF inv r] t by simp
  show ?thesis
  proof (cases ok)
    case True
    then have "list_value s1 = nxt s1 t" "r = Inr (set_pc t PDone (cas_release t (Node t) s1))"
      using e PCas r d(1,4) by (auto simp: producer_exec_def list_value_def split: if_splits)
    then show ?thesis
      using inv_cas[OF inv1, of t] PCas d(5) by (auto intro: sll_okI)
  next
    case False
    then obtain x s2 where l: "relaxed_load t j s1 = Some (x, s2)"
      using e PCas r by (auto simp: producer_exec_def split: option.splits)
    obtain s3 where s3: "write_next threads t t x s2 = Inr s3" "sll_inv np s3 at L R"
      using load_and_store[OF inv1 _ l] PCas d(5) by (auto simp: producing_def)
    have "r = Inr s3"
      using e PCas r False l s3(1) by (simp add: producer_exec_def)
    then show ?thesis using sll_okI[OF s3(2)] by blast
  qed
qed (use e in \<open>auto simp: producer_exec_def\<close>)

text \<open>The node at the head of what a consumer took is its own, and not deleted.\<close>

lemma held_head:
  assumes inv: "sll_inv np s at L R" and p: "path (nxt s) (Node n) (R t)"
  shows "n < np" "at n = Held t" "knows s (clk s t) n" "nxt s n \<noteq> Deleted"
proof -
  note i = sll_invD[OF inv]
  have n: "n \<in> set (R t)"
    using p by (cases "R t") auto
  then show h: "n < np" "at n = Held t"
    unfolding i(7) by auto
  show "knows s (clk s t) n" "nxt s n \<noteq> Deleted"
    using i(13)[OF h] path_not_Deleted[OF p n] by auto
qed

lemma consumer_read:
  assumes inv: "sll_inv np s at L R" and p: "path (nxt s) (Node n) (R t)"
    and q: "\<not> producing q" "\<not> producing (pc s t)" "holds_chain (nxt s) q (R t)"
  shows "\<exists>s'. read_next t n s = Inr (nxt s n, s') \<and> sll_inv np (set_pc t q s') at L R"
proof -
  note h = held_head[OF inv p]
  obtain x s' where r: "read_next t n s = Inr (x, s')"
    using knows_read[OF h(3)] by blast
  note d = read_nextD[OF r]
  have t: "t < np \<Longrightarrow> q = PDone \<or> producing q"
    using sll_invD(3)[OF inv, of t] sll_invD(9)[OF inv, of t] h p q(2)
    by (cases "R t") auto
  have "sll_inv np (set_pc t q s') at L R"
    using q t d(4,5) h by (intro inv_set_pc[OF inv_read[OF inv r]]) auto
  then show ?thesis
    using r d(1) by simp
qed

lemma consumer_ok:
  assumes inv: "sll_inv np s at L R" and e: "consumer_exec threads t s = Some r"
  shows "\<exists>s'. r = Inr s' \<and> sll_ok np s'"
proof (cases "pc s t")
  case CExchange
  obtain x s1 where x: "exchange_acquire t Null s = (x, s1)"
    by (cases "exchange_acquire t Null s") auto
  then show ?thesis
    using e CExchange inv_exchange[OF inv CExchange x] by (auto simp: consumer_exec_def intro: sll_okI)
next
  case (CLoop head)
  have p: "path (nxt s) head (R t)"
    using sll_invD(9)[OF inv, of t] CLoop by simp
  show ?thesis
  proof (cases head)
    case (Node n)
    then show ?thesis
      using e CLoop p consumer_read[OF inv, of n t "CAssert n (nxt s n)"]
      by (auto simp: consumer_exec_def producing_def intro: sll_okI)
  qed (use e CLoop path_start[OF p] in \<open>auto simp: consumer_exec_def\<close>)
next
  case (CAssert n head)
  have p: "path (nxt s) (Node n) (R t)" "nxt s n = head"
    using sll_invD(9)[OF inv, of t] CAssert by simp_all
  show ?thesis
    using e CAssert p consumer_read[OF inv p(1), of "CDelete n head"] held_head(4)[OF inv p(1)]
    by (auto simp: consumer_exec_def producing_def intro: sll_okI)
next
  case (CDelete n head)
  have p: "path (nxt s) (Node n) (R t)"
    using sll_invD(9)[OF inv, of t] CDelete by simp
  obtain s1 where w: "write_next threads t n Deleted s = Inr s1"
    using knows_write[OF held_head(3)[OF inv p]] by blast
  then show ?thesis
    using e CDelete inv_delete[OF inv CDelete w] by (auto simp: consumer_exec_def intro: sll_okI)
qed (use e in \<open>auto simp: consumer_exec_def\<close>)

lemma step_ok: "sll_step threads s r \<Longrightarrow> sll_ok np s \<Longrightarrow> \<exists>s'. r = Inr s' \<and> sll_ok np s'"
  unfolding sll_ok_def[of np s] by (auto elim!: sll_step.cases dest: producer_ok consumer_ok)

lemma reachable_ok: "sll_reachable np nc s \<Longrightarrow> sll_ok np s"
proof (induction rule: sll_reachable.induct)
  case init
  show ?case by (rule sll_okI[OF sll_inv_init])
next
  case (step s s')
  then show ?case using step_ok by fastforce
qed

section \<open>The end of main\<close>

text \<open>A thread that does not exist never gets to do anything.\<close>

lemma pc_of_accesses [simp]:
  "pc (set_pc u p s) = (pc s)(u := p)" "pc (cas_release u x s) = pc s"
  "pc (snd (exchange_acquire u x s)) = pc s"
  by (simp_all add: set_pc_def cas_release_def exchange_acquire_def)

lemma relaxed_load_pc: "relaxed_load u j s = Some (x, s') \<Longrightarrow> pc s' = pc s"
  by (drule relaxed_loadD) simp

lemma producer_pc: "producer_exec threads u j ok s = Some (Inr s') \<Longrightarrow> t \<noteq> u \<Longrightarrow> pc s' t = pc s t"
  unfolding producer_exec_def
  by (cases "pc s u")
    (auto split: option.splits sum.splits if_splits
      dest!: read_nextD(5) write_nextD(4) relaxed_load_pc)

lemma consumer_pc: "consumer_exec threads u s = Some (Inr s') \<Longrightarrow> t \<noteq> u \<Longrightarrow> pc s' t = pc s t"
  unfolding consumer_exec_def
  by (cases "pc s u")
    (auto simp: case_prod_unfold split: ptr.splits sum.splits if_splits
      dest!: read_nextD(5) write_nextD(4))

lemma step_pc:
  assumes "sll_step threads s (Inr s')" "pc s t = CLoop Null"
  shows "pc s' t = CLoop Null"
  using assms(1)
proof cases
  case (producer u j ok)
  then show ?thesis
    using assms(2) producer_pc[OF producer, of t] by (cases "t = u") (auto simp: producer_exec_def)
next
  case (consumer u)
  then show ?thesis
    using assms(2) consumer_pc[OF consumer, of t] by (cases "t = u") (auto simp: consumer_exec_def)
qed

lemma no_other_threads: "sll_reachable np nc s \<Longrightarrow> np + nc \<le> t \<Longrightarrow> pc s t = CLoop Null"
  by (induction rule: sll_reachable.induct) (auto simp: sll_init_def dest: step_pc)

lemma card_places: "card {n. n < np \<and> P n} + card {n. n < np \<and> \<not> P n} = np" for np :: nat
proof -
  have "card {n. n < np \<and> P n} + card {n. n < np \<and> \<not> P n} =
    card ({n. n < np \<and> P n} \<union> {n. n < np \<and> \<not> P n})"
    by (rule card_Un_disjoint[symmetric]) auto
  also have "{n. n < np \<and> P n} \<union> {n. n < np \<and> \<not> P n} = {n. n < np}" by blast
  finally show ?thesis by simp
qed

lemma count_deleted_card: "count_deleted np h = card {n. n < np \<and> h n = Deleted}"
proof -
  have "count_deleted np h = card (set (filter (\<lambda>i. h i = Deleted) [0..<np]))"
    unfolding count_deleted_def by (rule distinct_card[symmetric]) simp
  moreover have "set (filter (\<lambda>i. h i = Deleted) [0..<np]) = {n. n < np \<and> h n = Deleted}"
    by auto
  ultimately show ?thesis by simp
qed

text \<open>When all threads are done every node is in the list or deleted.\<close>

lemma joined_places:
  assumes inv: "sll_inv np s at L R" and joined: "\<And>t. pc s t = PDone \<or> pc s t = CLoop Null"
    and n: "n < np"
  shows "n \<in> set L \<longleftrightarrow> nxt s n \<noteq> Deleted"
proof -
  note i = sll_invD[OF inv]
  have "\<not> producing (pc s n)"
    using joined[of n] by (auto simp: producing_def)
  then have own: "at n \<noteq> Own"
    using i(2)[of n] n by blast
  have "R t = []" for t
    using i(9)[of t] joined[of t] by auto
  then have held: "at n \<noteq> Held t" for t
    using i(7)[of t] n by auto
  show ?thesis
    using path_not_Deleted[OF i(6), of n] i(4,10) n own held by (cases "at n") auto
qed

section \<open>Properties\<close>

text \<open>
  \<^bold>\<open>C6\<close>: with any numbers of producers and consumers, no step of \<^verbatim>\<open>genmc_sll_test\<close> fails: no node
  is deleted twice (the assertion of \<^verbatim>\<open>consumer_thread\<close>), no pointer that is not to a node is
  followed, and no access of \<^verbatim>\<open>next\<close> is a data race.
\<close>

theorem sll_never_fails:
  assumes "sll_reachable np nc s" and "sll_step (np + nc) s r"
  shows "\<exists>s'. r = Inr s'"
  using step_ok[OF assms(2) reachable_ok[OF assms(1)]] by blast

text \<open>
  A run of two producers and a consumer: the compare-and-exchange of the second producer fails
  twice, because of the first producer and because of the consumer.
\<close>

definition sll_example :: "(nat \<times> nat \<times> bool) list" where
  "sll_example =
     [(0, 0, True), (1, 0, True), (0, 0, True), (1, 1, False), (2, 0, True),
      (1, 2, False), (1, 0, True), (2, 0, True), (2, 0, True), (2, 0, True)]"

lemma all_less_3: "(\<forall>u < 3. P u) \<longleftrightarrow> P 0 \<and> P 1 \<and> P (2 :: nat)"
  by (auto simp: numeral_eq_Suc less_Suc_eq)

lemma join_clock_apply: "join_clock V W u = max (V u) (W u)"
  by (simp add: join_clock_def)

lemmas sll_simps =
  producer_exec_def consumer_exec_def relaxed_load_def read_next_def write_next_def cas_release_def
  exchange_acquire_def set_pc_def join_clock_apply all_less_3 sll_init_def sll_example_def

text \<open>In the example the consumer is about to check the node that it took.\<close>

theorem sll_never_fails_witness:
  "\<exists>s. sll_run 2 1 (take 8 sll_example) (sll_init 2 1) = Some s \<and> pc s 2 = CAssert 0 Null \<and>
     (\<exists>r s'. sll_step 3 s r \<and> r = Inr s')"
proof -
  obtain s where s: "sll_run 2 1 (take 8 sll_example) (sll_init 2 1) = Some s" "pc s 2 = CAssert 0 Null"
    by (simp add: sll_simps)
  have reach: "sll_reachable 2 1 s"
    by (rule sll_run_reachable[OF s(1) sll_reachable.init])
  have "consumer_exec 3 2 s \<noteq> None"
    using s(2) by (simp add: consumer_exec_def split: sum.split)
  then obtain r where "consumer_exec 3 2 s = Some r" by blast
  then have r: "sll_step 3 s r" by (rule sll_step.consumer)
  then have "\<exists>s'. r = Inr s'"
    using sll_never_fails[OF reach, of r] by simp
  then show ?thesis using s r by blast
qed

text \<open>
  \<^bold>\<open>C12\<close>: when all threads have been joined, the nodes that are still in the list and the deleted
  ones are together all the nodes: the last assertion of \<^verbatim>\<open>main\<close> holds, and the counting loop
  ends.
\<close>

theorem sll_final_assertion:
  assumes "sll_reachable np nc s" and "all_joined (np + nc) s"
  shows "main_assert np s = Some (Inr True)"
proof -
  obtain at L R where inv: "sll_inv np s at L R"
    using reachable_ok[OF assms(1)] unfolding sll_ok_def by blast
  note i = sll_invD[OF inv]
  have joined: "pc s t = PDone \<or> pc s t = CLoop Null" for t
    using assms(2) no_other_threads[OF assms(1), of t] unfolding all_joined_def by (cases "t < np + nc") auto
  have "set L = {n. n < np \<and> nxt s n \<noteq> Deleted}"
    using i(4) joined_places[OF inv joined] by blast
  then have "length L = card {n. n < np \<and> nxt s n \<noteq> Deleted}"
    using distinct_card[OF i(5)] by simp
  then show ?thesis
    using count_list_path[OF i(6), of 0] card_places[of np "\<lambda>n. nxt s n = Deleted"]
    by (simp add: main_assert_def count_deleted_card list_value_def)
qed

theorem sll_final_assertion_witness:
  "\<exists>s. sll_run 2 1 sll_example (sll_init 2 1) = Some s \<and> nxt s 0 = Deleted \<and> nxt s 1 = Null \<and>
     main_assert 2 s = Some (Inr True)"
proof -
  obtain s where s: "sll_run 2 1 sll_example (sll_init 2 1) = Some s" "all_joined 3 s"
    "nxt s 0 = Deleted" "nxt s 1 = Null"
    by (simp add: sll_simps all_joined_def)
  have "sll_reachable 2 1 s"
    by (rule sll_run_reachable[OF s(1) sll_reachable.init])
  then have "main_assert 2 s = Some (Inr True)"
    using sll_final_assertion[of 2 1 s] s(2) by simp
  then show ?thesis using s by blast
qed

end
