(* ===== verification/BufferReset.thy ===== *)
theory BufferReset
  imports Prelude
begin

text \<open>
  The two threads of \<^verbatim>\<open>src/genmc_buffer_reset_test.c\<close>, each on its own, and its \<^verbatim>\<open>main\<close>. The functions that awk scripts cut out of evio when
  the test is built are parameters; what they do, and what the other thread does meanwhile, is in
  their effect on the part of the state that a thread does not own. Pointers into the buffer are
  offsets from \<^verbatim>\<open>block_start\<close>.
\<close>

section \<open>State\<close>

text \<open>\<open>others\<close> is everything that belongs to the producer or to evio's functions.\<close>

record 'o consumer =
  gptr_val :: nat
  egptr_val :: nat
  m_total_read :: int
  m_get_area_block_node :: nat
  others :: 'o

text \<open>
  \<open>update_get_area\<close> returns whether there is a next block, the current pointer and how much is
  available; \<open>contents\<close> is the buffer that both threads share.
\<close>

record 'o stream_functions =
  update_get_area :: "'o consumer \<Rightarrow> bool \<times> nat \<times> int \<times> 'o consumer"
  store_last_gptr :: "nat \<Rightarrow> 'o \<Rightarrow> 'o"
  contents :: "'o \<Rightarrow> char list"

definition consumer_init :: "'o \<Rightarrow> 'o consumer" where
  "consumer_init k = \<lparr>gptr_val = 0, egptr_val = 0, m_total_read = 0, m_get_area_block_node = 0, others = k\<rparr>"

section \<open>Reading\<close>

definition streambuf_gbump :: "nat \<Rightarrow> 'o consumer \<Rightarrow> 'o consumer" where
  "streambuf_gbump n c = c\<lparr>gptr_val := gptr_val c + n\<rparr>"

definition increment_total_read :: "int \<Rightarrow> 'o consumer \<Rightarrow> 'o consumer" where
  "increment_total_read n c = c\<lparr>m_total_read := m_total_read c + n\<rparr>"

text \<open>For \<^verbatim>\<open>update_get_area\<close>, which may only set the get area to the block there is.\<close>

definition setg :: "nat \<Rightarrow> nat \<Rightarrow> nat \<Rightarrow> 'o consumer \<Rightarrow> fault + 'o consumer" where
  "setg start g eg c =
     (if start = 0 then Inr (c\<lparr>gptr_val := g, egptr_val := eg\<rparr>) else Inl AssertFailed)"

text \<open>The first loop, for the number of rounds that are left: the last pointer and what is available.\<close>

fun get_area_loop :: "'o stream_functions \<Rightarrow> nat \<Rightarrow> nat \<Rightarrow> int \<Rightarrow> 'o consumer \<Rightarrow> fault + nat \<times> int \<times> 'o consumer" where
  "get_area_loop F loops cur_gptr available c =
     (if available = 0 \<and> loops > 0
      then (case update_get_area F c of
              (at_end_and_has_next_block, cur_gptr, available, c) \<Rightarrow>
                if cur_gptr \<noteq> gptr_val c \<or> at_end_and_has_next_block \<or> m_get_area_block_node c \<noteq> 0
                then Inl AssertFailed
                else get_area_loop F (loops - 1) cur_gptr available c)
      else Inr (cur_gptr, available, c))"

declare get_area_loop.simps [simp del]

text \<open>The second loop: the characters that are copied.\<close>

fun copy_loop :: "char list \<Rightarrow> nat \<Rightarrow> nat \<Rightarrow> nat \<Rightarrow> int \<Rightarrow> fault + char list" where
  "copy_loop buf gptr n 0 available = Inr []"
| "copy_loop buf gptr n (Suc remaining) available =
     (if \<not> gptr + (n - Suc remaining) < length buf then Inl OutOfBounds
      else let ch = buf ! (gptr + (n - Suc remaining))
           in if available - 1 = 0 then Inr [ch]
              else map_sum id (Cons ch) (copy_loop buf gptr n remaining (available - 1)))"

definition my_xsgetn_a :: "'o stream_functions \<Rightarrow> nat \<Rightarrow> 'o consumer \<Rightarrow> fault + char list \<times> 'o consumer" where
  "my_xsgetn_a F n c =
     (case get_area_loop F 2 0 0 c of
        Inl e \<Rightarrow> Inl e
      | Inr (cur_gptr, available, c) \<Rightarrow>
          if available = 0 then Inr ([], c)
          else (case copy_loop (contents F (others c)) (gptr_val c) n n available of
                  Inl e \<Rightarrow> Inl e
                | Inr chs \<Rightarrow>
                    let c1 = streambuf_gbump (length chs) c;
                        c2 = c1\<lparr>others := store_last_gptr F (cur_gptr + length chs) (others c1)\<rparr>
                    in Inr (chs, increment_total_read (int (length chs)) c2)))"

text \<open>\<^verbatim>\<open>consumer_thread\<close>: the characters read, \<^verbatim>\<open>CONSUMER_RESET_AFTER_TWO_BYTES\<close>, and the state.\<close>

definition consumer_thread :: "'o stream_functions \<Rightarrow> 'o consumer \<Rightarrow> fault + char list \<times> bool \<times> 'o consumer" where
  "consumer_thread F c =
     (case my_xsgetn_a F 2 c of
        Inl e \<Rightarrow> Inl e
      | Inr (first, c1) \<Rightarrow>
          if \<not> (length first = 0 \<or> length first = 2) \<or> gptr_val c1 \<noteq> length first then Inl AssertFailed
          else (case my_xsgetn_a F 1 c1 of
                  Inl e \<Rightarrow> Inl e
                | Inr (second, c2) \<Rightarrow>
                    let rlen = length first + length second;
                        reset = (rlen = 3 \<and> gptr_val c2 = 1)
                    in if rlen \<noteq> 3 \<or> reset \<or> gptr_val c2 = 3 then Inr (first @ second, reset, c2)
                       else Inl AssertFailed))"

section \<open>Writing\<close>

text \<open>\<open>last_pptr\<close> is \<^verbatim>\<open>m_last_pptr\<close>, which only the producer writes, and only in evio's functions.\<close>

record 'o producer =
  pptr_val :: nat
  buffer :: "char list"
  p_others :: 'o

record 'o producer_functions =
  update_put_area :: "'o producer \<Rightarrow> nat \<times> int \<times> 'o producer"
  sync_egptr :: "nat \<Rightarrow> 'o \<Rightarrow> 'o"
  last_pptr :: "'o \<Rightarrow> nat"

definition producer_init :: "'o \<Rightarrow> 'o producer" where
  "producer_init k = \<lparr>pptr_val = 0, buffer = replicate 4 (CHR 0x00), p_others = k\<rparr>"

definition pbump :: "nat \<Rightarrow> 'o producer \<Rightarrow> 'o producer" where
  "pbump n p = p\<lparr>pptr_val := pptr_val p + n\<rparr>"

definition put_char :: "nat \<Rightarrow> char \<Rightarrow> 'o producer \<Rightarrow> fault + 'o producer" where
  "put_char i ch p =
     (if pptr_val p + i < length (buffer p)
      then Inr (p\<lparr>buffer := (buffer p)[pptr_val p + i := ch]\<rparr>) else Inl OutOfBounds)"

text \<open>\<^verbatim>\<open>sync_egptr(pptr_val)\<close>, with the assertion behind it.\<close>

definition flush_it :: "'o producer_functions \<Rightarrow> 'o producer \<Rightarrow> fault + 'o producer" where
  "flush_it P p =
     (let k = sync_egptr P (pptr_val p) (p_others p)
      in if last_pptr P k = pptr_val p then Inr (p\<lparr>p_others := k\<rparr>) else Inl AssertFailed)"

text \<open>The first half writes two characters, the second half one; the flag is \<^verbatim>\<open>PRODUCER_RESET_AFTER_TWO_BYTES\<close>.\<close>

definition write_two :: "'o producer_functions \<Rightarrow> 'o producer \<Rightarrow> fault + 'o producer" where
  "write_two P p =
     (case update_put_area P p of
        (cur_pptr, available, p) \<Rightarrow>
          if \<not> (available = 4 \<and> cur_pptr = pptr_val p \<and> cur_pptr = 0) then Inl AssertFailed
          else (case put_char 0 (CHR ''A'') p of
                  Inl e \<Rightarrow> Inl e
                | Inr p \<Rightarrow>
                    (case put_char 1 (CHR ''B'') p of
                       Inl e \<Rightarrow> Inl e
                     | Inr p \<Rightarrow> let p = pbump 2 p in if pptr_val p = 2 then flush_it P p else Inl AssertFailed)))"

definition write_third :: "'o producer_functions \<Rightarrow> 'o producer \<Rightarrow> fault + bool \<times> 'o producer" where
  "write_third P p =
     (case update_put_area P p of
        (cur_pptr, available, p) \<Rightarrow>
          let reset = (available = 4) in
          if \<not> ((available = 2 \<or> available = 4) \<and> cur_pptr = pptr_val p \<and> int cur_pptr + available = 4 \<and>
                (reset \<and> pptr_val p = 0 \<or> \<not> reset \<and> pptr_val p = 2) \<and> last_pptr P (p_others p) = pptr_val p)
          then Inl AssertFailed
          else (case put_char 0 (CHR ''C'') p of
                  Inl e \<Rightarrow> Inl e
                | Inr p \<Rightarrow> map_sum id (\<lambda>p. (reset, p)) (flush_it P (pbump 1 p))))"

definition producer_thread :: "'o producer_functions \<Rightarrow> 'o producer \<Rightarrow> fault + bool \<times> 'o producer" where
  "producer_thread P p = (case write_two P p of Inl e \<Rightarrow> Inl e | Inr p \<Rightarrow> write_third P p)"

section \<open>What the functions promise\<close>

text \<open>
  As the comments in the test say: \<^verbatim>\<open>update_get_area\<close> returns the pointer as it is afterwards, there
  is never a next block, and only this call moves the pointer, back to the beginning, when all that
  was written before has been read. What is available are the characters that were flushed and not
  yet read, and the producer flushes after two of the three characters and after the last one.
\<close>

definition get_area_ok :: "'o stream_functions \<Rightarrow> bool" where
  "get_area_ok F \<longleftrightarrow>
     (\<forall>c next cur available c'. update_get_area F c = (next, cur, available, c') \<longrightarrow>
        cur = gptr_val c' \<and> \<not> next \<and> m_get_area_block_node c' = m_get_area_block_node c \<and>
        m_total_read c' = m_total_read c \<and>
        (gptr_val c' = gptr_val c \<or> gptr_val c' = 0 \<and> m_total_read c \<in> {2, 3}) \<and>
        (\<exists>flushed \<in> {0, 2, 3}. available = max 0 (flushed - m_total_read c) \<and>
           take (nat available) (drop (gptr_val c') (contents F (others c'))) =
             drop (nat (m_total_read c)) (take (nat flushed) ''ABC'')))"
text \<open>
  \<^verbatim>\<open>update_put_area\<close> returns the pointer as it is afterwards and the room behind it; it leaves the
  pointer where it is or moves it back to the beginning, with \<^verbatim>\<open>m_last_pptr\<close>, and does not write into the
  buffer. \<^verbatim>\<open>sync_egptr\<close> sets \<^verbatim>\<open>m_last_pptr\<close>.
\<close>

definition put_area_ok :: "'o producer_functions \<Rightarrow> bool" where
  "put_area_ok P \<longleftrightarrow>
     (\<forall>p cur available p'. update_put_area P p = (cur, available, p') \<longrightarrow>
        cur = pptr_val p' \<and> available = 4 - int (pptr_val p') \<and> buffer p' = buffer p \<and>
        (pptr_val p' = pptr_val p \<or> pptr_val p' = 0) \<and>
        (last_pptr P (p_others p) = pptr_val p \<longrightarrow> last_pptr P (p_others p') = pptr_val p')) \<and>
     (\<forall>g k. last_pptr P (sync_egptr P g k) = g)"

lemma get_area_okD:
  assumes "get_area_ok F" "update_get_area F c = (next, cur, available, c')"
  shows "cur = gptr_val c' \<and> \<not> next \<and> m_get_area_block_node c' = m_get_area_block_node c \<and>
    m_total_read c' = m_total_read c \<and>
    (gptr_val c' = gptr_val c \<or> gptr_val c' = 0 \<and> m_total_read c \<in> {2, 3}) \<and>
    (\<exists>flushed \<in> {0, 2, 3}. available = max 0 (flushed - m_total_read c) \<and>
       take (nat available) (drop (gptr_val c') (contents F (others c'))) =
         drop (nat (m_total_read c)) (take (nat flushed) ''ABC''))"
  using assms unfolding get_area_ok_def by blast

section \<open>The loops\<close>

text \<open>A state after \<open>update_get_area\<close>, when it started with \<open>c\<close>.\<close>

definition area_of :: "'o stream_functions \<Rightarrow> 'o consumer \<Rightarrow> int \<Rightarrow> 'o consumer \<Rightarrow> bool" where
  "area_of F c available c' \<longleftrightarrow>
     m_get_area_block_node c' = 0 \<and> m_total_read c' = m_total_read c \<and>
     (gptr_val c' = gptr_val c \<or> gptr_val c' = 0 \<and> m_total_read c \<in> {2, 3}) \<and>
     (\<exists>flushed \<in> {0, 2, 3}. available = max 0 (flushed - m_total_read c) \<and>
        take (nat available) (drop (gptr_val c') (contents F (others c'))) =
          drop (nat (m_total_read c)) (take (nat flushed) ''ABC''))"

lemma get_area_loop_result:
  assumes "get_area_ok F" "m_get_area_block_node c = 0"
  shows "\<exists>cur available c'. get_area_loop F 2 0 0 c = Inr (cur, available, c') \<and>
    cur = gptr_val c' \<and> area_of F c available c'"
proof -
  obtain n1 g1 a1 c1 where u1: "update_get_area F c = (n1, g1, a1, c1)" by (metis prod_cases4)
  obtain n2 g2 a2 c2 where u2: "update_get_area F c1 = (n2, g2, a2, c2)" by (metis prod_cases4)
  note first = get_area_okD[OF assms(1) u1] and second = get_area_okD[OF assms(1) u2]
  have area1: "area_of F c a1 c1" using first assms(2) by (simp add: area_of_def)
  have "gptr_val c2 = gptr_val c \<or> gptr_val c2 = 0 \<and> m_total_read c \<in> {2, 3}"
    using first second by auto
  then have "area_of F c a2 c2" using first second assms(2) by (simp add: area_of_def)
  with first second area1 show ?thesis
    using u1 u2 assms(2) by (simp add: get_area_loop.simps)
qed

lemma copy_loop_result:
  assumes "r \<le> n" "1 \<le> a" "g + (n - r) + min r (nat a) \<le> length buf"
  shows "copy_loop buf g n r a = Inr (take (min r (nat a)) (drop (g + (n - r)) buf))"
  using assms
proof (induction r arbitrary: a)
  case 0
  then show ?case by simp
next
  case (Suc r)
  let ?i = "g + (n - Suc r)"
  have i: "?i < length buf" "g + (n - r) = Suc ?i"
    using Suc.prems by (simp_all add: Suc_diff_Suc min_def split: if_splits)
  then have d: "drop ?i buf = buf ! ?i # drop (Suc ?i) buf" by (simp add: Cons_nth_drop_Suc)
  show ?case
  proof (cases "a = 1")
    case True
    then show ?thesis using i d by simp
  next
    case False
    then have a: "1 \<le> a - 1" "min (Suc r) (nat a) = Suc (min r (nat (a - 1)))"
      using Suc.prems(2) by (simp_all add: min_def) linarith+
    have "copy_loop buf g n r (a - 1) = Inr (take (min r (nat (a - 1))) (drop (Suc ?i) buf))"
      using Suc.IH[of "a - 1"] Suc.prems a i(2) by simp
    then show ?thesis using False i(1) a(2) d by simp
  qed
qed

lemma my_xsgetn_a_result:
  assumes "get_area_ok F" "m_get_area_block_node c = 0" "0 \<le> m_total_read c"
  obtains chs c' g flushed where "my_xsgetn_a F n c = Inr (chs, c')" "flushed \<in> {0, 2, 3 :: nat}"
    "chs = take n (drop (nat (m_total_read c)) (take flushed ''ABC''))"
    "m_total_read c' = m_total_read c + int (length chs)" "m_get_area_block_node c' = 0"
    "g = gptr_val c \<or> g = 0 \<and> m_total_read c \<in> {2, 3}" "gptr_val c' = g + length chs"
proof -
  obtain cur available c1 where loop: "get_area_loop F 2 0 0 c = Inr (cur, available, c1)"
    and cur: "cur = gptr_val c1" and area: "area_of F c available c1"
    using get_area_loop_result[OF assms(1,2)] by blast
  obtain flushed :: int where fl: "flushed \<in> {0, 2, 3}" "available = max 0 (flushed - m_total_read c)"
    "take (nat available) (drop (gptr_val c1) (contents F (others c1))) =
       drop (nat (m_total_read c)) (take (nat flushed) ''ABC'')"
    using area unfolding area_of_def by blast
  have nf: "nat flushed \<in> {0, 2, 3}" using fl(1) by auto
  have len: "length (drop (nat (m_total_read c)) (take (nat flushed) ''ABC'')) = nat available"
  proof -
    have "length (drop (nat (m_total_read c)) (take (nat flushed) ''ABC'')) = nat flushed - nat (m_total_read c)"
      using nf by auto
    also have "\<dots> = nat available"
      unfolding fl(2) using assms(3) by (cases "flushed \<le> m_total_read c") (simp_all add: nat_diff_distrib')
    finally show ?thesis .
  qed
  show thesis
  proof (cases "available = 0")
    case True
    then have "my_xsgetn_a F n c = Inr ([], c1)" using loop by (simp add: my_xsgetn_a_def)
    then show thesis
      using that[of "[]" c1 "nat flushed" "gptr_val c1"] area len nf True by (simp add: area_of_def)
  next
    case False
    then have av: "1 \<le> available" using fl(2) by simp
    let ?buf = "contents F (others c1)"
    have room: "gptr_val c1 + nat available \<le> length ?buf"
    proof -
      have "min (length ?buf - gptr_val c1) (nat available) = nat available"
        using arg_cong[OF fl(3), of length] unfolding len by simp
      then have "nat available \<le> length ?buf - gptr_val c1" by (metis min.cobounded1)
      then show ?thesis using av by linarith
    qed
    define chs where "chs = take n (drop (nat (m_total_read c)) (take (nat flushed) ''ABC''))"
    have "copy_loop ?buf (gptr_val c1) n n available = Inr (take (min n (nat available)) (drop (gptr_val c1) ?buf))"
      using copy_loop_result[of n n available "gptr_val c1" ?buf] av room by simp
    also have "take (min n (nat available)) (drop (gptr_val c1) ?buf) = chs"
      unfolding chs_def fl(3)[symmetric] by simp
    finally have "my_xsgetn_a F n c = Inr (chs, increment_total_read (int (length chs))
        ((streambuf_gbump (length chs) c1)\<lparr>others := store_last_gptr F (cur + length chs) (others c1)\<rparr>))"
      using loop False by (simp add: my_xsgetn_a_def Let_def streambuf_gbump_def)
    then show thesis
      using that[OF _ nf chs_def, of _ "gptr_val c1"] area
      by (simp add: area_of_def increment_total_read_def streambuf_gbump_def)
  qed
qed

section \<open>The threads\<close>

lemma consumer_result:
  assumes "get_area_ok F"
  shows "\<exists>chs reset c. consumer_thread F (consumer_init k) = Inr (chs, reset, c) \<and>
    chs = take (length chs) ''ABC'' \<and> m_total_read c = int (length chs) \<and>
    (reset \<longleftrightarrow> length chs = 3 \<and> gptr_val c = 1) \<and>
    (gptr_val c = length chs \<or> 2 \<le> length chs \<and> gptr_val c = length chs - 2)"
proof -
  let ?c = "consumer_init k"
  have c: "m_get_area_block_node ?c = 0" "m_total_read ?c = 0" "gptr_val ?c = 0"
    by (simp_all add: consumer_init_def)
  have start: "0 \<le> m_total_read ?c" using c by simp
  obtain first c1 f1 g1 where r1: "my_xsgetn_a F 2 ?c = Inr (first, c1)"
    and s1: "f1 \<in> {0, 2, 3 :: nat}" "first = take 2 (drop (nat (m_total_read ?c)) (take f1 ''ABC''))"
      "m_total_read c1 = m_total_read ?c + int (length first)" "m_get_area_block_node c1 = 0"
      "g1 = gptr_val ?c \<or> g1 = 0 \<and> m_total_read ?c \<in> {2, 3}" "gptr_val c1 = g1 + length first"
    by (rule my_xsgetn_a_result[OF assms c(1) start])
  have first: "first = [] \<or> first = ''AB''" using s1(1,2) c by auto
  have c1: "m_total_read c1 = int (length first)" "gptr_val c1 = length first" "0 \<le> m_total_read c1"
    using s1(3,5,6) c by simp_all
  obtain second c2 f2 g2 where r2: "my_xsgetn_a F 1 c1 = Inr (second, c2)"
    and s2: "f2 \<in> {0, 2, 3 :: nat}" "second = take 1 (drop (nat (m_total_read c1)) (take f2 ''ABC''))"
      "m_total_read c2 = m_total_read c1 + int (length second)" "m_get_area_block_node c2 = 0"
      "g2 = gptr_val c1 \<or> g2 = 0 \<and> m_total_read c1 \<in> {2, 3}" "gptr_val c2 = g2 + length second"
    by (rule my_xsgetn_a_result[OF assms s1(4) c1(3)])
  have "first = [] \<and> second = [] \<or> first = [] \<and> second = ''A'' \<or> first = ''AB'' \<and> second = [] \<or>
      first = ''AB'' \<and> second = ''C''"
    using first s2(1,2) c1(1) by auto
  then show ?thesis
    using r1 r2 c1 s2(3,5,6) by (auto simp: consumer_thread_def Let_def)
qed

lemma put_area_okD:
  assumes "put_area_ok P" "update_put_area P p = (cur, available, p')"
  shows "cur = pptr_val p' \<and> available = 4 - int (pptr_val p') \<and> buffer p' = buffer p \<and>
    (pptr_val p' = pptr_val p \<or> pptr_val p' = 0) \<and>
    (last_pptr P (p_others p) = pptr_val p \<longrightarrow> last_pptr P (p_others p') = pptr_val p')"
  by (rule assms(1)[unfolded put_area_ok_def, THEN conjunct1, THEN spec, THEN spec, THEN spec, THEN spec,
      THEN mp, OF assms(2)])

lemma producer_result:
  assumes "put_area_ok P"
  shows "\<exists>reset p. producer_thread P (producer_init k) = Inr (reset, p) \<and>
    last_pptr P (p_others p) = pptr_val p \<and>
    (if reset then pptr_val p = 1 \<and> buffer p = [CHR ''C'', CHR ''B'', CHR 0x00, CHR 0x00]
     else pptr_val p = 3 \<and> buffer p = [CHR ''A'', CHR ''B'', CHR ''C'', CHR 0x00])"
proof -
  obtain g1 a1 p1 where u1: "update_put_area P (producer_init k) = (g1, a1, p1)" by (metis prod_cases3)
  then have p1: "g1 = pptr_val p1" "a1 = 4" "buffer p1 = replicate 4 (CHR 0x00)" "pptr_val p1 = 0"
    using put_area_okD[OF assms u1] by (auto simp: producer_init_def)
  have sync: "last_pptr P (sync_egptr P g k) = g" for g k using assms by (simp add: put_area_ok_def)
  define p2 where "p2 = p1\<lparr>pptr_val := 2, buffer := [CHR ''A'', CHR ''B'', CHR 0x00, CHR 0x00],
    p_others := sync_egptr P 2 (p_others p1)\<rparr>"
  have two: "write_two P (producer_init k) = Inr p2"
    using u1 p1 sync by (simp add: write_two_def put_char_def pbump_def flush_it_def p2_def Let_def numeral_eq_Suc)
  obtain g3 a3 p3 where u3: "update_put_area P p2 = (g3, a3, p3)" by (metis prod_cases3)
  have "last_pptr P (p_others p2) = pptr_val p2" by (simp add: p2_def sync)
  then have p3: "g3 = pptr_val p3" "a3 = 4 - int (pptr_val p3)" "buffer p3 = buffer p2"
    "pptr_val p3 = 2 \<or> pptr_val p3 = 0" "last_pptr P (p_others p3) = pptr_val p3"
    using put_area_okD[OF assms u3] by (auto simp: p2_def)
  from p3(4) show ?thesis
    using u3 p3 two sync
    by (elim disjE) (simp_all add: producer_thread_def write_third_def put_char_def pbump_def flush_it_def p2_def Let_def
        numeral_eq_Suc, blast+)
qed

section \<open>main\<close>

text \<open>
  After both threads have been joined: \<^verbatim>\<open>m_total_reset\<close>, \<^verbatim>\<open>m_resetting\<close>, \<^verbatim>\<open>m_last_gptr\<close> and what
  \<^verbatim>\<open>get_data_size\<close> returns, which evio's functions leave.
\<close>

record end_values =
  m_total_reset :: int
  m_resetting :: bool
  m_last_gptr :: nat
  get_data_size :: int

text \<open>\<^verbatim>\<open>read_buffer\<close>, of which only what was read is not zero.\<close>

definition read_buffer :: "char list \<Rightarrow> char list" where
  "read_buffer chs = chs @ replicate (3 - length chs) (CHR 0x00)"

text \<open>The branches of \<^verbatim>\<open>main\<close> for the numbers of characters that were read.\<close>

definition sane_total_reset :: "char list \<Rightarrow> end_values \<Rightarrow> bool" where
  "sane_total_reset chs v \<longleftrightarrow>
     (let rlen = length chs; buf = read_buffer chs in
      (rlen = 3 \<longrightarrow> (m_total_reset v = 0 \<or> m_total_reset v = 2) \<and>
         buf ! 0 = CHR ''A'' \<and> buf ! 1 = CHR ''B'' \<and> buf ! 2 = CHR ''C'') \<and>
      (rlen = 2 \<longrightarrow> (m_total_reset v = 0 \<and> \<not> m_resetting v \<or> m_total_reset v = 2) \<and>
         buf ! 0 = CHR ''A'' \<and> buf ! 1 = CHR ''B'') \<and>
      (rlen = 1 \<longrightarrow> m_total_reset v = 0 \<and> buf ! 0 = CHR ''A'') \<and>
      (rlen = 0 \<longrightarrow> m_total_reset v = 0))"

text \<open>The arguments are the results of the two threads, with the flag and the pointers they leave.\<close>

definition buffer_reset_main ::
  "char list \<Rightarrow> bool \<Rightarrow> nat \<Rightarrow> bool \<Rightarrow> nat \<Rightarrow> nat \<Rightarrow> end_values \<Rightarrow> fault + unit" where
  "buffer_reset_main chs consumer_reset gptr producer_reset pptr m_last_pptr v =
     (if (\<not> consumer_reset \<or> producer_reset) \<and> int pptr = 3 - m_total_reset v \<and> m_last_pptr = pptr \<and>
         m_last_gptr v = gptr \<and> (int pptr - int gptr = 3 - int (length chs) \<or> m_resetting v) \<and>
         get_data_size v = 3 - int (length chs) \<and> sane_total_reset chs v
      then Inr () else Inl AssertFailed)"

text \<open>
  The library's part of it. A reset moves the put area back by the two bytes that were written, and
  is only begun when the consumer has read them; it goes on until the consumer has moved the get
  area back as well, which it only does in a reset; and \<^verbatim>\<open>get_data_size\<close> is the distance of the two pointers,
  of which one is ahead by \<^verbatim>\<open>m_total_reset\<close> as long as they are out of sync.
\<close>

definition reset_ok :: "char list \<Rightarrow> nat \<Rightarrow> bool \<Rightarrow> nat \<Rightarrow> end_values \<Rightarrow> bool" where
  "reset_ok chs gptr producer_reset pptr v \<longleftrightarrow>
     m_total_reset v = (if producer_reset then 2 else 0) \<and>
     (producer_reset \<longrightarrow> 2 \<le> length chs) \<and> (gptr \<noteq> length chs \<longrightarrow> producer_reset) \<and>
     (m_resetting v \<longleftrightarrow> producer_reset \<and> gptr = length chs) \<and> m_last_gptr v = gptr \<and>
     get_data_size v = int pptr - int gptr + (if m_resetting v then m_total_reset v else 0)"

lemma buffer_reset_main_passes:
  assumes chs: "chs = take (length chs) ''ABC''" and flag: "consumer_reset \<longleftrightarrow> length chs = 3 \<and> gptr = 1"
    and gptr: "gptr = length chs \<or> 2 \<le> length chs \<and> gptr = length chs - 2"
    and pptr: "pptr = (if producer_reset then 1 else 3)" and ok: "reset_ok chs gptr producer_reset pptr v"
  shows "buffer_reset_main chs consumer_reset gptr producer_reset pptr pptr v = Inr ()"
proof -
  have "chs = [] \<or> chs = ''A'' \<or> chs = ''AB'' \<or> chs = ''ABC''"
  proof -
    have "length (take (length chs) ''ABC'') \<le> 3" by simp
    then have "length chs \<le> 3" by (simp only: chs[symmetric])
    then have "length chs = 0 \<or> length chs = 1 \<or> length chs = 2 \<or> length chs = 3" by arith
    then show ?thesis using chs by (elim disjE) (simp_all add: numeral_eq_Suc)
  qed
  then show ?thesis
    using flag gptr pptr ok
    by (elim disjE)
      (simp_all add: buffer_reset_main_def reset_ok_def sane_total_reset_def read_buffer_def numeral_eq_Suc
        split: if_splits)
qed

section \<open>Property\<close>


text \<open>A reset after two characters.\<close>

definition resetting_functions :: "char list stream_functions" where
  "resetting_functions =
     \<lparr>update_get_area = (\<lambda>c.
        if m_total_read c = 2 then (False, 0, 1, c\<lparr>gptr_val := 0, others := ''C''\<rparr>)
        else if m_total_read c = 0
        then (False, gptr_val c, 2, c\<lparr>others := replicate (gptr_val c) (CHR ''.'') @ ''AB''\<rparr>)
        else (False, gptr_val c, max 0 (- m_total_read c), c\<lparr>others := []\<rparr>)),
      store_last_gptr = (\<lambda>g buf. buf), contents = id\<rparr>"

definition resetting_producer :: "nat producer_functions" where
  "resetting_producer =
     \<lparr>update_put_area = (\<lambda>p. (0, 4, p\<lparr>pptr_val := 0, p_others := 0\<rparr>)), sync_egptr = (\<lambda>g k. g), last_pptr = id\<rparr>"

text \<open>The reset is done when both threads have ended.\<close>

definition reset_done :: end_values where
  "reset_done = \<lparr>m_total_reset = 2, m_resetting = False, m_last_gptr = 1, get_data_size = 0\<rparr>"


end
