(* ===== verification/BufferTest.thy ===== *)
theory BufferTest
  imports Prelude
begin

text \<open>
  \<^verbatim>\<open>src/buffer_test.cxx\<close>: text is written to a stream buffer and read back in pieces of other sizes.
  The buffers are evio's: their operations are the parameters \<open>input_buffer\<close> and \<open>output_buffer\<close>,
  and what the program relies on is \<open>input_conforms\<close> and \<open>output_conforms\<close>. An operation that can
  change the buffer returns the new one.
\<close>

section \<open>The operations of evio that are used\<close>

text \<open>
  \<open>dev2buf_put cs\<close> is the \<^verbatim>\<open>memcpy\<close> of \<open>cs\<close> to \<^verbatim>\<open>dev2buf_ptr()\<close> with the \<^verbatim>\<open>dev2buf_bump\<close> after it, and
  \<open>raw_get n\<close> that of \<open>n\<close> characters from \<^verbatim>\<open>raw_gptr()\<close> with the \<^verbatim>\<open>raw_gbump\<close>.
\<close>

record 'b input_buffer =
  dev2buf_contiguous :: "'b \<Rightarrow> nat"
  dev2buf_contiguous_forced :: "'b \<Rightarrow> nat \<times> 'b"
  dev2buf_put :: "char list \<Rightarrow> 'b \<Rightarrow> 'b"
  force_next_contiguous_number_of_bytes :: "'b \<Rightarrow> nat \<times> 'b"
  raw_get :: "nat \<Rightarrow> 'b \<Rightarrow> char list \<times> 'b"
  raw_sgetn :: "nat \<Rightarrow> 'b \<Rightarrow> char list \<times> 'b"

record 'b output_buffer =
  available_contiguous_number_of_bytes :: "'b \<Rightarrow> nat"
  force_available_contiguous_number_of_bytes :: "'b \<Rightarrow> nat \<times> 'b"
  raw_put :: "char list \<Rightarrow> 'b \<Rightarrow> 'b"
  buf2dev_contiguous :: "'b \<Rightarrow> nat"
  buf2dev_contiguous_forced :: "'b \<Rightarrow> nat \<times> 'b"
  buf2dev_get :: "nat \<Rightarrow> 'b \<Rightarrow> char list \<times> 'b"
  raw_sputn :: "char list \<Rightarrow> 'b \<Rightarrow> 'b"
  is_contiguous :: "nat \<Rightarrow> 'b \<Rightarrow> bool"
  unused_in_last_block :: "'b \<Rightarrow> nat"
  buffer_empty :: "'b \<Rightarrow> bool"

section \<open>The loops\<close>

text \<open>
  \<^verbatim>\<open>std::min(len, now())\<close>, and if that is 0 \<^verbatim>\<open>std::min(len, forced())\<close>, as three of the four loops
  have it.
\<close>

definition contiguous_or_forced :: "('b \<Rightarrow> nat) \<Rightarrow> ('b \<Rightarrow> nat \<times> 'b) \<Rightarrow> nat \<Rightarrow> 'b \<Rightarrow> nat \<times> 'b" where
  "contiguous_or_forced now forced len b =
     (let n = min len (now b) in
      if n = 0 then (case forced b of (m, b1) \<Rightarrow> (min len m, b1)) else (n, b))"

text \<open>The loops end because of their assertion: no round moves 0 characters.\<close>

function write_loop ::
    "(nat \<Rightarrow> 'b \<Rightarrow> nat \<times> 'b) \<Rightarrow> (char list \<Rightarrow> 'b \<Rightarrow> 'b) \<Rightarrow> char list \<Rightarrow> 'b \<Rightarrow> fault + 'b" where
  "write_loop next_len put device b =
     (if device = [] then Inr b
      else (case next_len (length device) b of
              (wlen, b1) \<Rightarrow>
                if wlen = 0 then Inl AssertFailed
                else write_loop next_len put (drop wlen device) (put (take wlen device) b1)))"
  by pat_completeness auto
termination by (relation "measure (\<lambda>(_, _, device, _). length device)") auto

function read_loop ::
    "(nat \<Rightarrow> 'b \<Rightarrow> nat \<times> 'b) \<Rightarrow> (nat \<Rightarrow> 'b \<Rightarrow> char list \<times> 'b) \<Rightarrow> nat \<Rightarrow> 'b \<Rightarrow> fault + char list \<times> 'b" where
  "read_loop next_len get len b =
     (if len = 0 then Inr ([], b)
      else (case next_len len b of
              (rlen, b1) \<Rightarrow>
                if rlen = 0 then Inl AssertFailed
                else (case get rlen b1 of
                        (cs, b2) \<Rightarrow>
                          (case read_loop next_len get (len - rlen) b2 of
                             Inl e \<Rightarrow> Inl e
                           | Inr (ds, b3) \<Rightarrow> Inr (cs @ ds, b3)))))"
  by pat_completeness auto
termination by (relation "measure (\<lambda>(_, _, len, _). len)") auto

declare write_loop.simps [simp del] read_loop.simps [simp del]

definition MyInputBuffer_write :: "'b input_buffer \<Rightarrow> char list \<Rightarrow> 'b \<Rightarrow> fault + 'b" where
  "MyInputBuffer_write sb =
     write_loop (contiguous_or_forced (dev2buf_contiguous sb) (dev2buf_contiguous_forced sb)) (dev2buf_put sb)"

definition MyInputBuffer_read :: "'b input_buffer \<Rightarrow> nat \<Rightarrow> 'b \<Rightarrow> fault + char list \<times> 'b" where
  "MyInputBuffer_read sb =
     read_loop (\<lambda>len b. case force_next_contiguous_number_of_bytes sb b of (n, b1) \<Rightarrow> (min len n, b1)) (raw_get sb)"

definition MyOutputBuffer_write :: "'b output_buffer \<Rightarrow> char list \<Rightarrow> 'b \<Rightarrow> fault + 'b" where
  "MyOutputBuffer_write sb =
     write_loop (contiguous_or_forced (available_contiguous_number_of_bytes sb)
       (force_available_contiguous_number_of_bytes sb)) (raw_put sb)"

definition MyOutputBuffer_read :: "'b output_buffer \<Rightarrow> nat \<Rightarrow> 'b \<Rightarrow> fault + char list \<times> 'b" where
  "MyOutputBuffer_read sb =
     read_loop (contiguous_or_forced (buf2dev_contiguous sb) (buf2dev_contiguous_forced sb)) (buf2dev_get sb)"

section \<open>The tests\<close>

definition tlen :: nat where "tlen = 2000"

definition buf1 :: "char list" where
  "buf1 = map (\<lambda>i. char_of (65 + i mod 25)) [0..<tlen]"

text \<open>
  The loop of a test: 25 characters are written and 10 read, until all have been written. The
  result has what was read, the number of characters that are left (\<^verbatim>\<open>size\<close>), and the buffer.
\<close>

function transfer ::
    "(char list \<Rightarrow> 'b \<Rightarrow> fault + 'b) \<Rightarrow> (nat \<Rightarrow> 'b \<Rightarrow> fault + char list \<times> 'b) \<Rightarrow>
     char list \<Rightarrow> nat \<Rightarrow> 'b \<Rightarrow> fault + char list \<times> nat \<times> 'b" where
  "transfer write_fn read_fn device sz b =
     (if device = [] then Inr ([], sz, b)
      else let wlen = min (length device) 25 in
        (case write_fn (take wlen device) b of
           Inl e \<Rightarrow> Inl e
         | Inr b1 \<Rightarrow>
             let sz1 = sz + wlen; rlen = min sz1 10 in
             (case read_fn rlen b1 of
                Inl e \<Rightarrow> Inl e
              | Inr (cs, b2) \<Rightarrow>
                  (case transfer write_fn read_fn (drop wlen device) (sz1 - rlen) b2 of
                     Inl e \<Rightarrow> Inl e
                   | Inr (ds, left, b3) \<Rightarrow> Inr (cs @ ds, left, b3)))))"
  by pat_completeness auto
termination by (relation "measure (\<lambda>(_, _, device, _, _). length device)") auto

declare transfer.simps [simp del]

text \<open>The rest is read at the end, always with \<open>last_read\<close>, and compared; \<^verbatim>\<open>buf2\<close> was cleared before.\<close>

definition round_trip ::
    "(char list \<Rightarrow> 'b \<Rightarrow> fault + 'b) \<Rightarrow> (nat \<Rightarrow> 'b \<Rightarrow> fault + char list \<times> 'b) \<Rightarrow>
     (nat \<Rightarrow> 'b \<Rightarrow> fault + char list \<times> 'b) \<Rightarrow> 'b \<Rightarrow> fault + 'b" where
  "round_trip write_fn read_fn last_read b =
     (case transfer write_fn read_fn buf1 0 b of
        Inl e \<Rightarrow> Inl e
      | Inr (cs, sz, b1) \<Rightarrow>
          (case last_read sz b1 of
             Inl e \<Rightarrow> Inl e
           | Inr (ds, b2) \<Rightarrow>
               if take tlen (cs @ ds @ replicate tlen (char_of (0 :: nat))) = buf1 then Inr b2
               else Inl AssertFailed))"

definition input_test :: "'b input_buffer \<Rightarrow> 'b \<Rightarrow> fault + 'b" where
  "input_test sb b =
     (case round_trip (MyInputBuffer_write sb) (MyInputBuffer_read sb) (MyInputBuffer_read sb) b of
        Inl e \<Rightarrow> Inl e
      | Inr b1 \<Rightarrow>
          round_trip (MyInputBuffer_write sb) (\<lambda>n b. Inr (raw_sgetn sb n b)) (MyInputBuffer_read sb) b1)"

text \<open>The number of rounds of \<^verbatim>\<open>while (sb->is_contiguous(len)) ++len;\<close>, which need not end.\<close>

partial_function (option) contiguous_limit :: "'b output_buffer \<Rightarrow> 'b \<Rightarrow> nat \<Rightarrow> nat option" where
  "contiguous_limit sb b len =
     (if is_contiguous sb len b then contiguous_limit sb b (len + 1) else Some len)"

text \<open>\<^verbatim>\<open>--len\<close> wraps around if the loop had no round; that the buffer is empty is a debug assertion.\<close>

definition output_test :: "'b output_buffer \<Rightarrow> 'b \<Rightarrow> 'b result" where
  "output_test sb b =
     (case contiguous_limit sb b 0 of
        None \<Rightarrow> None
      | Some n \<Rightarrow>
          let len = (if n = 0 then 2 ^ 64 - 1 else n - 1) in
          Some
           (if \<not> buffer_empty sb b \<or> len \<noteq> unused_in_last_block sb b \<or> len = 0 then Inl AssertFailed
            else (case round_trip (MyOutputBuffer_write sb) (MyOutputBuffer_read sb) (MyOutputBuffer_read sb) b of
                    Inl e \<Rightarrow> Inl e
                  | Inr b1 \<Rightarrow>
                      round_trip (\<lambda>cs b. Inr (raw_sputn sb cs b)) (MyOutputBuffer_read sb)
                        (MyOutputBuffer_read sb) b1)))"

section \<open>What the program relies on\<close>

definition max_alloc :: nat where "max_alloc = 1024 * 64"

text \<open>
  A buffer is a queue of characters, \<open>content\<close>. \<open>got n b r\<close>: the result \<open>r\<close> has the first \<open>n\<close> of
  them, and the buffer has them no more.
\<close>

definition got :: "('b \<Rightarrow> bool) \<Rightarrow> ('b \<Rightarrow> char list) \<Rightarrow> nat \<Rightarrow> 'b \<Rightarrow> char list \<times> 'b \<Rightarrow> bool" where
  "got valid content n b r \<longleftrightarrow>
     fst r = take n (content b) \<and> valid (snd r) \<and> content (snd r) = drop n (content b)"

definition stored :: "('b \<Rightarrow> bool) \<Rightarrow> ('b \<Rightarrow> char list) \<Rightarrow> char list \<Rightarrow> 'b \<Rightarrow> 'b \<Rightarrow> bool" where
  "stored valid content cs b b' \<longleftrightarrow> valid b' \<and> content b' = content b @ cs"

text \<open>
  The put area: what \<open>room\<close> says can be written at once, and as long as the buffer holds less than
  \<open>max_alloc\<close> characters \<open>forced\<close> makes room where there is none.
\<close>

definition put_area ::
    "('b \<Rightarrow> bool) \<Rightarrow> ('b \<Rightarrow> char list) \<Rightarrow> ('b \<Rightarrow> nat) \<Rightarrow> ('b \<Rightarrow> nat \<times> 'b) \<Rightarrow> (char list \<Rightarrow> 'b \<Rightarrow> 'b) \<Rightarrow> bool" where
  "put_area valid content room forced put \<longleftrightarrow>
     (\<forall>b cs. valid b \<and> length cs \<le> room b \<longrightarrow> stored valid content cs b (put cs b)) \<and>
     (\<forall>b n b1. valid b \<and> length (content b) < max_alloc \<and> room b = 0 \<and> forced b = (n, b1) \<longrightarrow>
        0 < n \<and> valid b1 \<and> content b1 = content b \<and> room b1 = n)"

definition input_conforms :: "'b input_buffer \<Rightarrow> ('b \<Rightarrow> bool) \<Rightarrow> ('b \<Rightarrow> char list) \<Rightarrow> bool" where
  "input_conforms sb valid content \<longleftrightarrow>
     put_area valid content (dev2buf_contiguous sb) (dev2buf_contiguous_forced sb) (dev2buf_put sb) \<and>
     (\<forall>b n b1. valid b \<and> force_next_contiguous_number_of_bytes sb b = (n, b1) \<longrightarrow>
        valid b1 \<and> content b1 = content b \<and> (content b \<noteq> [] \<longrightarrow> 0 < n) \<and>
        (\<forall>k \<le> min n (length (content b)). got valid content k b1 (raw_get sb k b1))) \<and>
     (\<forall>b n. valid b \<and> n \<le> length (content b) \<longrightarrow> got valid content n b (raw_sgetn sb n b))"

definition output_conforms :: "'b output_buffer \<Rightarrow> ('b \<Rightarrow> bool) \<Rightarrow> ('b \<Rightarrow> char list) \<Rightarrow> bool" where
  "output_conforms sb valid content \<longleftrightarrow>
     put_area valid content (available_contiguous_number_of_bytes sb)
       (force_available_contiguous_number_of_bytes sb) (raw_put sb) \<and>
     (\<forall>b k. valid b \<and> k \<le> buf2dev_contiguous sb b \<and> k \<le> length (content b) \<longrightarrow>
        got valid content k b (buf2dev_get sb k b)) \<and>
     (\<forall>b n b1. valid b \<and> content b \<noteq> [] \<and> buf2dev_contiguous sb b = 0 \<and>
          buf2dev_contiguous_forced sb b = (n, b1) \<longrightarrow>
        0 < n \<and> valid b1 \<and> content b1 = content b \<and> buf2dev_contiguous sb b1 = n) \<and>
     (\<forall>b cs. valid b \<and> length (content b) + length cs \<le> max_alloc \<longrightarrow>
        stored valid content cs b (raw_sputn sb cs b)) \<and>
     (\<forall>b n. valid b \<longrightarrow> (is_contiguous sb n b \<longleftrightarrow> n \<le> unused_in_last_block sb b)) \<and>
     (\<forall>b. valid b \<longrightarrow> (buffer_empty sb b \<longleftrightarrow> content b = []))"

section \<open>The loops move everything\<close>

definition writes_all :: "('b \<Rightarrow> bool) \<Rightarrow> ('b \<Rightarrow> char list) \<Rightarrow> (char list \<Rightarrow> 'b \<Rightarrow> fault + 'b) \<Rightarrow> bool" where
  "writes_all valid content w \<longleftrightarrow>
     (\<forall>cs b. valid b \<and> length (content b) + length cs \<le> max_alloc \<longrightarrow>
        (\<exists>b'. w cs b = Inr b' \<and> stored valid content cs b b'))"

definition reads_all ::
    "('b \<Rightarrow> bool) \<Rightarrow> ('b \<Rightarrow> char list) \<Rightarrow> (nat \<Rightarrow> 'b \<Rightarrow> fault + char list \<times> 'b) \<Rightarrow> bool" where
  "reads_all valid content r \<longleftrightarrow>
     (\<forall>n b. valid b \<and> n \<le> length (content b) \<longrightarrow> (\<exists>x. r n b = Inr x \<and> got valid content n b x))"

lemma write_loop_all:
  assumes step: "\<And>len b wlen b1. valid b \<Longrightarrow> length (content b) < max_alloc \<Longrightarrow> 0 < len \<Longrightarrow>
      next_len len b = (wlen, b1) \<Longrightarrow>
      0 < wlen \<and> wlen \<le> len \<and> (\<forall>cs. length cs = wlen \<longrightarrow> stored valid content cs b (put cs b1))"
  shows "writes_all valid content (write_loop next_len put)"
proof -
  have "\<exists>b'. write_loop next_len put cs b = Inr b' \<and> stored valid content cs b b'"
    if "valid b" "length (content b) + length cs \<le> max_alloc" for cs b
    using that
  proof (induction "length cs" arbitrary: cs b rule: less_induct)
    case less
    show ?case
    proof (cases "cs = []")
      case True
      then show ?thesis using less.prems by (simp add: write_loop.simps stored_def)
    next
      case False
      obtain wlen b1 where n: "next_len (length cs) b = (wlen, b1)" by fastforce
      let ?b = "put (take wlen cs) b1"
      have w: "0 < wlen" "wlen \<le> length cs" "stored valid content (take wlen cs) b ?b"
        using step[OF less.prems(1) _ _ n] less.prems(2) False by auto
      have "\<exists>b'. write_loop next_len put (drop wlen cs) ?b = Inr b' \<and>
          stored valid content (drop wlen cs) ?b b'"
        using less.prems w False by (intro less.hyps) (auto simp: stored_def)
      then show ?thesis
        using n w False by (subst write_loop.simps) (auto simp: stored_def)
    qed
  qed
  then show ?thesis unfolding writes_all_def by blast
qed

lemma read_loop_all:
  assumes step: "\<And>len b rlen b1. valid b \<Longrightarrow> 0 < len \<Longrightarrow> len \<le> length (content b) \<Longrightarrow>
      next_len len b = (rlen, b1) \<Longrightarrow> 0 < rlen \<and> rlen \<le> len \<and> got valid content rlen b (get rlen b1)"
  shows "reads_all valid content (read_loop next_len get)"
proof -
  have "\<exists>x. read_loop next_len get len b = Inr x \<and> got valid content len b x"
    if "valid b" "len \<le> length (content b)" for len b
    using that
  proof (induction len arbitrary: b rule: less_induct)
    case (less len)
    show ?case
    proof (cases "len = 0")
      case True
      then show ?thesis using less.prems by (simp add: read_loop.simps got_def)
    next
      case False
      obtain rlen b1 cs b2 where n: "next_len len b = (rlen, b1)" "get rlen b1 = (cs, b2)" by fastforce
      have r: "0 < rlen" "rlen \<le> len" "got valid content rlen b (cs, b2)"
        using step[OF less.prems(1) _ less.prems(2) n(1)] n(2) False by auto
      have "\<exists>x. read_loop next_len get (len - rlen) b2 = Inr x \<and> got valid content (len - rlen) b2 x"
        using less.prems r by (intro less.IH) (auto simp: got_def)
      then obtain ds b3 where "read_loop next_len get (len - rlen) b2 = Inr (ds, b3)"
        "got valid content (len - rlen) b2 (ds, b3)" by auto
      moreover from this have "got valid content len b (cs @ ds, b3)"
        using r take_add[of rlen "len - rlen" "content b"] by (simp add: got_def)
      ultimately show ?thesis
        using n r(1) False by (subst read_loop.simps) auto
    qed
  qed
  then show ?thesis unfolding reads_all_def by blast
qed

lemma put_areaD:
  assumes "put_area valid content room forced put"
  shows "valid b \<Longrightarrow> length cs \<le> room b \<Longrightarrow> stored valid content cs b (put cs b)"
    and "valid b \<Longrightarrow> length (content b) < max_alloc \<Longrightarrow> room b = 0 \<Longrightarrow> forced b = (n, b1) \<Longrightarrow>
      0 < n \<and> valid b1 \<and> content b1 = content b \<and> room b1 = n"
  using assms unfolding put_area_def by blast+

lemma output_conformsD:
  assumes "output_conforms sb valid content" and "valid b"
  shows "k \<le> buf2dev_contiguous sb b \<Longrightarrow> k \<le> length (content b) \<Longrightarrow>
      got valid content k b (buf2dev_get sb k b)"
    and "content b \<noteq> [] \<Longrightarrow> buf2dev_contiguous sb b = 0 \<Longrightarrow> buf2dev_contiguous_forced sb b = (n, b1) \<Longrightarrow>
      0 < n \<and> valid b1 \<and> content b1 = content b \<and> buf2dev_contiguous sb b1 = n"
    and "is_contiguous sb m b \<longleftrightarrow> m \<le> unused_in_last_block sb b"
    and "buffer_empty sb b \<longleftrightarrow> content b = []"
    and "length (content b) + length cs \<le> max_alloc \<Longrightarrow> stored valid content cs b (raw_sputn sb cs b)"
  using assms unfolding output_conforms_def by blast+

lemma contiguous_or_forcedE:
  assumes "contiguous_or_forced now forced len b = (n, b1)" "0 < len"
  obtains "now b \<noteq> 0" "n = min len (now b)" "b1 = b"
  | m where "now b = 0" "forced b = (m, b1)" "n = min len m"
proof (cases "now b = 0")
  case True
  obtain m b2 where f: "forced b = (m, b2)" by fastforce
  then show thesis
    using that(2)[of m] assms True by (simp add: contiguous_or_forced_def)
next
  case False
  then have "contiguous_or_forced now forced len b = (min len (now b), b)"
    using assms(2) by (simp add: contiguous_or_forced_def Let_def min_def)
  then show thesis
    using that(1) assms(1) False by simp
qed

lemma put_area_writes:
  assumes "put_area valid content room forced put"
  shows "writes_all valid content (write_loop (contiguous_or_forced room forced) put)"
proof (rule write_loop_all)
  fix len b wlen b1
  assume a: "valid b" "length (content b) < max_alloc" "0 < len"
    "contiguous_or_forced room forced len b = (wlen, b1)"
  from a(4,3) show "0 < wlen \<and> wlen \<le> len \<and> (\<forall>cs. length cs = wlen \<longrightarrow> stored valid content cs b (put cs b1))"
  proof (cases rule: contiguous_or_forcedE)
    case 1
    then show ?thesis
      using put_areaD(1)[OF assms a(1)] a(3) by simp
  next
    case (2 m)
    then have "0 < m \<and> valid b1 \<and> content b1 = content b \<and> room b1 = m"
      using put_areaD(2)[OF assms a(1,2)] by blast
    then show ?thesis
      using put_areaD(1)[OF assms, of b1] 2 a(3) by (simp add: stored_def)
  qed
qed

lemma input_loops:
  assumes "input_conforms sb valid content"
  shows "writes_all valid content (MyInputBuffer_write sb)"
    and "reads_all valid content (MyInputBuffer_read sb)"
    and "reads_all valid content (\<lambda>n b. Inr (raw_sgetn sb n b))"
proof -
  show "writes_all valid content (MyInputBuffer_write sb)"
    using assms unfolding MyInputBuffer_write_def input_conforms_def by (blast intro: put_area_writes)
  show "reads_all valid content (MyInputBuffer_read sb)"
    unfolding MyInputBuffer_read_def
  proof (rule read_loop_all)
    fix len b rlen b1
    assume a: "valid b" "0 < len" "len \<le> length (content b)"
      "(case force_next_contiguous_number_of_bytes sb b of (n, b1) \<Rightarrow> (min len n, b1)) = (rlen, b1)"
    then obtain n where n: "force_next_contiguous_number_of_bytes sb b = (n, b1)" "rlen = min len n"
      by (auto split: prod.splits)
    then show "0 < rlen \<and> rlen \<le> len \<and> got valid content rlen b (raw_get sb rlen b1)"
      using assms a(1-3) unfolding input_conforms_def by (fastforce simp: got_def)
  qed
  show "reads_all valid content (\<lambda>n b. Inr (raw_sgetn sb n b))"
    using assms by (simp add: input_conforms_def reads_all_def)
qed

lemma output_loops:
  assumes "output_conforms sb valid content"
  shows "writes_all valid content (MyOutputBuffer_write sb)"
    and "reads_all valid content (MyOutputBuffer_read sb)"
    and "writes_all valid content (\<lambda>cs b. Inr (raw_sputn sb cs b))"
proof -
  show "writes_all valid content (MyOutputBuffer_write sb)"
    using assms unfolding MyOutputBuffer_write_def output_conforms_def by (blast intro: put_area_writes)
  show "reads_all valid content (MyOutputBuffer_read sb)"
    unfolding MyOutputBuffer_read_def
  proof (rule read_loop_all)
    fix len b rlen b1
    assume a: "valid b" "0 < len" "len \<le> length (content b)"
      "contiguous_or_forced (buf2dev_contiguous sb) (buf2dev_contiguous_forced sb) len b = (rlen, b1)"
    note d = output_conformsD[OF assms]
    from a(4,2) show "0 < rlen \<and> rlen \<le> len \<and> got valid content rlen b (buf2dev_get sb rlen b1)"
    proof (cases rule: contiguous_or_forcedE)
      case 1
      then show ?thesis
        using d(1)[OF a(1), of rlen] a(2,3) by simp
    next
      case (2 m)
      moreover have "content b \<noteq> []" using a(2,3) by auto
      ultimately have "0 < m \<and> valid b1 \<and> content b1 = content b \<and> buf2dev_contiguous sb b1 = m"
        using d(2)[OF a(1)] by blast
      then show ?thesis
        using d(1)[of b1 rlen] 2 a(2,3) by (simp add: got_def)
    qed
  qed
  show "writes_all valid content (\<lambda>cs b. Inr (raw_sputn sb cs b))"
    unfolding writes_all_def using output_conformsD(5)[OF assms] by simp
qed

text \<open>What was in the buffer comes out first, then the text, and nothing is lost.\<close>

lemma transfer_all:
  assumes w: "writes_all valid content w" and r: "reads_all valid content r"
    and "valid b" "length (content b) + length device \<le> max_alloc"
  shows "\<exists>cs b'. transfer w r device (length (content b)) b = Inr (cs, length (content b'), b') \<and>
    valid b' \<and> cs @ content b' = content b @ device \<and> length (content b') \<le> max_alloc"
  using assms(3,4)
proof (induction "length device" arbitrary: device b rule: less_induct)
  case less
  show ?case
  proof (cases "device = []")
    case True
    then show ?thesis using less.prems by (simp add: transfer.simps)
  next
    case False
    define wlen where "wlen = min (length device) 25"
    have "length (content b) + length (take wlen device) \<le> max_alloc"
      using less.prems(2) by simp
    then obtain b1 where b1: "w (take wlen device) b = Inr b1" "valid b1"
      "content b1 = content b @ take wlen device"
      using w less.prems(1) unfolding writes_all_def stored_def by blast
    define rlen where "rlen = min (length (content b) + wlen) 10"
    have len1: "length (content b1) = length (content b) + wlen"
      using b1(3) by (simp add: wlen_def)
    then have "rlen \<le> length (content b1)" by (simp add: rlen_def)
    then obtain x where "r rlen b1 = Inr x" "got valid content rlen b1 x"
      using r b1(2) unfolding reads_all_def by blast
    then obtain cs b2 where b2: "r rlen b1 = Inr (cs, b2)" "cs = take rlen (content b1)"
      "valid b2" "content b2 = drop rlen (content b1)"
      by (cases x) (auto simp: got_def)
    have "0 < wlen" "wlen \<le> length device" using False by (simp_all add: wlen_def)
    then have "\<exists>ds b'. transfer w r (drop wlen device) (length (content b2)) b2 =
        Inr (ds, length (content b'), b') \<and>
        valid b' \<and> ds @ content b' = content b2 @ drop wlen device \<and> length (content b') \<le> max_alloc"
      using less.prems False b2(3,4) len1 by (intro less.hyps) auto
    then obtain ds b' where rest: "transfer w r (drop wlen device) (length (content b2)) b2 =
        Inr (ds, length (content b'), b')"
      "valid b'" "ds @ content b' = content b2 @ drop wlen device" "length (content b') \<le> max_alloc"
      by blast
    have "transfer w r device (length (content b)) b = Inr (cs @ ds, length (content b'), b')"
      using False b1(1) b2(1,4) rest(1) len1
      by (subst transfer.simps) (simp add: wlen_def[symmetric] rlen_def[symmetric] Let_def)
    moreover have "(cs @ ds) @ content b' = content b @ device"
      using rest(3) b2(2,4) b1(3) by (metis append.assoc append_take_drop_id)
    ultimately show ?thesis using rest by blast
  qed
qed

lemma round_trip_ok:
  assumes "writes_all valid content w" "reads_all valid content r" "reads_all valid content last_read"
    and "valid b" "content b = []"
  shows "\<exists>b'. round_trip w r last_read b = Inr b' \<and> valid b' \<and> content b' = []"
proof -
  have small: "length (content b) + length buf1 \<le> max_alloc"
    using assms(5) by (simp add: buf1_def tlen_def max_alloc_def)
  obtain cs b1 where t: "transfer w r buf1 0 b = Inr (cs, length (content b1), b1)" "valid b1"
    "cs @ content b1 = buf1"
    using transfer_all[OF assms(1,2,4) small] assms(5) by auto
  obtain x where "last_read (length (content b1)) b1 = Inr x" "got valid content (length (content b1)) b1 x"
    using assms(3) t(2) unfolding reads_all_def by blast
  then obtain b2 where l: "last_read (length (content b1)) b1 = Inr (content b1, b2)" "valid b2" "content b2 = []"
    by (cases x) (auto simp: got_def)
  have "take tlen (cs @ content b1 @ replicate tlen (char_of (0 :: nat))) = buf1"
    unfolding append.assoc[symmetric] t(3) by (simp add: buf1_def)
  then show ?thesis
    using t(1) l by (simp add: round_trip_def)
qed

lemma contiguous_limit_value:
  assumes "\<And>n. is_contiguous sb n b \<longleftrightarrow> n \<le> u" "len \<le> u + 1"
  shows "contiguous_limit sb b len = Some (u + 1)"
  using assms(2)
proof (induction "u + 1 - len" arbitrary: len)
  case 0
  then show ?case using assms(1) by (subst contiguous_limit.simps) simp
next
  case (Suc k)
  then show ?case using assms(1) by (subst contiguous_limit.simps) simp
qed

section \<open>Property\<close>


text \<open>
  A buffer of blocks of 64 characters: the room in the block that is written, the characters left
  in the block that is read, and the content.
\<close>

type_synonym blocks = "nat \<times> nat \<times> char list"

definition blocks_put :: "char list \<Rightarrow> blocks \<Rightarrow> blocks" where
  "blocks_put xs b = (case b of (w, r, cs) \<Rightarrow> (w - length xs, r, cs @ xs))"

definition blocks_get :: "nat \<Rightarrow> blocks \<Rightarrow> char list \<times> blocks" where
  "blocks_get n b = (case b of (w, r, cs) \<Rightarrow> (take n cs, (w, r - n, drop n cs)))"

definition blocks_room :: "blocks \<Rightarrow> nat \<times> blocks" where
  "blocks_room b = (64, (64, snd b))"

definition blocks_next :: "blocks \<Rightarrow> nat \<times> blocks" where
  "blocks_next b = (case b of (w, r, cs) \<Rightarrow> (min 64 (length cs), (w, min 64 (length cs), cs)))"

definition blocks_input :: "blocks input_buffer" where
  "blocks_input =
     \<lparr>dev2buf_contiguous = fst, dev2buf_contiguous_forced = blocks_room, dev2buf_put = blocks_put,
      force_next_contiguous_number_of_bytes = blocks_next, raw_get = blocks_get, raw_sgetn = blocks_get\<rparr>"

definition blocks_output :: "blocks output_buffer" where
  "blocks_output =
     \<lparr>available_contiguous_number_of_bytes = fst, force_available_contiguous_number_of_bytes = blocks_room,
      raw_put = blocks_put, buf2dev_contiguous = (\<lambda>b. fst (snd b)), buf2dev_contiguous_forced = blocks_next,
      buf2dev_get = blocks_get, raw_sputn = blocks_put, is_contiguous = (\<lambda>n b. n \<le> fst b),
      unused_in_last_block = fst, buffer_empty = (\<lambda>b. snd (snd b) = [])\<rparr>"

lemmas blocks_defs =
  blocks_put_def blocks_get_def blocks_room_def blocks_next_def put_area_def stored_def got_def


end
