(* ===== verification/SignalsTest.thy ===== *)
theory SignalsTest
  imports Prelude
begin

text \<open>
  \<^verbatim>\<open>src/signals_test.cxx\<close>: two threads, one that spins until a signal handler has set a flag and one
  that waits in \<^verbatim>\<open>epoll_pwait\<close>, and the main thread that sends them three signals. Of the class
  \<^verbatim>\<open>Signals\<close>, which is not part of the repository, two things are used: which signals are blocked in
  the threads when they start, an argument of the model, and that \<^verbatim>\<open>unblock\<close> unblocks.
\<close>

section \<open>State\<close>

type_synonym signum = int

datatype main_pc = Kill1 | Kill2 | Kill3 | Join1 | Join2 | LeftMain
datatype thread1_pc = AtUnblock | Spinning | Left1
datatype thread2_pc = AtMasks | Sleeping | InPwait | Returning | Left2

text \<open>
  \<open>handled\<close> has the signals that \<^verbatim>\<open>my_cb\<close> was installed for; one without a handler kills the
  process. A signal that \<^verbatim>\<open>pthread_kill\<close> sends is pending for that thread until it is delivered.
\<close>

record signals_state =
  main_pc :: main_pc
  t1 :: thread1_pc
  t2 :: thread2_pc
  is_done :: bool
  handled :: "signum set"
  mask1 :: "signum set"
  mask2 :: "signum set"
  pwait_sigmask :: "signum set"
  pending1 :: "signum set"
  pending2 :: "signum set"
  killed :: bool

text \<open>The numbers that \<^verbatim>\<open>next_rt_signum\<close> returned, and \<^verbatim>\<open>Signal::unblock\<close> on the mask of a thread.\<close>

record signals_lib =
  sn1 :: signum
  sn2 :: signum
  sn3 :: signum
  unblock :: "signum \<Rightarrow> signum set \<Rightarrow> signum set"

text \<open>
  When the two threads have been created: \<^verbatim>\<open>my_cb\<close> is registered for two signals, and both threads
  have inherited the mask of the main thread.
\<close>

definition signals_main :: "signals_lib \<Rightarrow> signum set \<Rightarrow> signals_state" where
  "signals_main L blocked =
     \<lparr>main_pc = Kill1, t1 = AtUnblock, t2 = AtMasks, is_done = False, handled = {sn2 L, sn3 L},
      mask1 = blocked, mask2 = blocked, pwait_sigmask = {}, pending1 = {}, pending2 = {}, killed = False\<rparr>"

section \<open>The threads\<close>

definition my_cb :: "signals_state \<Rightarrow> signals_state" where
  "my_cb s = s\<lparr>is_done := True\<rparr>"

definition thread1 :: "signals_lib \<Rightarrow> signals_state \<Rightarrow> signals_state option" where
  "thread1 L s =
     (case t1 s of
        AtUnblock \<Rightarrow>
          Some (s\<lparr>handled := insert (sn1 L) (handled s), mask1 := unblock L (sn1 L) (mask1 s), t1 := Spinning\<rparr>)
      | Spinning \<Rightarrow> Some (if \<not> is_done s then s else s\<lparr>t1 := Left1\<rparr>)
      | Left1 \<Rightarrow> None)"

text \<open>
  \<^verbatim>\<open>sigprocmask\<close> is called with \<^verbatim>\<open>NULL\<close>, so it only reads the mask. \<^verbatim>\<open>epoll_pwait\<close> waits on no
  descriptor and without a timeout: only the delivery of a signal ends it.
\<close>

definition thread2 :: "signals_lib \<Rightarrow> signals_state \<Rightarrow> signals_state option" where
  "thread2 L s =
     (case t2 s of
        AtMasks \<Rightarrow> Some (s\<lparr>pwait_sigmask := mask2 s - {sn2 L} - {sn3 L}, t2 := Sleeping\<rparr>)
      | Sleeping \<Rightarrow> Some (s\<lparr>t2 := InPwait\<rparr>)
      | InPwait \<Rightarrow> None
      | Returning \<Rightarrow> Some (s\<lparr>t2 := Left2\<rparr>)
      | Left2 \<Rightarrow> None)"

text \<open>A signal to a thread that has ended but was not joined has no effect.\<close>

definition send1 :: "signum \<Rightarrow> signals_state \<Rightarrow> signals_state" where
  "send1 sn s = s\<lparr>pending1 := (if t1 s = Left1 then pending1 s else insert sn (pending1 s))\<rparr>"

definition send2 :: "signum \<Rightarrow> signals_state \<Rightarrow> signals_state" where
  "send2 sn s = s\<lparr>pending2 := (if t2 s = Left2 then pending2 s else insert sn (pending2 s))\<rparr>"

definition main_sends :: "signals_lib \<Rightarrow> signals_state \<Rightarrow> signals_state option" where
  "main_sends L s =
     (case main_pc s of
        Kill1 \<Rightarrow> Some ((send1 (sn1 L) s)\<lparr>main_pc := Kill2\<rparr>)
      | Kill2 \<Rightarrow> Some ((send2 (sn2 L) s)\<lparr>main_pc := Kill3\<rparr>)
      | Kill3 \<Rightarrow> Some ((send2 (sn3 L) s)\<lparr>main_pc := Join1\<rparr>)
      | Join1 \<Rightarrow> if t1 s = Left1 then Some (s\<lparr>main_pc := Join2\<rparr>) else None
      | Join2 \<Rightarrow> if t2 s = Left2 then Some (s\<lparr>main_pc := LeftMain\<rparr>) else None
      | LeftMain \<Rightarrow> None)"

section \<open>Delivery\<close>

text \<open>
  Inside \<^verbatim>\<open>epoll_pwait\<close> the other mask is in force, and the call returns once a handler was
  called; more signals can be delivered before the old mask is back.
\<close>

definition effective_mask2 :: "signals_state \<Rightarrow> signum set" where
  "effective_mask2 s = (if t2 s \<in> {InPwait, Returning} then pwait_sigmask s else mask2 s)"

definition deliver1 :: "signum \<Rightarrow> signals_state \<Rightarrow> signals_state option" where
  "deliver1 sn s =
     (if sn \<in> pending1 s \<and> sn \<notin> mask1 s \<and> t1 s \<noteq> Left1
      then Some (if sn \<in> handled s then my_cb (s\<lparr>pending1 := pending1 s - {sn}\<rparr>) else s\<lparr>killed := True\<rparr>)
      else None)"

definition deliver2 :: "signum \<Rightarrow> signals_state \<Rightarrow> signals_state option" where
  "deliver2 sn s =
     (if sn \<in> pending2 s \<and> sn \<notin> effective_mask2 s \<and> t2 s \<noteq> Left2
      then Some (if sn \<in> handled s
                 then my_cb (s\<lparr>pending2 := pending2 s - {sn}, t2 := (if t2 s = InPwait then Returning else t2 s)\<rparr>)
                 else s\<lparr>killed := True\<rparr>)
      else None)"

inductive signals_step :: "signals_lib \<Rightarrow> signals_state \<Rightarrow> signals_state \<Rightarrow> bool" for L where
  main: "\<not> killed s \<Longrightarrow> main_sends L s = Some s' \<Longrightarrow> signals_step L s s'"
| thread1: "\<not> killed s \<Longrightarrow> thread1 L s = Some s' \<Longrightarrow> signals_step L s s'"
| thread2: "\<not> killed s \<Longrightarrow> thread2 L s = Some s' \<Longrightarrow> signals_step L s s'"
| deliver1: "\<not> killed s \<Longrightarrow> deliver1 sn s = Some s' \<Longrightarrow> signals_step L s s'"
| deliver2: "\<not> killed s \<Longrightarrow> deliver2 sn s = Some s' \<Longrightarrow> signals_step L s s'"

inductive_cases signals_stepE: "signals_step L s s'"

definition signals_steps :: "signals_lib \<Rightarrow> signals_state \<Rightarrow> signals_state \<Rightarrow> bool" where
  "signals_steps L = (signals_step L)\<^sup>*\<^sup>*"

definition finished :: "signals_state \<Rightarrow> bool" where
  "finished s \<longleftrightarrow> main_pc s = LeftMain"

text \<open>The signals are different, and \<^verbatim>\<open>unblock\<close> unblocks.\<close>

definition signals_lib_ok :: "signals_lib \<Rightarrow> bool" where
  "signals_lib_ok L \<longleftrightarrow> distinct [sn1 L, sn2 L, sn3 L] \<and> (\<forall>sn m. unblock L sn m = m - {sn})"

lemmas thread_defs = main_sends_def thread1_def thread2_def send1_def send2_def my_cb_def
lemmas deliver_defs = deliver1_def deliver2_def effective_mask2_def my_cb_def
section \<open>When both threads always end\<close>

definition past :: "main_pc \<Rightarrow> signals_state \<Rightarrow> bool" where
  "past k s \<longleftrightarrow>
     (case k of
        Kill1 \<Rightarrow> main_pc s \<noteq> Kill1
      | Kill2 \<Rightarrow> main_pc s \<notin> {Kill1, Kill2}
      | Kill3 \<Rightarrow> main_pc s \<notin> {Kill1, Kill2, Kill3}
      | Join1 \<Rightarrow> main_pc s \<in> {Join2, LeftMain}
      | _ \<Rightarrow> main_pc s = LeftMain)"

text \<open>
  If the first signal was blocked in the beginning, it is only delivered once its handler is
  installed; those of the second thread that were blocked are kept for \<^verbatim>\<open>epoll_pwait\<close>.
\<close>

definition inv1 :: "signals_lib \<Rightarrow> signum set \<Rightarrow> signals_state \<Rightarrow> bool" where
  "inv1 L blocked s \<longleftrightarrow>
     pending1 s \<subseteq> {sn1 L} \<and>
     (t1 s = AtUnblock \<and> sn1 L \<in> blocked \<longrightarrow> sn1 L \<in> mask1 s) \<and>
     (t1 s \<noteq> AtUnblock \<longrightarrow> sn1 L \<in> handled s \<and> sn1 L \<notin> mask1 s) \<and>
     (past Kill1 s \<longrightarrow> sn1 L \<in> pending1 s \<or> is_done s) \<and>
     (t1 s = Left1 \<longrightarrow> is_done s) \<and> (past Join1 s \<longrightarrow> t1 s = Left1)"

definition inv2 :: "signals_lib \<Rightarrow> signum set \<Rightarrow> signals_state \<Rightarrow> bool" where
  "inv2 L blocked s \<longleftrightarrow>
     pending2 s \<subseteq> {sn2 L, sn3 L} \<and> {sn2 L, sn3 L} \<subseteq> handled s \<and>
     (sn2 L \<in> blocked \<longrightarrow> sn2 L \<in> mask2 s) \<and> (sn3 L \<in> blocked \<longrightarrow> sn3 L \<in> mask2 s) \<and>
     (t2 s \<noteq> AtMasks \<longrightarrow> sn2 L \<notin> pwait_sigmask s \<and> sn3 L \<notin> pwait_sigmask s) \<and>
     (past Kill2 s \<and> sn2 L \<in> blocked \<and> t2 s \<notin> {Returning, Left2} \<longrightarrow> sn2 L \<in> pending2 s) \<and>
     (past Kill3 s \<and> sn3 L \<in> blocked \<and> t2 s \<notin> {Returning, Left2} \<longrightarrow> sn3 L \<in> pending2 s) \<and>
     (past Join2 s \<longrightarrow> t2 s = Left2)"

definition signals_inv :: "signals_lib \<Rightarrow> signum set \<Rightarrow> signals_state \<Rightarrow> bool" where
  "signals_inv L blocked s \<longleftrightarrow> \<not> killed s \<and> inv1 L blocked s \<and> inv2 L blocked s"

lemmas inv_defs = signals_inv_def inv1_def inv2_def past_def

lemma signals_inv_start: "signals_inv L blocked (signals_main L blocked)"
  by (simp add: inv_defs signals_main_def)

lemma main_inv:
  assumes "main_sends L s = Some s'" "signals_inv L blocked s"
  shows "signals_inv L blocked s'"
proof (cases "main_pc s")
  case Kill1
  then have "s' = (send1 (sn1 L) s)\<lparr>main_pc := Kill2\<rparr>" using assms(1) by (simp add: main_sends_def)
  then show ?thesis
    using assms(2) Kill1 by (simp add: inv_defs send1_def subset_insertI2)
next
  case Kill2
  then have "s' = (send2 (sn2 L) s)\<lparr>main_pc := Kill3\<rparr>" using assms(1) by (simp add: main_sends_def)
  then show ?thesis
    using assms(2) Kill2 by (simp add: inv_defs send2_def)
next
  case Kill3
  then have "s' = (send2 (sn3 L) s)\<lparr>main_pc := Join1\<rparr>" using assms(1) by (simp add: main_sends_def)
  then show ?thesis
    using assms(2) Kill3 by (simp add: inv_defs send2_def)
next
  case Join1
  then have "t1 s = Left1" "s' = s\<lparr>main_pc := Join2\<rparr>"
    using assms(1) by (simp_all add: main_sends_def split: if_splits)
  then show ?thesis
    using assms(2) Join1 by (simp add: inv_defs)
next
  case Join2
  then have "t2 s = Left2" "s' = s\<lparr>main_pc := LeftMain\<rparr>"
    using assms(1) by (simp_all add: main_sends_def split: if_splits)
  then show ?thesis
    using assms(2) Join2 by (simp add: inv_defs)
next
  case LeftMain
  then show ?thesis using assms(1) by (simp add: main_sends_def)
qed

lemma thread1_inv:
  assumes "thread1 L s = Some s'" "signals_inv L blocked s" "signals_lib_ok L"
  shows "signals_inv L blocked s'"
proof (cases "t1 s")
  case AtUnblock
  then have "s' = s\<lparr>handled := insert (sn1 L) (handled s), mask1 := mask1 s - {sn1 L}, t1 := Spinning\<rparr>"
    using assms(1,3) by (simp add: thread1_def signals_lib_ok_def)
  then show ?thesis
    using assms(2) AtUnblock by (simp add: inv_defs)
next
  case Spinning
  then have "s' = (if is_done s then s\<lparr>t1 := Left1\<rparr> else s)"
    using assms(1) by (simp add: thread1_def split: if_splits)
  then show ?thesis
    using assms(2) Spinning by (cases "is_done s") (simp_all add: inv_defs)
next
  case Left1
  then show ?thesis using assms(1) by (simp add: thread1_def)
qed

lemma thread2_inv:
  assumes "thread2 L s = Some s'" "signals_inv L blocked s"
  shows "signals_inv L blocked s'"
proof -
  consider "t2 s = AtMasks" "s' = s\<lparr>pwait_sigmask := mask2 s - {sn2 L} - {sn3 L}, t2 := Sleeping\<rparr>"
    | "t2 s = Sleeping" "s' = s\<lparr>t2 := InPwait\<rparr>" | "t2 s = Returning" "s' = s\<lparr>t2 := Left2\<rparr>"
    using assms(1) by (cases "t2 s") (simp_all add: thread2_def)
  then show ?thesis
    using assms(2) by cases (simp_all add: inv_defs)
qed

lemma deliver1_inv:
  assumes "deliver1 sn s = Some s'" "signals_inv L blocked s" "sn1 L \<in> blocked"
  shows "signals_inv L blocked s'"
proof -
  have "sn \<in> pending1 s" "sn \<notin> mask1 s" using assms(1) by (simp_all add: deliver1_def split: if_splits)
  moreover from this have "sn = sn1 L" using assms(2) by (auto simp: signals_inv_def inv1_def)
  ultimately have "sn1 L \<in> handled s" using assms(2,3) by (auto simp: signals_inv_def inv1_def)
  then have "s' = my_cb (s\<lparr>pending1 := pending1 s - {sn1 L}\<rparr>)"
    using assms(1) \<open>sn = sn1 L\<close> by (simp add: deliver1_def split: if_splits)
  moreover have "pending1 s - {sn1 L} \<subseteq> {sn1 L}" using assms(2) by (auto simp: signals_inv_def inv1_def)
  ultimately show ?thesis
    using assms(2) by (simp add: inv_defs my_cb_def)
qed

lemma deliver2_inv:
  assumes "deliver2 sn s = Some s'" "signals_inv L blocked s"
  shows "signals_inv L blocked s'"
proof -
  have sn: "sn \<in> pending2 s" "sn \<notin> effective_mask2 s" using assms(1) by (simp_all add: deliver2_def split: if_splits)
  then have "sn \<in> {sn2 L, sn3 L}" using assms(2) by (auto simp: signals_inv_def inv2_def)
  then have "sn \<in> handled s" using assms(2) by (auto simp: signals_inv_def inv2_def)
  then have s': "s' = my_cb (s\<lparr>pending2 := pending2 s - {sn}, t2 := (if t2 s = InPwait then Returning else t2 s)\<rparr>)"
    using assms(1) by (simp add: deliver2_def split: if_splits)
  have rest: "pending2 s - {sn} \<subseteq> {sn2 L, sn3 L}" using assms(2) by (auto simp: signals_inv_def inv2_def)
  have "inv1 L blocked s'"
    using assms(2) s' by (simp add: signals_inv_def inv1_def past_def my_cb_def)
  moreover have "inv2 L blocked s'"
  proof (cases "t2 s \<in> {InPwait, Returning, Left2}")
    case True
    then show ?thesis
      using assms(2) s' rest by (cases "t2 s") (simp_all add: inv_defs my_cb_def)
  next
    case False
    then have "sn2 L \<in> blocked \<longrightarrow> sn \<noteq> sn2 L" "sn3 L \<in> blocked \<longrightarrow> sn \<noteq> sn3 L"
      using sn(2) assms(2) by (auto simp: signals_inv_def inv2_def effective_mask2_def)
    then show ?thesis
      using assms(2) s' rest False
      by (cases "sn2 L \<in> blocked"; cases "sn3 L \<in> blocked") (simp_all add: inv_defs my_cb_def)
  qed
  ultimately show ?thesis using assms(2) s' by (simp add: signals_inv_def my_cb_def)
qed

lemma signals_step_inv:
  assumes "signals_step L s s'" "signals_inv L blocked s" "signals_lib_ok L" "sn1 L \<in> blocked"
  shows "signals_inv L blocked s'"
  using assms(1)
  by cases (rule main_inv[OF _ assms(2)] thread1_inv[OF _ assms(2,3)] thread2_inv[OF _ assms(2)]
      deliver1_inv[OF _ assms(2,4)] deliver2_inv[OF _ assms(2)], assumption)+

lemma signals_steps_inv:
  assumes "signals_steps L s s'" "signals_inv L blocked s" "signals_lib_ok L" "sn1 L \<in> blocked"
  shows "signals_inv L blocked s'"
  using assms(1) unfolding signals_steps_def
  by (induction rule: rtranclp_induct) (use assms(2-) signals_step_inv in blast)+

text \<open>What is left to do; spinning does not change it.\<close>

definition left_to_do :: "signals_state \<Rightarrow> nat" where
  "left_to_do s =
     (case main_pc s of Kill1 \<Rightarrow> 8 | Kill2 \<Rightarrow> 6 | Kill3 \<Rightarrow> 4 | Join1 \<Rightarrow> 2 | Join2 \<Rightarrow> 1 | LeftMain \<Rightarrow> 0) +
     (case t1 s of AtUnblock \<Rightarrow> 2 | Spinning \<Rightarrow> 1 | Left1 \<Rightarrow> 0) +
     (case t2 s of AtMasks \<Rightarrow> 4 | Sleeping \<Rightarrow> 3 | InPwait \<Rightarrow> 2 | Returning \<Rightarrow> 1 | Left2 \<Rightarrow> 0) +
     card (pending1 s) + card (pending2 s)"

lemma send_left:
  "card (pending1 (send1 sn s)) \<le> card (pending1 s) + 1"
  "card (pending2 (send2 sn s)) \<le> card (pending2 s) + 1"
proof -
  have "card (insert x A) \<le> card A + 1" for x :: signum and A
    by (cases "finite A") (simp_all add: card_insert_if)
  then show "card (pending1 (send1 sn s)) \<le> card (pending1 s) + 1"
    "card (pending2 (send2 sn s)) \<le> card (pending2 s) + 1"
    by (simp_all add: send1_def send2_def)
qed

lemma pending_finite: "signals_inv L blocked s \<Longrightarrow> finite (pending1 s) \<and> finite (pending2 s)"
  using finite_subset[of "pending1 s" "{sn1 L}"] finite_subset[of "pending2 s" "{sn2 L, sn3 L}"]
  by (simp add: signals_inv_def inv1_def inv2_def)

lemma thread1_progress:
  assumes "signals_inv L blocked s" "past Kill1 s" "t1 s \<noteq> Left1"
  shows "\<exists>s'. signals_step L s s' \<and> left_to_do s' < left_to_do s"
proof -
  have alive: "\<not> killed s" using assms(1) by (simp add: signals_inv_def)
  have "t1 s = Spinning \<Longrightarrow> \<not> is_done s \<Longrightarrow> sn1 L \<in> pending1 s \<and> sn1 L \<in> handled s \<and> sn1 L \<notin> mask1 s"
    using assms(1,2) by (simp add: signals_inv_def inv1_def)
  then consider "t1 s = AtUnblock" | "t1 s = Spinning" "is_done s"
    | "t1 s = Spinning" "sn1 L \<in> pending1 s" "sn1 L \<in> handled s" "sn1 L \<notin> mask1 s"
    using assms(3) by (cases "t1 s") blast+
  then show ?thesis
  proof cases
    case 1
    then show ?thesis
      using signals_step.thread1[OF alive, of L] by (fastforce simp: thread1_def left_to_do_def)
  next
    case 2
    then show ?thesis
      using signals_step.thread1[OF alive, of L] by (fastforce simp: thread1_def left_to_do_def)
  next
    case 3
    have "card (pending1 s - {sn1 L}) < card (pending1 s)"
      using 3(2) pending_finite[OF assms(1)] by (intro card_Diff1_less) simp_all
    then show ?thesis
      using 3 signals_step.deliver1[OF alive, of "sn1 L"]
      by (fastforce simp: deliver_defs left_to_do_def)
  qed
qed
text \<open>The second thread, once the signal that is sure to end \<^verbatim>\<open>epoll_pwait\<close> has been sent.\<close>

lemma thread2_progress:
  assumes "signals_inv L blocked s" "past Kill3 s" "t2 s \<noteq> Left2"
    and "sn2 L \<in> blocked \<or> sn3 L \<in> blocked"
  shows "\<exists>s'. signals_step L s s' \<and> left_to_do s' < left_to_do s"
proof -
  have alive: "\<not> killed s" using assms(1) by (simp add: signals_inv_def)
  show ?thesis
  proof (cases "t2 s = InPwait")
    case True
    have past2: "past Kill2 s" using assms(2) by (auto simp: past_def)
    obtain sn where sn: "sn \<in> {sn2 L, sn3 L}" "sn \<in> pending2 s"
      using assms(1,2,4) past2 True by (cases "sn2 L \<in> blocked") (simp_all add: signals_inv_def inv2_def, blast+)
    then have "sn \<in> handled s" "sn \<notin> effective_mask2 s"
      using assms(1) True by (auto simp: signals_inv_def inv2_def effective_mask2_def)
    then have step: "signals_step L s (my_cb (s\<lparr>pending2 := pending2 s - {sn}, t2 := Returning\<rparr>))"
      using signals_step.deliver2[OF alive, of sn] sn(2) True by (simp add: deliver2_def)
    have "card (pending2 s - {sn}) \<le> card (pending2 s)"
      using pending_finite[OF assms(1)] by (simp add: card_mono)
    then have "left_to_do (my_cb (s\<lparr>pending2 := pending2 s - {sn}, t2 := Returning\<rparr>)) < left_to_do s"
      using True by (simp add: left_to_do_def my_cb_def)
    with step show ?thesis by blast
  next
    case False
    then show ?thesis
      using assms(3) signals_step.thread2[OF alive, of L]
      by (cases "t2 s") (fastforce simp: thread2_def left_to_do_def)+
  qed
qed

lemma signals_progress:
  assumes "signals_inv L blocked s" "\<not> finished s" "sn2 L \<in> blocked \<or> sn3 L \<in> blocked"
  shows "\<exists>s'. signals_step L s s' \<and> left_to_do s' < left_to_do s"
proof -
  have alive: "\<not> killed s" using assms(1) by (simp add: signals_inv_def)
  have main: ?thesis if "main_sends L s = Some s'" "left_to_do s' < left_to_do s" for s'
    using signals_step.main[OF alive] that by blast
  have less: "left_to_do ((send1 sn s)\<lparr>main_pc := Kill2\<rparr>) < left_to_do s" if "main_pc s = Kill1" for sn
    using that send_left(1)[of sn s] by (simp add: left_to_do_def) (simp add: send1_def)
  have less2: "left_to_do ((send2 sn s)\<lparr>main_pc := k\<rparr>) < left_to_do s"
    if "main_pc s = Kill2 \<and> k = Kill3 \<or> main_pc s = Kill3 \<and> k = Join1" for sn k
    using that send_left(2)[of sn s] by (auto simp: left_to_do_def) (simp_all add: send2_def)
  show ?thesis
  proof (cases "main_pc s")
    case Kill1
    then show ?thesis using main less by (simp add: main_sends_def)
  next
    case Kill2
    then show ?thesis using main less2 by (simp add: main_sends_def)
  next
    case Kill3
    then show ?thesis using main less2 by (simp add: main_sends_def)
  next
    case Join1
    show ?thesis
    proof (cases "t1 s = Left1")
      case True
      then show ?thesis using Join1 main by (simp add: main_sends_def left_to_do_def)
    next
      case False
      then show ?thesis using Join1 thread1_progress[OF assms(1)] by (simp add: past_def)
    qed
  next
    case Join2
    show ?thesis
    proof (cases "t2 s = Left2")
      case True
      then show ?thesis using Join2 main by (simp add: main_sends_def left_to_do_def)
    next
      case False
      then show ?thesis using Join2 thread2_progress[OF assms(1)] assms(3) by (simp add: past_def)
    qed
  next
    case LeftMain
    then show ?thesis using assms(2) by (simp add: finished_def)
  qed
qed

lemma signals_can_finish:
  assumes "signals_inv L blocked s" "signals_lib_ok L" "sn1 L \<in> blocked" "sn2 L \<in> blocked \<or> sn3 L \<in> blocked"
  shows "\<exists>s'. signals_steps L s s' \<and> finished s'"
  using assms(1)
proof (induction "left_to_do s" arbitrary: s rule: less_induct)
  case less
  show ?case
  proof (cases "finished s")
    case True
    then show ?thesis by (auto simp: signals_steps_def)
  next
    case False
    then obtain s1 where s1: "signals_step L s s1" "left_to_do s1 < left_to_do s"
      using signals_progress[OF less.prems] assms(4) by blast
    have "signals_inv L blocked s1" using signals_step_inv[OF s1(1) less.prems assms(2,3)] .
    then obtain s' where "signals_steps L s1 s'" "finished s'" using less.hyps[OF s1(2)] by blast
    then show ?thesis
      using s1(1) unfolding signals_steps_def by (meson converse_rtranclp_into_rtranclp)
  qed
qed
section \<open>When they do not\<close>

lemma signals_steps_Cons: "signals_step L s t \<Longrightarrow> signals_steps L t u \<Longrightarrow> signals_steps L s u"
  unfolding signals_steps_def by (rule converse_rtranclp_into_rtranclp)

text \<open>A first signal that is not blocked can arrive before its handler is installed.\<close>

lemma first_signal_kills:
  assumes "signals_lib_ok L" "sn1 L \<notin> blocked"
  shows "\<exists>s. signals_steps L (signals_main L blocked) s \<and> killed s"
proof -
  let ?s = "signals_main L blocked"
  let ?t = "(send1 (sn1 L) ?s)\<lparr>main_pc := Kill2\<rparr>"
  have "signals_step L ?s ?t"
    by (rule signals_step.main) (simp_all add: signals_main_def main_sends_def)
  moreover have "signals_step L ?t (?t\<lparr>killed := True\<rparr>)"
    by (rule signals_step.deliver1[where sn = "sn1 L"])
      (use assms in \<open>simp_all add: signals_main_def send1_def deliver1_def signals_lib_ok_def\<close>)
  moreover have "signals_steps L (?t\<lparr>killed := True\<rparr>) (?t\<lparr>killed := True\<rparr>)"
    by (simp add: signals_steps_def)
  ultimately have "signals_steps L ?s (?t\<lparr>killed := True\<rparr>)" by (meson signals_steps_Cons)
  moreover have "killed (?t\<lparr>killed := True\<rparr>)" by simp
  ultimately show ?thesis by blast
qed

text \<open>
  Without a pending signal the second thread never leaves \<^verbatim>\<open>epoll_pwait\<close>, when no more are sent.
\<close>

definition waits_for_ever :: "signals_state \<Rightarrow> bool" where
  "waits_for_ever s \<longleftrightarrow> t2 s = InPwait \<and> pending2 s = {} \<and> main_pc s \<in> {Join1, Join2}"

lemma waits_for_ever_step: "signals_step L s s' \<Longrightarrow> waits_for_ever s \<Longrightarrow> waits_for_ever s'"
  by (erule signals_stepE)
    (auto simp: waits_for_ever_def main_sends_def thread1_def thread2_def deliver1_def deliver2_def my_cb_def
      split: if_splits thread1_pc.splits)

lemma waits_for_ever_steps:
  assumes "signals_steps L s s'" "waits_for_ever s"
  shows "waits_for_ever s'"
  using assms unfolding signals_steps_def
  by (induction rule: rtranclp_induct) (auto dest: waits_for_ever_step)

text \<open>Both signals arrive while the second thread sleeps.\<close>

lemma signals_missed:
  assumes "sn2 L \<notin> blocked" "sn3 L \<notin> blocked"
  shows "\<exists>s. signals_steps L (signals_main L blocked) s \<and> waits_for_ever s"
proof -
  let ?s0 = "signals_main L blocked"
  let ?s1 = "?s0\<lparr>pwait_sigmask := blocked - {sn2 L} - {sn3 L}, t2 := Sleeping\<rparr>"
  let ?s2 = "?s1\<lparr>pending1 := {sn1 L}, main_pc := Kill2\<rparr>"
  let ?s3 = "?s2\<lparr>pending2 := {sn2 L}, main_pc := Kill3\<rparr>"
  let ?s4 = "?s3\<lparr>pending2 := {}, is_done := True\<rparr>"
  let ?s5 = "?s4\<lparr>pending2 := {sn3 L}, main_pc := Join1\<rparr>"
  let ?s6 = "?s5\<lparr>pending2 := {}, is_done := True\<rparr>"
  let ?s7 = "?s6\<lparr>t2 := InPwait\<rparr>"
  note calc = signals_main_def main_sends_def thread2_def send1_def send2_def deliver_defs
  have "signals_step L ?s0 ?s1" by (rule signals_step.thread2) (simp_all add: calc)
  moreover have "signals_step L ?s1 ?s2" by (rule signals_step.main) (simp_all add: calc)
  moreover have "signals_step L ?s2 ?s3" by (rule signals_step.main) (simp_all add: calc)
  moreover have "signals_step L ?s3 ?s4"
    by (rule signals_step.deliver2[where sn = "sn2 L"]) (use assms in \<open>simp_all add: calc\<close>)
  moreover have "signals_step L ?s4 ?s5" by (rule signals_step.main) (simp_all add: calc)
  moreover have "signals_step L ?s5 ?s6"
    by (rule signals_step.deliver2[where sn = "sn3 L"]) (use assms in \<open>simp_all add: calc\<close>)
  moreover have "signals_step L ?s6 ?s7" by (rule signals_step.thread2) (simp_all add: calc)
  moreover have "signals_steps L ?s7 ?s7" by (simp add: signals_steps_def)
  ultimately have "signals_steps L ?s0 ?s7" by (meson signals_steps_Cons)
  moreover have "waits_for_ever ?s7" by (simp add: waits_for_ever_def)
  ultimately show ?thesis by blast
qed

section \<open>Property\<close>

text \<open>
  \<^bold>\<open>C23\<close>. The program can always come to its end, without being killed by a signal, exactly if the
  first signal and at least one of the other two were blocked in the threads from the beginning;
  the flag is set then. Otherwise there is an execution in which the first signal arrives before its
  handler, or one in which the second thread has got both signals before \<^verbatim>\<open>epoll_pwait\<close> and waits there
  for ever.
\<close>

theorem signals_test_ends_iff:
  assumes "signals_lib_ok L"
  shows "(\<forall>s. signals_steps L (signals_main L blocked) s \<longrightarrow>
            \<not> killed s \<and> (\<exists>s'. signals_steps L s s' \<and> finished s' \<and> is_done s')) \<longleftrightarrow>
    sn1 L \<in> blocked \<and> (sn2 L \<in> blocked \<or> sn3 L \<in> blocked)"
proof
  assume ends: "\<forall>s. signals_steps L (signals_main L blocked) s \<longrightarrow>
    \<not> killed s \<and> (\<exists>s'. signals_steps L s s' \<and> finished s' \<and> is_done s')"
  have "sn1 L \<in> blocked" using first_signal_kills[OF assms] ends by blast
  moreover have "\<not> waits_for_ever s" if "signals_steps L (signals_main L blocked) s" for s
    using ends that waits_for_ever_steps[of L s] by (fastforce simp: waits_for_ever_def finished_def)
  ultimately show "sn1 L \<in> blocked \<and> (sn2 L \<in> blocked \<or> sn3 L \<in> blocked)"
    using signals_missed by blast
next
  assume b: "sn1 L \<in> blocked \<and> (sn2 L \<in> blocked \<or> sn3 L \<in> blocked)"
  show "\<forall>s. signals_steps L (signals_main L blocked) s \<longrightarrow>
    \<not> killed s \<and> (\<exists>s'. signals_steps L s s' \<and> finished s' \<and> is_done s')"
  proof (intro allI impI)
    fix s assume s: "signals_steps L (signals_main L blocked) s"
    have inv: "signals_inv L blocked s"
      using signals_steps_inv[OF s signals_inv_start assms] b by blast
    then obtain s' where s': "signals_steps L s s'" "finished s'"
      using signals_can_finish[OF _ assms] b by blast
    have "signals_inv L blocked s'" using signals_steps_inv[OF s'(1) inv assms] b by blast
    then have "is_done s'"
      using s'(2) by (simp add: signals_inv_def inv1_def past_def finished_def)
    then show "\<not> killed s \<and> (\<exists>s'. signals_steps L s s' \<and> finished s' \<and> is_done s')"
      using inv s' by (auto simp: signals_inv_def)
  qed
qed

text \<open>With the signals 35, 36 and 37: the mask that has all of them, and one without the last two.\<close>

theorem signals_test_ends_iff_witness:
  "(let L = \<lparr>sn1 = 35, sn2 = 36, sn3 = 37, unblock = \<lambda>sn m. m - {sn}\<rparr> in
      (\<exists>s. signals_steps L (signals_main L {2, 6, 35, 36, 37}) s \<and> finished s) \<and>
      (\<exists>s. signals_steps L (signals_main L {2, 6, 35}) s \<and>
         \<not> (\<not> killed s \<and> (\<exists>s'. signals_steps L s s' \<and> finished s' \<and> is_done s'))))"
proof -
  let ?L = "\<lparr>sn1 = 35, sn2 = 36, sn3 = 37, unblock = \<lambda>sn m. m - {sn}\<rparr>"
  have ok: "signals_lib_ok ?L" by (simp add: signals_lib_ok_def)
  have "signals_steps ?L (signals_main ?L {2, 6, 35, 36, 37}) (signals_main ?L {2, 6, 35, 36, 37})"
    by (simp add: signals_steps_def)
  then show ?thesis
    using signals_test_ends_iff[OF ok, of "{2, 6, 35, 36, 37}"] signals_test_ends_iff[OF ok, of "{2, 6, 35}"]
    unfolding Let_def by simp blast
qed

end
