(* ===== verification/SocketAddress.thy ===== *)
theory SocketAddress
  imports EpollEvents Decimal
begin

text \<open>
  \<^verbatim>\<open>src/socket_address.cxx\<close>: a table of addresses and of the texts that they have to be printed as.
  \<^verbatim>\<open>evio::SocketAddress\<close>, which reads and prints them, is not part of the repository and is a
  parameter; as a concrete one there is a reference that reads the notation of RFC 4291 and prints
  that of RFC 5952.
\<close>

section \<open>The program\<close>

text \<open>The constructors that are used: of a text, of a family with a text, and of these two with a port.\<close>

datatype address_family = AF_INET6 | AF_UNIX

datatype address_args =
    Text string
  | FamilyText address_family string
  | FamilyTextPort address_family string nat

definition address_checks :: "(address_args \<times> string) list" where
  "address_checks =
     [(Text ''[2606:2800:220:1:248:1893:25c8:1946]:0'', ''[2606:2800:220:1:248:1893:25c8:1946]:0''),
      (Text ''[2001:41c0::645:a65e:60ff:feda:589d]:123'', ''[2001:41c0:0:645:a65e:60ff:feda:589d]:123''),
      (Text ''[2001:0db8::1:0:0:1]:12345'', ''[2001:db8::1:0:0:1]:12345''),
      (Text ''[2001:41c0::1]:65535'', ''[2001:41c0::1]:65535''),
      (Text ''[2606::1]:80'', ''[2606::1]:80''),
      (Text ''[::1]:1'', ''[::1]:1''),
      (Text ''[::]:9001'', ''[::]:9001''),
      (Text ''[::ffff:192:0:10:1]:1234'', ''[::ffff:192:0:10:1]:1234''),
      (Text ''::ffff:192.0.10.1:1234'', ''[::ffff:192.0.10.1]:1234''),
      (Text ''10.0.100.255:65535'', ''10.0.100.255:65535''),
      (Text ''[0010.000.0100.0255]:065535'', ''10.0.100.255:65535''),
      (FamilyTextPort AF_INET6 ''192.168.10.1'' 42, ''[::ffff:192.168.10.1]:42''),
      (FamilyText AF_UNIX ''192.168.10.1'', ''192.168.10.1'')]"

text \<open>
  \<open>addr\<close> is \<^verbatim>\<open>to_string\<close> of the object that the constructor makes, or \<open>None\<close> when it throws.
  Whatever is thrown is caught behind the last check and only printed as a warning.
\<close>

fun run_checks :: "(address_args \<Rightarrow> string option) \<Rightarrow> (address_args \<times> string) list \<Rightarrow> fault + bool" where
  "run_checks addr [] = Inr True"
| "run_checks addr ((a, expected) # checks) =
     (case addr a of
        None \<Rightarrow> Inr False
      | Some text \<Rightarrow> if text = expected then run_checks addr checks else Inl AssertFailed)"

definition socket_address_main :: "(address_args \<Rightarrow> string option) \<Rightarrow> fault + string" where
  "socket_address_main addr =
     (case run_checks addr address_checks of
        Inl e \<Rightarrow> Inl e
      | Inr all_made \<Rightarrow> Inr (''Success!'' @ [CHR 0x0A]))"

section \<open>A reference for the notation\<close>

datatype address = Inet "nat list" nat | Inet6 "nat list" nat | Unix string

definition hex_digit :: "char \<Rightarrow> nat option" where
  "hex_digit c =
     (if is_digit c then Some (digit_value c)
      else if c \<in> set ''abcdef'' then Some (of_char c - 87) else None)"

fun hex_value :: "nat \<Rightarrow> string \<Rightarrow> nat option" where
  "hex_value n [] = Some n"
| "hex_value n (c # cs) =
     (case hex_digit c of None \<Rightarrow> None | Some d \<Rightarrow> hex_value (16 * n + d) cs)"

definition read_decimal :: "nat \<Rightarrow> string \<Rightarrow> nat option" where
  "read_decimal bound s =
     (if s \<noteq> [] \<and> list_all is_digit s \<and> read_digits s < bound then Some (read_digits s) else None)"

fun all_some :: "'a option list \<Rightarrow> 'a list option" where
  "all_some [] = Some []"
| "all_some (x # xs) = (case x of None \<Rightarrow> None | Some a \<Rightarrow> map_option (Cons a) (all_some xs))"

definition read_inet :: "string \<Rightarrow> nat list option" where
  "read_inet s =
     (let parts = split_at (CHR ''.'') s
      in if length parts = 4 then all_some (map (read_decimal 256) parts) else None)"

text \<open>Groups of four hexadecimal digits; one that has dots is an IPv4 address and gives two.\<close>

definition read_group :: "string \<Rightarrow> nat list option" where
  "read_group s =
     (if CHR ''.'' \<in> set s
      then (case read_inet s of
              Some [a, b, c, d] \<Rightarrow> Some [256 * a + b, 256 * c + d]
            | _ \<Rightarrow> None)
      else if s \<noteq> [] \<and> length s \<le> 4 then map_option (\<lambda>n. [n]) (hex_value 0 s) else None)"

definition read_groups :: "string \<Rightarrow> nat list option" where
  "read_groups s =
     (if s = [] then Some [] else map_option concat (all_some (map read_group (split_at (CHR '':'') s))))"

fun split_double :: "string \<Rightarrow> (string \<times> string) option" where
  "split_double (a # b # s) =
     (if a = CHR '':'' \<and> b = CHR '':'' then Some ([], s)
      else map_option (\<lambda>(x, y). (a # x, y)) (split_double (b # s)))"
| "split_double s = None"

definition read_inet6 :: "string \<Rightarrow> nat list option" where
  "read_inet6 s =
     (case split_double s of
        None \<Rightarrow> (case read_groups s of Some gs \<Rightarrow> if length gs = 8 then Some gs else None | None \<Rightarrow> None)
      | Some (x, y) \<Rightarrow>
          (case (read_groups x, read_groups y) of
             (Some gs, Some hs) \<Rightarrow>
               if length gs + length hs < 8 then Some (gs @ replicate (8 - length gs - length hs) 0 @ hs)
               else None
           | _ \<Rightarrow> None))"

text \<open>An address with its port: the address can be in brackets.\<close>

definition read_host :: "string \<Rightarrow> nat \<Rightarrow> address option" where
  "read_host host port =
     (if CHR '':'' \<in> set host then map_option (\<lambda>gs. Inet6 gs port) (read_inet6 host)
      else map_option (\<lambda>bs. Inet bs port) (read_inet host))"

definition read_address :: "string \<Rightarrow> address option" where
  "read_address s =
     (let port = rev (takeWhile (\<lambda>c. c \<noteq> CHR '':'') (rev s));
          rest = rev (tl (dropWhile (\<lambda>c. c \<noteq> CHR '':'') (rev s)));
          host = (if rest \<noteq> [] \<and> hd rest = CHR ''['' \<and> last rest = CHR '']''
                  then butlast (tl rest) else rest)
      in case read_decimal 65536 port of None \<Rightarrow> None | Some p \<Rightarrow> read_host host p)"

definition mapped :: "nat list \<Rightarrow> nat list" where
  "mapped bs = replicate 5 0 @ [0xffff, 256 * bs ! 0 + bs ! 1, 256 * bs ! 2 + bs ! 3]"

fun reference_address :: "address_args \<Rightarrow> address option" where
  "reference_address (Text s) = read_address s"
| "reference_address (FamilyText AF_UNIX s) = Some (Unix s)"
| "reference_address (FamilyText AF_INET6 s) = None"
| "reference_address (FamilyTextPort AF_UNIX s port) = None"
| "reference_address (FamilyTextPort AF_INET6 s port) =
     (if CHR '':'' \<in> set s then map_option (\<lambda>gs. Inet6 gs port) (read_inet6 s)
      else map_option (\<lambda>bs. Inet6 (mapped bs) port) (read_inet s))"

section \<open>Printing\<close>

definition hex_char :: "nat \<Rightarrow> char" where
  "hex_char d = (if d < 10 then digit_char d else char_of (87 + d))"

fun show_hex :: "nat \<Rightarrow> string" where
  "show_hex n = (if n < 16 then [hex_char n] else show_hex (n div 16) @ [hex_char (n mod 16)])"

declare show_hex.simps [simp del]

text \<open>The first one of the longest runs of two or more zeros: its length and its place.\<close>

definition zeros_at :: "nat list \<Rightarrow> nat \<Rightarrow> nat" where
  "zeros_at gs i = length (takeWhile (\<lambda>g. g = 0) (drop i gs))"

definition longest_zeros :: "nat list \<Rightarrow> nat \<times> nat" where
  "longest_zeros gs =
     foldl (\<lambda>(n, i) j. if n < zeros_at gs j then (zeros_at gs j, j) else (n, i)) (0, 0) [0..<length gs]"

definition show_groups :: "nat list \<Rightarrow> string" where
  "show_groups gs = join '':'' (map show_hex gs)"

definition show_inet :: "nat list \<Rightarrow> string" where
  "show_inet bs = join ''.'' (map show_nat bs)"

definition show_inet6 :: "nat list \<Rightarrow> string" where
  "show_inet6 gs =
     (if take 6 gs = [0, 0, 0, 0, 0, 0xffff]
      then ''::ffff:'' @ show_inet [gs ! 6 div 256, gs ! 6 mod 256, gs ! 7 div 256, gs ! 7 mod 256]
      else case longest_zeros gs of
             (n, i) \<Rightarrow>
               if n < 2 then show_groups gs
               else show_groups (take i gs) @ ''::'' @ show_groups (drop (i + n) gs))"

fun show_address :: "address \<Rightarrow> string" where
  "show_address (Inet bs port) = show_inet bs @ '':'' @ show_nat port"
| "show_address (Inet6 gs port) = ''['' @ show_inet6 gs @ '']:'' @ show_nat port"
| "show_address (Unix path) = path"

definition reference :: "address_args \<Rightarrow> string option" where
  "reference a = map_option show_address (reference_address a)"
section \<open>Evaluation\<close>

lemma digit_tests:
  "is_digit (CHR ''0'')" "is_digit (CHR ''1'')" "is_digit (CHR ''2'')" "is_digit (CHR ''3'')"
  "is_digit (CHR ''4'')" "is_digit (CHR ''5'')" "is_digit (CHR ''6'')" "is_digit (CHR ''7'')"
  "is_digit (CHR ''8'')" "is_digit (CHR ''9'')" "\<not> is_digit (CHR ''a'')" "\<not> is_digit (CHR ''b'')"
  "\<not> is_digit (CHR ''c'')" "\<not> is_digit (CHR ''d'')" "\<not> is_digit (CHR ''e'')" "\<not> is_digit (CHR ''f'')"
  by (simp_all add: is_digit_def)

lemma digit_values:
  "digit_value (CHR ''0'') = 0" "digit_value (CHR ''1'') = 1" "digit_value (CHR ''2'') = 2"
  "digit_value (CHR ''3'') = 3" "digit_value (CHR ''4'') = 4" "digit_value (CHR ''5'') = 5"
  "digit_value (CHR ''6'') = 6" "digit_value (CHR ''7'') = 7" "digit_value (CHR ''8'') = 8"
  "digit_value (CHR ''9'') = 9"
  by (simp_all add: digit_value_def)

lemma hex_digits:
  "is_digit c \<Longrightarrow> hex_digit c = Some (digit_value c)"
  "hex_digit (CHR ''a'') = Some 10" "hex_digit (CHR ''b'') = Some 11" "hex_digit (CHR ''c'') = Some 12"
  "hex_digit (CHR ''d'') = Some 13" "hex_digit (CHR ''e'') = Some 14" "hex_digit (CHR ''f'') = Some 15"
  by (simp_all add: hex_digit_def digit_tests)

lemma digit_chars:
  "digit_char 0 = CHR ''0''" "digit_char (Suc 0) = CHR ''1''" "digit_char 2 = CHR ''2''"
  "digit_char 3 = CHR ''3''" "digit_char 4 = CHR ''4''" "digit_char 5 = CHR ''5''"
  "digit_char 6 = CHR ''6''" "digit_char 7 = CHR ''7''" "digit_char 8 = CHR ''8''"
  "digit_char 9 = CHR ''9''"
  by code_simp+

lemma hex_chars:
  "d < 10 \<Longrightarrow> hex_char d = digit_char d" "hex_char 10 = CHR ''a''" "hex_char 11 = CHR ''b''"
  "hex_char 12 = CHR ''c''" "hex_char 13 = CHR ''d''" "hex_char 14 = CHR ''e''" "hex_char 15 = CHR ''f''"
proof -
  show "d < 10 \<Longrightarrow> hex_char d = digit_char d" by (simp add: hex_char_def)
qed code_simp+

lemma replicate_digits:
  "replicate 2 x = [x, x]" "replicate 3 x = [x, x, x]" "replicate 4 x = [x, x, x, x]"
  "replicate 5 x = [x, x, x, x, x]" "replicate 6 x = [x, x, x, x, x, x]"
  "replicate 7 x = [x, x, x, x, x, x, x]" "replicate 8 x = [x, x, x, x, x, x, x, x]"
  by (simp_all add: numeral_eq_Suc)

lemmas reference_defs =
  reference_def read_address_def read_host_def read_inet6_def read_inet_def read_groups_def
  read_group_def read_decimal_def read_digits_def mapped_def show_groups_def show_inet6_def
  show_inet_def show_hex.simps show_nat.simps longest_zeros_def zeros_at_def upt_rec
  digit_tests digit_values hex_digits digit_chars hex_chars replicate_digits

section \<open>Property\<close>

lemma run_checks_result:
  "run_checks addr checks =
     (if list_all (\<lambda>(a, t). addr a = Some t) (takeWhile (\<lambda>(a, t). addr a \<noteq> None) checks)
      then Inr (list_all (\<lambda>(a, t). addr a \<noteq> None) checks) else Inl AssertFailed)"
  by (induction checks) (auto split: option.split)


end
