(* ===== verification/SmallPrograms.thy ===== *)
theory SmallPrograms
  imports Prelude
begin

text \<open>
  The programs that look at one thing and print it: \<^verbatim>\<open>src/function_size.cxx\<close>, \<^verbatim>\<open>src/arpa.cxx\<close>,
  \<^verbatim>\<open>src/xmlrpc_test.cxx\<close> and \<^verbatim>\<open>src/interface.cxx\<close>. What the libraries answer is an argument; an
  exception of theirs is \<open>Inl\<close>.
\<close>

section \<open>function_size.cxx\<close>

text \<open>
  The bytes a lambda captures: an array of \<open>n\<close> words, or, for five, what the event loop thread
  passes to the thread pool: a pointer and two 32-bit integers.
\<close>

definition capture_size :: "nat \<Rightarrow> nat" where
  "capture_size n = (if n = 5 then 8 + 4 + 4 else 8 * n)"

datatype size_line = MallocForEvents | NoMallocForEvents | MallocFor nat | NoMallocFor nat

text \<open>
  \<open>in_place\<close> says whether a \<^verbatim>\<open>std::function\<close> keeps a closure of that size inside of itself. \<^verbatim>\<open>h\<close>
  calls the function with its own address, which the lambda compares with that of its first
  captured variable: they are equal if the closure was not allocated elsewhere.
\<close>

definition do_test :: "(nat \<Rightarrow> bool) \<Rightarrow> nat \<Rightarrow> size_line" where
  "do_test in_place n =
     (let a0 = 8 * n; same_address = in_place (capture_size n)
      in if n = 5 then (if \<not> same_address then MallocForEvents else NoMallocForEvents)
         else (if \<not> same_address then MallocFor a0 else NoMallocFor a0))"

definition function_size_main :: "(nat \<Rightarrow> bool) \<Rightarrow> size_line list" where
  "function_size_main in_place = map (do_test in_place) [1, 2, 3, 4, 5]"

text \<open>
  What the event loop thread captures is stored like an array of two words. If what fits depends on
  the size only, up to some capacity, the program finds the capacity out: the arrays that fit are
  printed first, and the events fit exactly if at least two words do.
\<close>

lemma function_size_finds:
  "(NoMallocForEvents \<in> set (function_size_main in_place)) = (NoMallocFor 16 \<in> set (function_size_main in_place))"
  "function_size_main (\<lambda>size. size \<le> c) =
     map NoMallocFor (filter (\<lambda>size. size \<le> c) [8, 16, 24, 32]) @
     map MallocFor (filter (\<lambda>size. c < size) [8, 16, 24, 32]) @
     [if 16 \<le> c then NoMallocForEvents else MallocForEvents]"
  by (auto simp: function_size_main_def do_test_def capture_size_def Let_def)

section \<open>Programs that catch errors\<close>

text \<open>
  \<^verbatim>\<open>arpa.cxx\<close>: the exit code and what is printed. \<open>lookup\<close> makes the address and its name for a
  query; an error in it is printed as a warning.
\<close>

datatype arpa_output = Usage string | Printed string | Warning string

definition arpa_main :: "(string \<Rightarrow> string + string) \<Rightarrow> string list \<Rightarrow> arpa_output \<times> int" where
  "arpa_main lookup argv =
     (if length argv \<noteq> 2 then (Usage (case argv of [] \<Rightarrow> [] | program # _ \<Rightarrow> program), 1)
      else case lookup (argv ! 1) of
             Inl error \<Rightarrow> (Warning error, 0)
           | Inr text \<Rightarrow> (Printed text, 0))"

text \<open>\<^verbatim>\<open>xmlrpc_test.cxx\<close>: two conversions, the second only if the first does not fail.\<close>

definition xmlrpc_main :: "(string \<Rightarrow> string + string) \<Rightarrow> (string \<Rightarrow> string + string) \<Rightarrow> arpa_output list" where
  "xmlrpc_main binary_data date_time =
     (case binary_data ''SGVsbG8gd29ybGQ='' of
        Inl error \<Rightarrow> [Warning error]
      | Inr b1 \<Rightarrow> Printed b1 #
          (case date_time ''2021-01-29T15:37:23Z'' of
             Inl error \<Rightarrow> [Warning error]
           | Inr d1 \<Rightarrow> [Printed d1]))"

definition interface_main :: "string list \<Rightarrow> string" where
  "interface_main interfaces = concat (map (\<lambda>i. i @ [CHR 0x0A]) interfaces)"

text \<open>
  The exit code of \<^verbatim>\<open>arpa\<close> is about the number of arguments only; an address that cannot be parsed
  is no failure.
\<close>

lemma arpa_exit_code: "snd (arpa_main lookup argv) = (if length argv = 2 then 0 else 1)"
  by (simp add: arpa_main_def split: sum.splits)

lemma xmlrpc_second_needs_first:
  "Printed t \<in> set (xmlrpc_main binary_data date_time) \<Longrightarrow> \<exists>b1. binary_data ''SGVsbG8gd29ybGQ='' = Inr b1"
  by (auto simp: xmlrpc_main_def split: sum.splits)

end
